(* ===== verification/Prelude.thy ===== *)
theory Prelude
  imports Main "HOL-Library.Word" "HOL-Library.Sublist" "HOL-Library.Monad_Syntax"
    "HOL-Library.Signed_Division"
begin

text \<open>
  The part of the Go language and of its standard library that the model of FuzzyVM shares:
  the integer types as words, a run that may panic as a value of type \<open>option\<close>
  (\<open>None\<close> is a panic, or a run that does not return), big-endian encodings
  (\<open>encoding/binary\<close>, \<open>big.Int.SetBytes\<close> and \<open>big.Int.Bytes\<close>), the built-in \<open>copy\<close>,
  and \<open>sort.Search\<close>.  The collections \<open>kept_intro\<close> and \<open>grow_intro\<close> are filled by the
  component theories.
\<close>

named_theorems kept_intro \<open>introduction rules for preservation of the environment invariant\<close>
named_theorems grow_intro \<open>program builder methods that only append code\<close>
named_theorems fill_intro \<open>introduction rules for operations on a filler\<close>

type_synonym byte = "8 word"
type_synonym u16 = "16 word"
type_synonym u32 = "32 word"
type_synonym u64 = "64 word"
type_synonym u256 = "256 word"

subsection \<open>Runs that may panic\<close>

text \<open>
  \<open>returns m Q\<close>: the run \<open>m\<close> returns, and what it returns satisfies \<open>Q\<close>.  It is the total
  correctness judgement of the development.
\<close>

definition returns :: "'r option \<Rightarrow> ('r \<Rightarrow> bool) \<Rightarrow> bool" where
  "returns m Q = (case m of None \<Rightarrow> False | Some r \<Rightarrow> Q r)"

lemma returns_simps [simp]:
  "returns (Some r) Q = Q r"
  "\<not> returns None Q"
  by (simp_all add: returns_def)

lemma returns_bind [simp]:
  "returns (Option.bind m k) Q = returns m (\<lambda>r. returns (k r) Q)"
  by (cases m) simp_all

lemma returns_iff: "returns m Q \<longleftrightarrow> (\<exists>r. m = Some r \<and> Q r)"
  by (cases m) simp_all

lemma returns_mono: "returns m Q \<Longrightarrow> (\<And>r. Q r \<Longrightarrow> R r) \<Longrightarrow> returns m R"
  by (cases m) simp_all

lemma returnsE:
  assumes "returns m Q"
  obtains r where "m = Some r" and "Q r"
  using assms by (auto simp: returns_iff)

lemma returns_conj: "returns m Q \<Longrightarrow> returns m R \<Longrightarrow> returns m (\<lambda>r. Q r \<and> R r)"
  by (cases m) simp_all

subsection \<open>Decimal numbers\<close>

text \<open>The decimal digits of \<open>%d\<close>.\<close>

fun decimal :: "nat \<Rightarrow> string" where
  "decimal n = (if n < 10 then [''0123456789'' ! n] else decimal (n div 10) @ [''0123456789'' ! (n mod 10)])"

declare decimal.simps [simp del]

subsection \<open>Big-endian numbers\<close>

text \<open>\<open>big.Int.SetBytes\<close>: the number a byte slice denotes, most significant byte first.\<close>

lemma unat_byte [simp]: "unat (b :: byte) < 256"
  using unsigned_less [of b, where ?'a = nat] by simp

definition be_val :: "byte list \<Rightarrow> nat" where
  "be_val bs = foldl (\<lambda>a b. a * 256 + unat b) 0 bs"

text \<open>\<open>binary.BigEndian.PutUintN\<close>: the low \<open>n\<close> bytes of a number.\<close>

fun be_bytes :: "nat \<Rightarrow> nat \<Rightarrow> byte list" where
  "be_bytes 0 v = []"
| "be_bytes (Suc n) v = be_bytes n (v div 256) @ [of_nat v]"

text \<open>\<open>big.Int.Bytes\<close>: the shortest big-endian encoding, empty for zero.\<close>

fun big_bytes :: "nat \<Rightarrow> byte list" where
  "big_bytes v = (if v = 0 then [] else big_bytes (v div 256) @ [of_nat v])"

declare big_bytes.simps [simp del]

lemma be_val_Nil [simp]: "be_val [] = 0"
  by (simp add: be_val_def)

lemma be_val_snoc [simp]: "be_val (bs @ [b]) = be_val bs * 256 + unat b"
  by (simp add: be_val_def)

lemma be_val_append: "be_val (xs @ ys) = be_val xs * 256 ^ length ys + be_val ys"
proof (induction ys rule: rev_induct)
  case (snoc y ys)
  have "be_val (xs @ ys @ [y]) = be_val (xs @ ys) * 256 + unat y"
    using be_val_snoc [of "xs @ ys" y] by simp
  with snoc show ?case by (simp add: algebra_simps)
qed simp

lemma be_val_Cons: "be_val (b # bs) = unat b * 256 ^ length bs + be_val bs"
  using be_val_append [of "[b]" bs] be_val_snoc [of "[]" b] by simp

lemma be_val_bound: "be_val bs < 256 ^ length bs"
proof (induction bs rule: rev_induct)
  case (snoc b bs)
  then show ?case using unat_byte [of b] by (simp del: unat_byte)
qed simp

lemma be_val_replicate_0 [simp]: "be_val (replicate n 0 @ bs) = be_val bs"
  by (induction n) (simp_all add: be_val_Cons)

lemma length_be_bytes [simp]: "length (be_bytes n v) = n"
  by (induction n v rule: be_bytes.induct) simp_all

lemma be_val_be_bytes: "be_val (be_bytes n v) = v mod 256 ^ n"
proof (induction n v rule: be_bytes.induct)
  case (2 n v)
  have "be_val (be_bytes (Suc n) v) = (v div 256) mod 256 ^ n * 256 + v mod 256"
    using 2 by (simp add: unat_of_nat)
  also have "\<dots> = v mod 256 ^ Suc n"
    using mod_mult2_eq [of v 256 "256 ^ n"] by simp
  finally show ?case .
qed simp

lemma be_val_big_bytes [simp]: "be_val (big_bytes v) = v"
proof (induction v rule: big_bytes.induct)
  case (1 v)
  show ?case
  proof (cases "v = 0")
    case False
    with 1 have "be_val (big_bytes (v div 256)) = v div 256" by simp
    with False show ?thesis
      by (subst big_bytes.simps) (simp add: unat_of_nat)
  qed (simp add: big_bytes.simps)
qed

text \<open>A \<open>big.Int\<close> that fits \<open>n\<close> unsigned bits.\<close>

definition ubits :: "nat \<Rightarrow> int \<Rightarrow> bool" where
  "ubits n v \<longleftrightarrow> 0 \<le> v \<and> v < 2 ^ n"

lemma ubits_0 [simp]: "ubits n 0"
  by (simp add: ubits_def)

lemma digit_unique:
  assumes "(a :: nat) * 256 + x = b * 256 + y" and "x < 256" and "y < 256"
  shows "a = b \<and> x = y"
proof -
  have "(a * 256 + x) div 256 = a" "(b * 256 + y) div 256 = b"
    using assms(2,3) by simp_all
  with assms(1) have "a = b" by metis
  with assms(1) show ?thesis by simp
qed

lemma be_val_inject:
  "length xs = length ys \<Longrightarrow> be_val xs = be_val ys \<Longrightarrow> xs = ys"
proof (induction xs arbitrary: ys rule: rev_induct)
  case (snoc x xs)
  then obtain y ys' where ys: "ys = ys' @ [y]"
    by (cases ys rule: rev_cases) auto
  have "unat x < 256" "unat y < 256"
    by simp_all
  moreover have "be_val xs * 256 + unat x = be_val ys' * 256 + unat y"
    using snoc.prems ys by simp
  ultimately have "be_val xs = be_val ys'" "unat x = unat y"
    by (auto dest: digit_unique)
  then show ?case using snoc ys by (simp add: word_unat_eq_iff)
qed simp

lemma be_bytes_be_val: "be_bytes (length bs) (be_val bs) = bs"
proof (rule be_val_inject)
  show "be_val (be_bytes (length bs) (be_val bs)) = be_val bs"
    using be_val_bound [of bs] by (simp add: be_val_be_bytes)
qed simp

lemma length_big_bytes_le: "v < 256 ^ n \<Longrightarrow> length (big_bytes v) \<le> n"
proof (induction n arbitrary: v)
  case (Suc n)
  then have "v div 256 < 256 ^ n"
    by (simp add: less_mult_imp_div_less mult.commute)
  with Suc.IH [of "v div 256"] show ?case
    by (subst big_bytes.simps) simp
qed (simp add: big_bytes.simps)

subsection \<open>Slices\<close>

text \<open>
  \<open>copy(dst[off:], src)\<close>: how many bytes are copied, and the destination afterwards.
  The offset is within the destination wherever the code calls it.
\<close>

definition copy_at :: "'a list \<Rightarrow> nat \<Rightarrow> 'a list \<Rightarrow> nat \<times> 'a list" where
  "copy_at dst off src =
     (let k = min (length dst - off) (length src)
      in (k, take off dst @ take k src @ drop (off + k) dst))"

text \<open>\<open>copy(dst[lo:hi], src)\<close> with constant bounds.\<close>

definition copy_range :: "'a list \<Rightarrow> nat \<Rightarrow> nat \<Rightarrow> 'a list \<Rightarrow> 'a list" where
  "copy_range dst lo hi src =
     (let k = min (hi - lo) (length src)
      in take lo dst @ take k src @ drop (lo + k) dst)"

lemma length_copy_at [simp]: "off \<le> length dst \<Longrightarrow> length (snd (copy_at dst off src)) = length dst"
  by (auto simp: copy_at_def Let_def)

lemma length_copy_range [simp]:
  "lo \<le> hi \<Longrightarrow> hi \<le> length dst \<Longrightarrow> length (copy_range dst lo hi src) = length dst"
  by (auto simp: copy_range_def Let_def)

lemma copy_range_fill:
  "length a = lo \<Longrightarrow> hi = lo + length s \<Longrightarrow> length s \<le> n \<Longrightarrow>
    copy_range (a @ replicate n x) lo hi s = (a @ s) @ replicate (n - length s) x"
  by (simp add: copy_range_def Let_def)

text \<open>Indexing and slicing panic out of range.\<close>

definition index :: "'a list \<Rightarrow> nat \<Rightarrow> 'a option" where
  "index xs i = (if i < length xs then Some (xs ! i) else None)"

definition slice :: "'a list \<Rightarrow> nat \<Rightarrow> nat \<Rightarrow> 'a list option" where
  "slice xs lo hi = (if lo \<le> hi \<and> hi \<le> length xs then Some (take (hi - lo) (drop lo xs)) else None)"

lemma index_Some [simp]: "i < length xs \<Longrightarrow> index xs i = Some (xs ! i)"
  by (simp add: index_def)

lemma slice_Some [simp]:
  "lo \<le> hi \<Longrightarrow> hi \<le> length xs \<Longrightarrow> slice xs lo hi = Some (take (hi - lo) (drop lo xs))"
  by (simp add: slice_def)

lemma upt_split: "i \<le> j \<Longrightarrow> j \<le> k \<Longrightarrow> [i..<k] = [i..<j] @ [j..<k]"
  by (metis le_Suc_ex upt_add_eq_append)

subsection \<open>\<open>sort.Search\<close>\<close>

text \<open>
  The binary search of the Go library: it keeps \<open>f (i - 1) = false\<close> and \<open>f j = true\<close> and
  halves the interval.
\<close>

function search_loop :: "(nat \<Rightarrow> bool) \<Rightarrow> nat \<Rightarrow> nat \<Rightarrow> nat" where
  "search_loop f i j =
     (if i < j
      then let h = (i + j) div 2
           in if \<not> f h then search_loop f (h + 1) j else search_loop f i h
      else i)"
  by pat_completeness auto
termination
  by (relation "measure (\<lambda>(f, i, j). j - i)") auto

declare search_loop.simps [simp del]

definition Search :: "nat \<Rightarrow> (nat \<Rightarrow> bool) \<Rightarrow> nat" where
  "Search n f = search_loop f 0 n"

lemma search_loop_bounds: "i \<le> j \<Longrightarrow> i \<le> search_loop f i j \<and> search_loop f i j \<le> j"
proof (induction f i j rule: search_loop.induct)
  case (1 f i j)
  show ?case
  proof (cases "i < j")
    case True
    define h where "h = (i + j) div 2"
    have h: "i \<le> h" "h < j" using True by (simp_all add: h_def)
    with 1(1,2) [OF True h_def] True show ?thesis
      by (subst (1 2) search_loop.simps) (auto simp: Let_def simp flip: h_def)
  next
    case False
    with "1.prems" show ?thesis by (simp add: search_loop.simps)
  qed
qed

text \<open>Whatever the predicate, the result is the length or a point where it holds.\<close>

lemma search_loop_sat: "i \<le> j \<Longrightarrow> search_loop f i j < j \<Longrightarrow> f (search_loop f i j)"
proof (induction f i j rule: search_loop.induct)
  case (1 f i j)
  show ?case
  proof (cases "i < j")
    case True
    define h where "h = (i + j) div 2"
    have h: "i \<le> h" "h < j" using True by (simp_all add: h_def)
    have eq: "search_loop f i j = (if \<not> f h then search_loop f (h + 1) j else search_loop f i h)"
      using True by (subst search_loop.simps) (simp add: h_def Let_def)
    show ?thesis
    proof (cases "f h")
      case fh: True
      show ?thesis
      proof (cases "search_loop f i h < h")
        case True
        with 1(2) [OF \<open>i < j\<close> h_def] fh h eq show ?thesis by simp
      next
        case False
        with search_loop_bounds [OF h(1), of f] fh eq show ?thesis by simp
      qed
    next
      case False
      with 1(1) [OF \<open>i < j\<close> h_def] "1.prems" h eq show ?thesis by simp
    qed
  next
    case False
    with "1.prems" show ?thesis by (simp add: search_loop.simps)
  qed
qed

lemma search_loop_least:
  assumes mono: "\<And>a b. a \<le> b \<Longrightarrow> f a \<Longrightarrow> f b"
  shows "i \<le> k \<Longrightarrow> k < search_loop f i j \<Longrightarrow> \<not> f k"
  using mono
proof (induction f i j rule: search_loop.induct)
  case (1 f i j)
  show ?case
  proof (cases "i < j")
    case True
    define h where "h = (i + j) div 2"
    have eq: "search_loop f i j = (if \<not> f h then search_loop f (h + 1) j else search_loop f i h)"
      using True by (subst search_loop.simps) (simp add: h_def Let_def)
    show ?thesis
    proof (cases "f h")
      case fh: True
      with 1(2) [OF True h_def] "1.prems" eq show ?thesis by simp
    next
      case False
      show ?thesis
      proof (cases "k \<le> h")
        case True
        with False "1.prems"(3) [of k h] show ?thesis by blast
      next
        case False
        with 1(1) [OF \<open>i < j\<close> h_def] \<open>\<not> f h\<close> "1.prems" eq show ?thesis by simp
      qed
    qed
  next
    case False
    with "1.prems" show ?thesis by (simp add: search_loop.simps)
  qed
qed

lemma Search_le [simp]: "Search n f \<le> n"
  using search_loop_bounds [of 0 n f] by (simp add: Search_def)

lemma Search_sat: "Search n f < n \<Longrightarrow> f (Search n f)"
  using search_loop_sat [of 0 n f] by (simp add: Search_def)

lemma Search_least: "(\<And>a b. a \<le> b \<Longrightarrow> f a \<Longrightarrow> f b) \<Longrightarrow> k < Search n f \<Longrightarrow> \<not> f k"
  using search_loop_least [of f 0 k n] by (simp add: Search_def)

lemma search_loop_cong:
  "(\<And>h. i \<le> h \<Longrightarrow> h < j \<Longrightarrow> f h = g h) \<Longrightarrow> search_loop f i j = search_loop g i j"
proof (induction f i j rule: search_loop.induct)
  case (1 f i j)
  show ?case
  proof (cases "i < j")
    case True
    define h where "h = (i + j) div 2"
    have "i \<le> h" "h < j" using True by (simp_all add: h_def)
    with 1(1,2) [OF True h_def] "1.prems" True show ?thesis
      by (simp add: search_loop.simps [of f i j] search_loop.simps [of g i j] Let_def flip: h_def)
  qed (simp add: search_loop.simps)
qed

lemma Search_cong: "(\<And>i. i < n \<Longrightarrow> f i = g i) \<Longrightarrow> Search n f = Search n g"
  unfolding Search_def by (rule search_loop_cong) simp

end
