(* ===== verification/Shutdown.thy ===== *)
theory Shutdown
  imports Prelude
begin

text \<open>
  Connections and shutdown of the server (\<open>serve\<close>, \<open>trackConn\<close>, \<open>untrackConn\<close>, \<open>shutdown\<close> and the
  frame of \<open>handle\<close> in \<open>cmd/fuzzyvm-db/server.go\<close>) as interleaved steps of goroutines: the accept
  loop, one handler for each connection, and the caller of \<open>shutdown\<close>.  What runs under the mutex
  is one step.  Connections are numbered in the order in which they are accepted.
\<close>

text \<open>Where the accept loop is, with the connection it has in hand.\<close>

datatype serve_pc =
    Accepting
  | Accepted nat
  | ConnTracked nat
  | WgAdded nat
  | ServeReturned

text \<open>
  Where a handler is: reading a frame, working on a request (the only place where it touches the
  database), about to run \<open>untrackConn\<close>, and about to run \<open>wg.Done\<close>.
\<close>

datatype handler_pc = Reading | Serving | Leaving | Untracked

datatype shutdown_pc = NotCalled | ListenerClosed | Waiting | Returned

record net_state =
  accepting :: bool
  closing :: bool
  conns :: "nat set"
  open_conns :: "nat set"
  wg :: nat
  next_conn :: nat
  serve_at :: serve_pc
  handlers :: "nat \<Rightarrow> handler_pc option"
  shutdown_at :: shutdown_pc

definition newServer :: net_state where
  "newServer = \<lparr>accepting = True, closing = False, conns = {}, open_conns = {}, wg = 0,
     next_conn = 0, serve_at = Accepting, handlers = Map.empty, shutdown_at = NotCalled\<rparr>"

definition trackConn :: "nat \<Rightarrow> net_state \<Rightarrow> bool \<times> net_state" where
  "trackConn c s = (if closing s then (False, s) else (True, s\<lparr>conns := conns s \<union> {c}\<rparr>))"

definition untrackConn :: "nat \<Rightarrow> net_state \<Rightarrow> net_state" where
  "untrackConn c s = s\<lparr>conns := conns s - {c}\<rparr>"

text \<open>The critical section of \<open>shutdown\<close>.\<close>

definition close_conns :: "net_state \<Rightarrow> net_state" where
  "close_conns s = s\<lparr>closing := True, open_conns := open_conns s - conns s\<rparr>"

text \<open>The steps the server takes by itself.\<close>

inductive own_step :: "net_state \<Rightarrow> net_state \<Rightarrow> bool" where
  accept_fails: "serve_at s = Accepting \<Longrightarrow> \<not> accepting s \<Longrightarrow>
    own_step s (s\<lparr>serve_at := ServeReturned\<rparr>)"
| track: "serve_at s = Accepted c \<Longrightarrow> trackConn c s = (True, s') \<Longrightarrow>
    own_step s (s'\<lparr>serve_at := ConnTracked c\<rparr>)"
| refuse: "serve_at s = Accepted c \<Longrightarrow> trackConn c s = (False, s') \<Longrightarrow>
    own_step s (s'\<lparr>open_conns := open_conns s' - {c}, serve_at := Accepting\<rparr>)"
| wg_add: "serve_at s = ConnTracked c \<Longrightarrow>
    own_step s (s\<lparr>wg := wg s + 1, serve_at := WgAdded c\<rparr>)"
| go_handle: "serve_at s = WgAdded c \<Longrightarrow>
    own_step s (s\<lparr>handlers := (handlers s)(c \<mapsto> Reading), serve_at := Accepting\<rparr>)"
| answered: "handlers s c = Some Serving \<Longrightarrow>
    own_step s (s\<lparr>handlers := (handlers s)(c \<mapsto> Reading)\<rparr>)"
| read_fails: "handlers s c = Some Reading \<Longrightarrow> c \<notin> open_conns s \<Longrightarrow>
    own_step s (s\<lparr>handlers := (handlers s)(c \<mapsto> Leaving)\<rparr>)"
| untrack: "handlers s c = Some Leaving \<Longrightarrow>
    own_step s ((untrackConn c s)\<lparr>handlers := (handlers s)(c \<mapsto> Untracked)\<rparr>)"
| handler_done: "handlers s c = Some Untracked \<Longrightarrow>
    own_step s (s\<lparr>open_conns := open_conns s - {c}, handlers := (handlers s)(c := None), wg := wg s - 1\<rparr>)"
| close_listener: "shutdown_at s = NotCalled \<Longrightarrow>
    own_step s (s\<lparr>accepting := False, shutdown_at := ListenerClosed\<rparr>)"
| mark_closing: "shutdown_at s = ListenerClosed \<Longrightarrow>
    own_step s ((close_conns s)\<lparr>shutdown_at := Waiting\<rparr>)"
| wait_returns: "shutdown_at s = Waiting \<Longrightarrow> wg s = 0 \<Longrightarrow>
    own_step s (s\<lparr>shutdown_at := Returned\<rparr>)"

text \<open>
  The steps that need a worker at the other end: it connects, sends a whole request, or hangs up
  (also in the middle of a frame or of an answer, which ends the handler in the same way).
\<close>

inductive peer_step :: "net_state \<Rightarrow> net_state \<Rightarrow> bool" where
  connect: "serve_at s = Accepting \<Longrightarrow> accepting s \<Longrightarrow>
    peer_step s (s\<lparr>open_conns := open_conns s \<union> {next_conn s}, next_conn := next_conn s + 1,
      serve_at := Accepted (next_conn s)\<rparr>)"
| request: "handlers s c = Some Reading \<Longrightarrow> c \<in> open_conns s \<Longrightarrow>
    peer_step s (s\<lparr>handlers := (handlers s)(c \<mapsto> Serving)\<rparr>)"
| hang_up: "handlers s c \<in> {Some Reading, Some Serving} \<Longrightarrow>
    peer_step s (s\<lparr>handlers := (handlers s)(c \<mapsto> Leaving)\<rparr>)"

inductive net_reachable :: "net_state \<Rightarrow> bool" where
  start: "net_reachable newServer"
| own: "net_reachable s \<Longrightarrow> own_step s s' \<Longrightarrow> net_reachable s'"
| peer: "net_reachable s \<Longrightarrow> peer_step s s' \<Longrightarrow> net_reachable s'"

subsection \<open>The invariant\<close>

text \<open>
  The wait group counts the handlers that run and the one about to be started; a handler whose
  connection may still deliver a request is tracked; and once \<open>closing\<close> is set no tracked
  connection is open.
\<close>

definition in_hand :: "serve_pc \<Rightarrow> nat option" where
  "in_hand p = (case p of Accepted c \<Rightarrow> Some c | ConnTracked c \<Rightarrow> Some c | WgAdded c \<Rightarrow> Some c | _ \<Rightarrow> None)"

definition id_inv :: "net_state \<Rightarrow> bool" where
  "id_inv s \<longleftrightarrow>
     (\<forall>c. handlers s c \<noteq> None \<longrightarrow> c < next_conn s) \<and>
     (\<forall>c. in_hand (serve_at s) = Some c \<longrightarrow> c < next_conn s \<and> handlers s c = None) \<and>
     (\<forall>c \<in> conns s. c < next_conn s)"

definition starting :: "serve_pc \<Rightarrow> nat" where
  "starting p = (case p of WgAdded c \<Rightarrow> 1 | _ \<Rightarrow> 0)"

definition count_inv :: "net_state \<Rightarrow> bool" where
  "count_inv s \<longleftrightarrow> finite (dom (handlers s)) \<and>
     wg s = card (dom (handlers s)) + starting (serve_at s)"

definition track_inv :: "net_state \<Rightarrow> bool" where
  "track_inv s \<longleftrightarrow>
     (\<forall>c. serve_at s = ConnTracked c \<or> serve_at s = WgAdded c \<longrightarrow> c \<in> conns s) \<and>
     (\<forall>c. handlers s c = Some Reading \<or> handlers s c = Some Serving \<longrightarrow> c \<in> conns s)"

definition close_inv :: "net_state \<Rightarrow> bool" where
  "close_inv s \<longleftrightarrow>
     (closing s \<longrightarrow> conns s \<inter> open_conns s = {}) \<and>
     (shutdown_at s = Waiting \<or> shutdown_at s = Returned \<longrightarrow> closing s) \<and>
     (shutdown_at s = Returned \<longrightarrow> (\<forall>c. handlers s c \<noteq> Some Serving))"

lemmas pc_defs = in_hand_def starting_def trackConn_def untrackConn_def close_conns_def

lemma id_inv_own: "own_step s s' \<Longrightarrow> id_inv s \<Longrightarrow> id_inv s'"
  by (induction rule: own_step.induct)
    (auto simp: id_inv_def pc_defs split: if_splits serve_pc.splits)

lemma id_inv_peer: "peer_step s s' \<Longrightarrow> id_inv s \<Longrightarrow> id_inv s'"
  by (induction rule: peer_step.induct)
    (fastforce simp: id_inv_def pc_defs split: if_splits serve_pc.splits)+

lemma dom_upd_Some: "h c = Some x \<Longrightarrow> insert c (dom h) = dom h"
  by auto

lemma count_inv_own: "own_step s s' \<Longrightarrow> id_inv s \<Longrightarrow> count_inv s \<Longrightarrow> count_inv s'"
proof (induction rule: own_step.induct)
  case (go_handle s c)
  then have "handlers s c = None" by (simp add: id_inv_def in_hand_def)
  then have "c \<notin> dom (handlers s)" by auto
  with go_handle show ?case by (simp add: count_inv_def starting_def)
next
  case (handler_done s c)
  then have c: "c \<in> dom (handlers s)" and fin: "finite (dom (handlers s))"
    by (auto simp: count_inv_def)
  then have "card (dom (handlers s)) = Suc (card (dom (handlers s) - {c}))"
    by (intro card.remove)
  with handler_done fin show ?case by (simp add: count_inv_def dom_fun_upd)
qed (auto simp: count_inv_def pc_defs dom_upd_Some split: if_splits)

lemma count_inv_peer: "peer_step s s' \<Longrightarrow> count_inv s \<Longrightarrow> count_inv s'"
  by (induction rule: peer_step.induct) (auto simp: count_inv_def pc_defs dom_upd_Some)

lemma track_inv_own: "own_step s s' \<Longrightarrow> id_inv s \<Longrightarrow> track_inv s \<Longrightarrow> track_inv s'"
  by (induction rule: own_step.induct)
    (auto simp: track_inv_def id_inv_def pc_defs split: if_splits)

lemma track_inv_peer: "peer_step s s' \<Longrightarrow> track_inv s \<Longrightarrow> track_inv s'"
  by (induction rule: peer_step.induct) (auto simp: track_inv_def)

lemma no_handlers: "count_inv s \<Longrightarrow> wg s = 0 \<Longrightarrow> handlers s c = None"
  by (auto simp: count_inv_def)

lemma close_inv_own: "own_step s s' \<Longrightarrow> count_inv s \<Longrightarrow> close_inv s \<Longrightarrow> close_inv s'"
  by (induction rule: own_step.induct)
    (auto simp: close_inv_def pc_defs no_handlers split: if_splits)

lemma close_inv_peer: "peer_step s s' \<Longrightarrow> id_inv s \<Longrightarrow> track_inv s \<Longrightarrow> close_inv s \<Longrightarrow> close_inv s'"
  by (induction rule: peer_step.induct) (auto simp: close_inv_def track_inv_def id_inv_def)

lemma reachable_inv:
  "net_reachable s \<Longrightarrow> id_inv s \<and> count_inv s \<and> track_inv s \<and> close_inv s"
proof (induction rule: net_reachable.induct)
  case start
  show ?case
    by (simp add: newServer_def id_inv_def count_inv_def track_inv_def close_inv_def pc_defs)
next
  case (own s s')
  then show ?case
    using id_inv_own count_inv_own track_inv_own close_inv_own by blast
next
  case (peer s s')
  then show ?case
    using id_inv_peer count_inv_peer track_inv_peer close_inv_peer by blast
qed

text \<open>The stages of \<open>shutdown\<close> in their order; no step goes back, so a return of \<open>shutdown\<close> is final.\<close>

fun stage :: "shutdown_pc \<Rightarrow> nat" where
  "stage NotCalled = 0"
| "stage ListenerClosed = 1"
| "stage Waiting = 2"
| "stage Returned = 3"

instantiation shutdown_pc :: linorder
begin

definition less_eq_shutdown_pc :: "shutdown_pc \<Rightarrow> shutdown_pc \<Rightarrow> bool" where
  "a \<le> b \<longleftrightarrow> stage a \<le> stage b"

definition less_shutdown_pc :: "shutdown_pc \<Rightarrow> shutdown_pc \<Rightarrow> bool" where
  "a < b \<longleftrightarrow> stage a < stage b"

instance
proof
  fix a b :: shutdown_pc
  assume "a \<le> b" and "b \<le> a"
  then show "a = b" by (cases a; cases b) (simp_all add: less_eq_shutdown_pc_def)
qed (auto simp: less_eq_shutdown_pc_def less_shutdown_pc_def)

end

lemma Returned_max [simp]: "Returned \<le> a \<longleftrightarrow> a = Returned"
  by (cases a) (simp_all add: less_eq_shutdown_pc_def)

abbreviation net_step :: "net_state \<Rightarrow> net_state \<Rightarrow> bool" where
  "net_step s s' \<equiv> own_step s s' \<or> peer_step s s'"

inductive_cases own_stepE: "own_step s s'"
inductive_cases peer_stepE: "peer_step s s'"

lemma shutdown_mono: "net_step s s' \<Longrightarrow> shutdown_at s \<le> shutdown_at s'"
  by (elim disjE own_stepE peer_stepE) (auto simp: pc_defs less_eq_shutdown_pc_def split: if_splits)

lemma returned_steps:
  "net_step\<^sup>*\<^sup>* s t \<Longrightarrow> net_reachable s \<Longrightarrow> shutdown_at s = Returned \<Longrightarrow>
    net_reachable t \<and> shutdown_at t = Returned"
proof (induction rule: rtranclp_induct)
  case (step t u)
  with shutdown_mono [of t u] show ?case by (auto intro: net_reachable.intros)
qed blast

text \<open>C16. Once \<open>shutdown\<close> has returned, no handler works on a request, now or after any further steps of the
  server and the workers, so the database can be closed: a handler that the accept loop starts late
  (between \<open>trackConn\<close> and \<open>wg.Add\<close> the wait group does not count it) only ever sees its connection
  closed.  At all times the wait group counts exactly the handlers that run and the one about to start.\<close>

theorem shutdown_stops_requests:
  assumes "net_reachable s"
  shows "(shutdown_at s = Returned \<longrightarrow> (\<forall>t. net_step\<^sup>*\<^sup>* s t \<longrightarrow> (\<forall>c. handlers t c \<noteq> Some Serving) \<and>
      (\<forall>c. handlers t c = Some Reading \<longrightarrow> c \<notin> open_conns t))) \<and>
    (closing s \<longrightarrow> conns s \<inter> open_conns s = {}) \<and>
    wg s = card (dom (handlers s)) + (case serve_at s of WgAdded c \<Rightarrow> 1 | _ \<Rightarrow> 0)"
proof (intro conjI impI allI)
  fix t c assume "shutdown_at s = Returned" and "net_step\<^sup>*\<^sup>* s t"
  then have t: "close_inv t" "track_inv t" "shutdown_at t = Returned"
    using returned_steps [OF _ assms] reachable_inv by blast+
  from t show "handlers t c \<noteq> Some Serving" by (simp add: close_inv_def)
  from t show "handlers t c = Some Reading \<Longrightarrow> c \<notin> open_conns t"
    by (auto simp: close_inv_def track_inv_def)
qed (use reachable_inv [OF assms] in \<open>auto simp: close_inv_def count_inv_def starting_def\<close>)

subsection \<open>Shutdown returns\<close>

definition all_inv :: "net_state \<Rightarrow> bool" where
  "all_inv s \<longleftrightarrow> id_inv s \<and> count_inv s \<and> track_inv s \<and> close_inv s"

lemma all_inv_own: "own_step s s' \<Longrightarrow> all_inv s \<Longrightarrow> all_inv s'"
  using id_inv_own count_inv_own track_inv_own close_inv_own by (auto simp: all_inv_def)

lemma all_inv_owns: "own_step\<^sup>*\<^sup>* s s' \<Longrightarrow> all_inv s \<Longrightarrow> all_inv s'"
  by (induction rule: rtranclp_induct) (auto intro: all_inv_own)

text \<open>A run of the handler of \<open>c\<close> to its end, nothing else having moved.\<close>

definition ends :: "nat \<Rightarrow> net_state \<Rightarrow> bool" where
  "ends c s \<longleftrightarrow> (\<exists>s'. own_step\<^sup>*\<^sup>* s s' \<and> handlers s' = (handlers s)(c := None) \<and>
     serve_at s' = serve_at s \<and> shutdown_at s' = shutdown_at s)"

lemma ends_step:
  assumes "own_step s t" and "ends c t" and "handlers t = (handlers s)(c := h)"
    and "serve_at t = serve_at s" and "shutdown_at t = shutdown_at s"
  shows "ends c s"
proof -
  from assms(2) obtain s' where "own_step\<^sup>*\<^sup>* t s'" "handlers s' = (handlers t)(c := None)"
    "serve_at s' = serve_at t" "shutdown_at s' = shutdown_at t" by (auto simp: ends_def)
  then show ?thesis
    unfolding ends_def using assms
    by (intro exI [of _ s'] conjI converse_rtranclp_into_rtranclp [of own_step s t s']) simp_all
qed

lemma handler_ends:
  assumes "all_inv s" and "shutdown_at s = Waiting" and "handlers s c = Some h"
  shows "ends c s"
proof -
  have untracked: "ends c s" if "handlers s c = Some Untracked" for s
    unfolding ends_def by (rule exI, rule conjI, rule r_into_rtranclp, rule handler_done [OF that]) simp
  have leaving: "ends c s" if "handlers s c = Some Leaving" for s
    by (rule ends_step [OF untrack [OF that] untracked]) (simp_all add: untrackConn_def)
  have reading: "ends c s" if "handlers s c = Some Reading" "c \<notin> open_conns s" for s
    by (rule ends_step [OF read_fails [OF that] leaving]) simp_all
  have serving: "ends c s" if "handlers s c = Some Serving" "c \<notin> open_conns s" for s
    by (rule ends_step [OF answered [OF that(1)] reading]) (simp_all add: that(2))
  have "c \<notin> open_conns s" if "h = Reading \<or> h = Serving"
    using assms that by (auto simp: all_inv_def track_inv_def close_inv_def)
  with assms(3) untracked leaving reading serving show ?thesis
    by (cases h) auto
qed

lemma drained:
  "card (dom (handlers s)) = n \<Longrightarrow> all_inv s \<Longrightarrow> shutdown_at s = Waiting \<Longrightarrow> starting (serve_at s) = 0 \<Longrightarrow>
    \<exists>s'. own_step\<^sup>*\<^sup>* s s' \<and> shutdown_at s' = Waiting \<and> wg s' = 0"
proof (induction n arbitrary: s)
  case 0
  then show ?case by (intro exI [of _ s]) (simp add: all_inv_def count_inv_def)
next
  case (Suc n)
  then have fin: "finite (dom (handlers s))" by (simp add: all_inv_def count_inv_def)
  from Suc.prems(1) obtain c h where c: "handlers s c = Some h" by fastforce
  from handler_ends [OF Suc.prems(2,3) c] obtain t where t: "own_step\<^sup>*\<^sup>* s t"
    "handlers t = (handlers s)(c := None)" "serve_at t = serve_at s" "shutdown_at t = shutdown_at s"
    by (auto simp: ends_def)
  have "card (dom (handlers t)) = n"
    using Suc.prems(1) fin c by (simp add: t(2) domI)
  from Suc.IH [OF this all_inv_owns [OF t(1) Suc.prems(2)]] t Suc.prems(3,4)
  obtain s' where "own_step\<^sup>*\<^sup>* t s'" "shutdown_at s' = Waiting" "wg s' = 0" by auto
  with t(1) show ?case by (meson rtranclp_trans)
qed

lemma waiting_returns:
  assumes "all_inv s" and "shutdown_at s = Waiting"
  shows "\<exists>s'. own_step\<^sup>*\<^sup>* s s' \<and> shutdown_at s' = Returned"
proof -
  obtain t where t: "own_step\<^sup>*\<^sup>* s t" "shutdown_at t = Waiting" "starting (serve_at t) = 0"
  proof (cases "serve_at s")
    case (WgAdded c)
    from go_handle [OF this] show ?thesis
      by (intro that [of "s\<lparr>handlers := (handlers s)(c \<mapsto> Reading), serve_at := Accepting\<rparr>"])
        (auto simp: assms starting_def)
  qed (use that [of s] assms in \<open>simp_all add: starting_def\<close>)
  from drained [OF refl all_inv_owns [OF t(1) assms(1)] t(2,3)]
  obtain s' where s': "own_step\<^sup>*\<^sup>* t s'" "shutdown_at s' = Waiting" "wg s' = 0" by blast
  have "own_step\<^sup>*\<^sup>* s (s'\<lparr>shutdown_at := Returned\<rparr>)"
    using t(1) s'(1) wait_returns [OF s'(2,3)]
    by (meson rtranclp.rtrancl_into_rtrancl rtranclp_trans)
  then show ?thesis by (intro exI [of _ "s'\<lparr>shutdown_at := Returned\<rparr>"]) simp
qed

text \<open>C17. \<open>shutdown\<close> never deadlocks: from every reachable state in which it has been called, steps of
  the server alone, with no cooperation of any worker, lead to its return.  Closing the tracked
  connections is what lets every blocked handler end.\<close>

theorem shutdown_can_return:
  assumes "net_reachable s" and "shutdown_at s \<noteq> NotCalled"
  shows "\<exists>s'. own_step\<^sup>*\<^sup>* s s' \<and> shutdown_at s' = Returned"
proof -
  have inv: "all_inv s" using reachable_inv [OF assms(1)] by (simp add: all_inv_def)
  show ?thesis
  proof (cases "shutdown_at s")
    case ListenerClosed
    note step = mark_closing [OF this]
    from waiting_returns [OF all_inv_own [OF step inv]] obtain s' where
      "own_step\<^sup>*\<^sup>* ((close_conns s)\<lparr>shutdown_at := Waiting\<rparr>) s'" "shutdown_at s' = Returned" by auto
    with step show ?thesis by (meson converse_rtranclp_into_rtranclp)
  next
    case Waiting
    with waiting_returns [OF inv] show ?thesis by blast
  qed (use assms(2) in auto)
qed

text \<open>A run in which \<open>shutdown\<close> returns between \<open>trackConn\<close> and \<open>wg.Add\<close>.\<close>

definition late_start :: net_state where
  "late_start = \<lparr>accepting = False, closing = True, conns = {0}, open_conns = {}, wg = 0, next_conn = 1,
     serve_at = ConnTracked 0, handlers = Map.empty, shutdown_at = Returned\<rparr>"

lemma late_start_reachable: "net_reachable late_start"
proof -
  let ?a = "newServer\<lparr>open_conns := {0}, next_conn := 1, serve_at := Accepted 0\<rparr>"
  let ?b = "?a\<lparr>conns := {0}, serve_at := ConnTracked 0\<rparr>"
  let ?c = "?b\<lparr>accepting := False, shutdown_at := ListenerClosed\<rparr>"
  let ?d = "(close_conns ?c)\<lparr>shutdown_at := Waiting\<rparr>"
  have "peer_step newServer ?a"
    using connect [of newServer] by (simp add: newServer_def)
  moreover have "own_step ?a ?b"
    using track [of ?a 0 "?a\<lparr>conns := {0}\<rparr>"] by (simp add: trackConn_def newServer_def)
  moreover have "own_step ?b ?c"
    using close_listener [of ?b] by (simp add: newServer_def)
  moreover have "own_step ?c ?d"
    using mark_closing [of ?c] by simp
  moreover have "own_step ?d (?d\<lparr>shutdown_at := Returned\<rparr>)"
    using wait_returns [of ?d] by (simp add: close_conns_def newServer_def)
  ultimately have "net_reachable (?d\<lparr>shutdown_at := Returned\<rparr>)"
    by (meson net_reachable.intros)
  then show ?thesis
    by (simp add: late_start_def close_conns_def newServer_def)
qed

text \<open>The handler that is started late.\<close>

definition late_handler :: net_state where
  "late_handler = late_start\<lparr>wg := 1, handlers := [0 \<mapsto> Reading], serve_at := Accepting\<rparr>"

lemma late_handler_steps: "own_step\<^sup>*\<^sup>* late_start late_handler"
proof -
  let ?t = "late_start\<lparr>wg := 1, serve_at := WgAdded 0\<rparr>"
  have "own_step late_start ?t"
    using wg_add [of late_start 0] by (simp add: late_start_def)
  moreover have "own_step ?t late_handler"
    using go_handle [of ?t 0] by (simp add: late_handler_def late_start_def)
  ultimately show ?thesis by (meson converse_rtranclp_into_rtranclp rtranclp.rtrancl_refl)
qed

theorem shutdown_stops_requests_witness:
  "\<exists>t. net_step\<^sup>*\<^sup>* late_start t \<and> handlers t 0 = Some Reading \<and> 0 \<notin> open_conns t \<and>
    (\<forall>c. handlers t c \<noteq> Some Serving)"
proof -
  have "net_step\<^sup>*\<^sup>* late_start late_handler"
    by (rule mono_rtranclp [rule_format, OF _ late_handler_steps]) blast
  moreover have "shutdown_at late_start = Returned" by (simp add: late_start_def)
  moreover have "handlers late_handler 0 = Some Reading" by (simp add: late_handler_def)
  ultimately show ?thesis
    using shutdown_stops_requests [OF late_start_reachable] by blast
qed

lemma listener_closed_reachable:
  "net_reachable (newServer\<lparr>accepting := False, shutdown_at := ListenerClosed\<rparr>)"
  by (rule own [OF start close_listener]) (simp add: newServer_def)

theorem shutdown_can_return_witness:
  "\<exists>s'. own_step\<^sup>*\<^sup>* (newServer\<lparr>accepting := False, shutdown_at := ListenerClosed\<rparr>) s' \<and>
    shutdown_at s' = Returned"
  using shutdown_can_return [OF listener_closed_reachable] by simp

text \<open>The comment on \<open>shutdown\<close> says that it waits for all handlers in flight.  It does not: there
  is a run in which it has returned while the accept loop still holds a tracked connection, for
  which it then starts a handler.  (That handler finds its connection closed.)\<close>

theorem shutdown_may_return_before_a_handler_starts:
  "\<exists>s s'. net_reachable s \<and> shutdown_at s = Returned \<and> own_step\<^sup>*\<^sup>* s s' \<and>
    wg s' = 1 \<and> handlers s' 0 = Some Reading"
  using late_start_reachable late_handler_steps
  by (intro exI [of _ late_start] exI [of _ late_handler]) (simp add: late_start_def late_handler_def)

end
