(* ===== verification/Filler.thy ===== *)
theory Filler
  imports Prelude
begin

text \<open>
  The data source of the fuzzer (\<open>filler/fill.go\<close>): a byte slice that is read from a
  cursor and restarts at its beginning.  The operations are translated one by one; the
  abstract specification is an infinite cyclic tape (\<open>tape\<close>), and every operation is shown
  to read a segment of the tape and to advance the cursor by its length.  Slice lengths and
  cursors are natural numbers: no caller passes a negative length.
\<close>

record filler =
  data :: "byte list"
  pointer :: nat
  usedUp :: bool

definition NewFiller :: "byte list \<Rightarrow> filler" where
  "NewFiller d =
     (let d' = (if length d = 0 then replicate 1 0 else d)
      in \<lparr>data = d', pointer = 0, usedUp = False\<rparr>)"

definition incPointer :: "nat \<Rightarrow> filler \<Rightarrow> filler option" where
  "incPointer i f =
     (let f1 = (if pointer f + i \<ge> length (data f) then f\<lparr>usedUp := True\<rparr> else f)
      in if length (data f1) = 0 then None
         else Some (f1\<lparr>pointer := (pointer f1 + i) mod length (data f1)\<rparr>))"

definition Byte :: "filler \<Rightarrow> (byte \<times> filler) option" where
  "Byte f = do {
     b \<leftarrow> index (data f) (pointer f);
     f \<leftarrow> incPointer 1 f;
     Some (b, f)
   }"

definition Bool :: "filler \<Rightarrow> (bool \<times> filler) option" where
  "Bool f = do {
     (b, f) \<leftarrow> Byte f;
     Some (b > 127, f)
   }"

text \<open>
  The wrap-around loop of \<open>ByteSlice\<close>: \<open>i\<close> bytes of \<open>b\<close> are filled, the next copy starts
  at \<open>p\<close>.  A copy of no bytes is the panic of the source.
\<close>

function ByteSlice_loop ::
    "byte list \<Rightarrow> nat \<Rightarrow> nat \<Rightarrow> nat \<Rightarrow> byte list \<Rightarrow> byte list option" where
  "ByteSlice_loop d items p i b =
     (if i < items then
        (let (it, b') = copy_at b i (drop p d)
         in if it = 0 then None else ByteSlice_loop d items 0 (i + it) b')
      else Some b)"
  by pat_completeness auto
termination
  by (relation "measure (\<lambda>(d, items, p, i, b). items - i)") auto

declare ByteSlice_loop.simps [simp del]

definition ByteSlice :: "nat \<Rightarrow> filler \<Rightarrow> (byte list \<times> filler) option" where
  "ByteSlice items f =
     (let b = replicate items 0 in
      if pointer f + items \<le> length (data f) then do {
        src \<leftarrow> slice (data f) (pointer f) (length (data f));
        let b = snd (copy_at b 0 src);
        f \<leftarrow> incPointer items f;
        Some (b, f)
      } else do {
        let start = pointer f;
        b \<leftarrow> (if start \<le> length (data f)
             then ByteSlice_loop (data f) items start 0 b else None);
        if length (data f) = 0 then None
        else Some (b, f\<lparr>pointer := (start + items) mod length (data f), usedUp := True\<rparr>)
      })"

definition ByteSlice256 :: "filler \<Rightarrow> (byte list \<times> filler) option" where
  "ByteSlice256 f = do {
     (b, f) \<leftarrow> Byte f;
     ByteSlice (unat b) f
   }"

text \<open>
  \<open>Read\<close> fills the destination it is given: its result is the number of bytes, the new
  contents of the destination and the filler; the error is always \<open>nil\<close>.
\<close>

definition Read :: "byte list \<Rightarrow> filler \<Rightarrow> ((nat \<times> byte list) \<times> filler) option" where
  "Read b f = do {
     (tmp, f) \<leftarrow> ByteSlice (length b) f;
     let b = foldl (\<lambda>b i. b[i := tmp ! i]) b [0..<length b];
     Some ((length b, b), f)
   }"

definition Uint16 :: "filler \<Rightarrow> (u16 \<times> filler) option" where
  "Uint16 f = do {
     (b, f) \<leftarrow> ByteSlice 2 f;
     Some (of_nat (be_val b), f)
   }"

definition Uint32 :: "filler \<Rightarrow> (u32 \<times> filler) option" where
  "Uint32 f = do {
     (b, f) \<leftarrow> ByteSlice 4 f;
     Some (of_nat (be_val b), f)
   }"

definition Uint64 :: "filler \<Rightarrow> (u64 \<times> filler) option" where
  "Uint64 f = do {
     (b, f) \<leftarrow> ByteSlice 8 f;
     Some (of_nat (be_val b), f)
   }"

definition BigInt16 :: "filler \<Rightarrow> (int \<times> filler) option" where
  "BigInt16 f = do {
     (i, f) \<leftarrow> Uint16 f;
     Some (uint i, f)
   }"

definition BigInt32 :: "filler \<Rightarrow> (int \<times> filler) option" where
  "BigInt32 f = do {
     (i, f) \<leftarrow> Uint32 f;
     Some (uint i, f)
   }"

definition BigInt64 :: "filler \<Rightarrow> (int \<times> filler) option" where
  "BigInt64 f = do {
     (i, f) \<leftarrow> ByteSlice 8 f;
     Some (int (be_val i), f)
   }"

definition BigInt256 :: "filler \<Rightarrow> (int \<times> filler) option" where
  "BigInt256 f = do {
     (i, f) \<leftarrow> ByteSlice 32 f;
     Some (int (be_val i), f)
   }"

definition GasInt :: "filler \<Rightarrow> (int \<times> filler) option" where
  "GasInt f = do {
     (b, f) \<leftarrow> Byte f;
     if b = 253 then BigInt32 f
     else if b = 254 then BigInt64 f
     else if b = 255 then BigInt256 f
     else do {
       (i, f) \<leftarrow> BigInt32 f;
       Some (i mod 20000000, f)
     }
   }"

definition MemInt :: "filler \<Rightarrow> (int \<times> filler) option" where
  "MemInt f = do {
     (b, f) \<leftarrow> Byte f;
     if b = 253 then BigInt32 f
     else if b = 254 then BigInt64 f
     else if b = 255 then BigInt256 f
     else do {
       (i, f) \<leftarrow> Byte f;
       Some (uint i, f)
     }
   }"

definition Reset :: "filler \<Rightarrow> filler" where
  "Reset f = f\<lparr>pointer := 0, usedUp := False\<rparr>"

definition UsedUp :: "filler \<Rightarrow> bool" where
  "UsedUp f = usedUp f"

subsection \<open>The cyclic tape\<close>

text \<open>The invariant of a filler, established by \<open>NewFiller\<close> and kept by every operation.\<close>

definition filler_ok :: "filler \<Rightarrow> bool" where
  "filler_ok f \<longleftrightarrow> pointer f < length (data f)"

definition tape :: "filler \<Rightarrow> nat \<Rightarrow> byte" where
  "tape f i = data f ! ((pointer f + i) mod length (data f))"

definition upcoming :: "nat \<Rightarrow> filler \<Rightarrow> byte list" where
  "upcoming n f = map (tape f) [0..<n]"

definition advance :: "nat \<Rightarrow> filler \<Rightarrow> filler" where
  "advance n f =
     f\<lparr>pointer := (pointer f + n) mod length (data f),
       usedUp := usedUp f \<or> length (data f) \<le> pointer f + n\<rparr>"

lemma filler_ok_NewFiller [simp]: "filler_ok (NewFiller d)"
  by (simp add: filler_ok_def NewFiller_def)

lemma filler_ok_advance [simp]: "filler_ok f \<Longrightarrow> filler_ok (advance n f)"
  by (auto simp: filler_ok_def advance_def intro: mod_less_divisor)

lemma filler_ok_Reset [simp]: "filler_ok f \<Longrightarrow> filler_ok (Reset f)"
  by (auto simp: filler_ok_def Reset_def)

lemma data_advance [simp]: "data (advance n f) = data f"
  by (simp add: advance_def)

lemma length_upcoming [simp]: "length (upcoming n f) = n"
  by (simp add: upcoming_def)

lemma tape_advance: "filler_ok f \<Longrightarrow> tape (advance n f) i = tape f (n + i)"
  by (simp add: tape_def advance_def mod_add_left_eq add.assoc)

lemma upcoming_add: "filler_ok f \<Longrightarrow> upcoming (m + n) f = upcoming m f @ upcoming n (advance m f)"
proof -
  assume "filler_ok f"
  have "[0..<m + n] = [0..<m] @ map (\<lambda>i. m + i) [0..<n]"
    by (induction n) simp_all
  with \<open>filler_ok f\<close> show ?thesis
    by (simp add: upcoming_def tape_advance comp_def)
qed

lemma advance_advance: "filler_ok f \<Longrightarrow> advance n (advance m f) = advance (m + n) f"
proof -
  assume ok: "filler_ok f"
  define L where "L = length (data f)"
  define q where "q = pointer f + m"
  have "pointer f < L" using ok by (simp add: filler_ok_def L_def)
  then have "(L \<le> q \<or> L \<le> q mod L + n) \<longleftrightarrow> L \<le> q + n"
    by (cases "L \<le> q") auto
  then show ?thesis
    by (auto simp: advance_def mod_add_left_eq add.assoc simp flip: L_def q_def)
      (simp_all add: q_def add.assoc)
qed

lemma incPointer_advance: "filler_ok f \<Longrightarrow> incPointer n f = Some (advance n f)"
  by (auto simp: incPointer_def advance_def filler_ok_def Let_def)

lemma Byte_spec: "filler_ok f \<Longrightarrow> Byte f = Some (tape f 0, advance 1 f)"
  by (simp add: Byte_def incPointer_advance) (simp add: filler_ok_def tape_def)

text \<open>The copy loop reads the tape, whatever the length of the data.\<close>

lemma take_drop_nth:
  "p + n \<le> length d \<Longrightarrow> take n (drop p d) = map (\<lambda>k. d ! (p + k)) [0..<n]"
  by (rule nth_equalityI) auto

lemma ByteSlice_loop_spec:
  assumes "d \<noteq> []"
  shows "i \<le> items \<Longrightarrow> length b = items \<Longrightarrow> p < length d \<Longrightarrow>
    ByteSlice_loop d items p i b =
      Some (take i b @ map (\<lambda>k. d ! ((p + k) mod length d)) [0..<items - i])"
  using assms
proof (induction d items p i b rule: ByteSlice_loop.induct)
  case (1 d items p i b)
  show ?case
  proof (cases "i < items")
    case False
    with "1.prems" show ?thesis by (subst ByteSlice_loop.simps) simp
  next
    case True
    define it where "it = min (items - i) (length d - p)"
    define b' where "b' = take i b @ take it (drop p d) @ drop (i + it) b"
    have c: "(it, b') = copy_at b i (drop p d)"
      using "1.prems" by (simp add: copy_at_def Let_def it_def b'_def)
    have it: "it \<noteq> 0" "i + it \<le> items" "length b' = items" "p + it \<le> length d"
      using True "1.prems" by (auto simp: it_def b'_def)
    have "ByteSlice_loop d items p i b = ByteSlice_loop d items 0 (i + it) b'"
      using True it(1) by (subst ByteSlice_loop.simps) (simp flip: c)
    also have "\<dots> = Some (take (i + it) b' @
        map (\<lambda>k. d ! ((0 + k) mod length d)) [0..<items - (i + it)])"
      using 1(1) [OF True c refl it(1)] it "1.prems" by simp
    also have "take (i + it) b' = take i b @ take it (drop p d)"
      using "1.prems" it True by (simp add: b'_def)
    also have "take it (drop p d) = map (\<lambda>k. d ! ((p + k) mod length d)) [0..<it]"
      using it(4) by (simp add: take_drop_nth)
    also have "map (\<lambda>k. d ! ((0 + k) mod length d)) [0..<items - (i + it)] =
        map (\<lambda>k. d ! ((p + (it + k)) mod length d)) [0..<items - (i + it)]"
    proof (cases "it = items - i")
      case False
      then have "p + it = length d" using it by (auto simp: it_def)
      then show ?thesis by (simp add: add.assoc [symmetric])
    qed simp
    also have "map (\<lambda>k. d ! ((p + (it + k)) mod length d)) [0..<items - (i + it)] =
        map (\<lambda>k. d ! ((p + k) mod length d)) (map (\<lambda>k. it + k) [0..<items - (i + it)])"
      by (simp add: comp_def)
    also have "map (\<lambda>k. it + k) [0..<items - (i + it)] = [it..<items - i]"
      using it(2) by (simp add: map_add_upt add.commute [of it])
    finally show ?thesis
      using it(2) upt_split [of 0 it "items - i"] by (simp flip: map_append)
  qed
qed

text \<open>The functional specification of \<open>ByteSlice\<close>, on both of its branches.\<close>

lemma ByteSlice_spec: "filler_ok f \<Longrightarrow> ByteSlice n f = Some (upcoming n f, advance n f)"
proof (cases "pointer f + n \<le> length (data f)")
  case True
  moreover assume "filler_ok f"
  moreover from True have "take n (drop (pointer f) (data f)) = upcoming n f"
    by (simp add: take_drop_nth upcoming_def tape_def)
  moreover from True have "n \<le> length (data f) - pointer f" by simp
  ultimately show ?thesis
    by (simp add: ByteSlice_def copy_at_def Let_def incPointer_advance min_def)
next
  case False
  moreover assume ok: "filler_ok f"
  moreover from ok have "ByteSlice_loop (data f) n (pointer f) 0 (replicate n 0) =
      Some (upcoming n f)"
    by (subst ByteSlice_loop_spec) (auto simp: filler_ok_def upcoming_def tape_def)
  ultimately show ?thesis
    by (auto simp: ByteSlice_def filler_ok_def advance_def Let_def)
qed

lemma ByteSlice256_spec:
  "filler_ok f \<Longrightarrow>
    ByteSlice256 f = Some (upcoming (unat (tape f 0)) (advance 1 f), advance (1 + unat (tape f 0)) f)"
  by (simp add: ByteSlice256_def Byte_spec ByteSlice_spec advance_advance)

lemma foldl_overwrite:
  "k \<le> length b \<Longrightarrow> k \<le> length tmp \<Longrightarrow>
    foldl (\<lambda>b i. b[i := tmp ! i]) b [0..<k] = take k tmp @ drop k b"
proof (induction k)
  case (Suc k)
  then have "foldl (\<lambda>b i. b[i := tmp ! i]) b [0..<Suc k] = (take k tmp @ drop k b)[k := tmp ! k]"
    by simp
  also have "\<dots> = take (Suc k) tmp @ drop (Suc k) b"
    using Suc.prems by (auto simp: list_update_append take_Suc_conv_app_nth Cons_nth_drop_Suc [symmetric])
  finally show ?case .
qed simp

lemma Read_spec:
  "filler_ok f \<Longrightarrow>
    Read b f = Some ((length b, upcoming (length b) f), advance (length b) f)"
  by (simp add: Read_def ByteSlice_spec foldl_overwrite)

lemma be_val_upcoming: "be_val (upcoming n f) < 256 ^ n"
  using be_val_bound [of "upcoming n f"] by simp

lemma Uint16_spec:
  "filler_ok f \<Longrightarrow> Uint16 f = Some (of_nat (be_val (upcoming 2 f)), advance 2 f)"
  by (simp add: Uint16_def ByteSlice_spec)

lemma Uint32_spec:
  "filler_ok f \<Longrightarrow> Uint32 f = Some (of_nat (be_val (upcoming 4 f)), advance 4 f)"
  by (simp add: Uint32_def ByteSlice_spec)

lemma Uint64_spec:
  "filler_ok f \<Longrightarrow> Uint64 f = Some (of_nat (be_val (upcoming 8 f)), advance 8 f)"
  by (simp add: Uint64_def ByteSlice_spec)

lemma uint_Uint16: "uint (of_nat (be_val (upcoming 2 f)) :: u16) = int (be_val (upcoming 2 f))"
  using of_nat_inverse [OF refl, of "be_val (upcoming 2 f)", where ?'a = 16] be_val_upcoming [of 2 f]
  by (simp add: uint_nat del: of_nat_unat)

lemma uint_Uint32: "uint (of_nat (be_val (upcoming 4 f)) :: u32) = int (be_val (upcoming 4 f))"
  using of_nat_inverse [OF refl, of "be_val (upcoming 4 f)", where ?'a = 32] be_val_upcoming [of 4 f]
  by (simp add: uint_nat del: of_nat_unat)

lemma BigInt16_spec:
  "filler_ok f \<Longrightarrow> BigInt16 f = Some (int (be_val (upcoming 2 f)), advance 2 f)"
  by (simp add: BigInt16_def Uint16_spec uint_Uint16)

lemma BigInt32_spec:
  "filler_ok f \<Longrightarrow> BigInt32 f = Some (int (be_val (upcoming 4 f)), advance 4 f)"
  by (simp add: BigInt32_def Uint32_spec uint_Uint32)

lemma BigInt64_spec:
  "filler_ok f \<Longrightarrow> BigInt64 f = Some (int (be_val (upcoming 8 f)), advance 8 f)"
  by (simp add: BigInt64_def ByteSlice_spec)

lemma BigInt256_spec:
  "filler_ok f \<Longrightarrow> BigInt256 f = Some (int (be_val (upcoming 32 f)), advance 32 f)"
  by (simp add: BigInt256_def ByteSlice_spec)

lemmas int_specs = BigInt16_spec BigInt32_spec BigInt64_spec BigInt256_spec

lemma upcoming_1: "upcoming (Suc 0) f = [tape f 0]"
  by (simp add: upcoming_def)

text \<open>The number of bytes a gas value takes after its selector byte.\<close>

definition gas_width :: "byte \<Rightarrow> nat" where
  "gas_width b = (if b = 254 then 8 else if b = 255 then 32 else 4)"

lemma GasInt_spec:
  "filler_ok f \<Longrightarrow> GasInt f =
    Some (let v = int (be_val (upcoming (gas_width (tape f 0)) (advance 1 f)))
          in if tape f 0 < 253 then v mod 20000000 else v,
          advance (1 + gas_width (tape f 0)) f)"
proof -
  assume "filler_ok f"
  moreover have "tape f 0 < 253 \<or> tape f 0 = 253 \<or> tape f 0 = 254 \<or> tape f 0 = 255"
    using unat_byte [of "tape f 0"]
    by (simp add: word_less_nat_alt word_unat_eq_iff del: unat_byte) linarith
  ultimately show ?thesis
    by (elim disjE)
      (auto simp: GasInt_def Byte_spec int_specs gas_width_def advance_advance Let_def)
qed

definition mem_width :: "byte \<Rightarrow> nat" where
  "mem_width b = (if b = 253 then 4 else if b = 254 then 8 else if b = 255 then 32 else 1)"

lemma MemInt_spec:
  "filler_ok f \<Longrightarrow> MemInt f =
    Some (int (be_val (upcoming (mem_width (tape f 0)) (advance 1 f))),
          advance (1 + mem_width (tape f 0)) f)"
  by (auto simp: MemInt_def Byte_spec int_specs mem_width_def advance_advance upcoming_1
      be_val_Cons tape_advance)

subsection \<open>Preservation\<close>

text \<open>
  \<open>fills f m Q\<close>: from a filler \<open>f\<close> that satisfies the invariant the run \<open>m\<close> returns, it has
  only advanced the cursor, and its value satisfies \<open>Q\<close>.  The rules follow the structure of a
  run, so that \<open>auto intro!: fill_intro\<close> proves such a judgement for a whole operation.
\<close>

definition fills :: "filler \<Rightarrow> ('a \<times> filler) option \<Rightarrow> ('a \<Rightarrow> bool) \<Rightarrow> bool" where
  "fills f m Q \<longleftrightarrow> (filler_ok f \<longrightarrow> returns m (\<lambda>(a, f'). (\<exists>n. f' = advance n f) \<and> Q a))"

lemma advance_0: "filler_ok f \<Longrightarrow> advance 0 f = f"
  by (auto simp: advance_def filler_ok_def)

lemma fills_return: "Q a \<Longrightarrow> fills f (Some (a, f)) Q"
  by (auto simp: fills_def intro!: exI [of _ "0 :: nat"] simp: advance_0)

lemma fills_bind:
  assumes "fills f m R" and "\<And>a f'. R a \<Longrightarrow> fills f' (k a f') Q"
  shows "fills f (m \<bind> (\<lambda>(a, f'). k a f')) Q"
proof -
  have "returns (k a (advance n f)) (\<lambda>(a, f'). (\<exists>n. f' = advance n f) \<and> Q a)"
    if "filler_ok f" "R a" for a n
  proof -
    have "returns (k a (advance n f)) (\<lambda>(a, f'). (\<exists>m. f' = advance m (advance n f)) \<and> Q a)"
      using assms(2) [OF that(2), of "advance n f"] that(1) by (simp add: fills_def)
    then show ?thesis
      by (rule returns_mono) (use that(1) in \<open>auto simp: advance_advance\<close>)
  qed
  with assms(1) show ?thesis
    by (auto simp: fills_def returns_iff split: prod.splits)
qed

lemma fills_weaken: "fills f m R \<Longrightarrow> (\<And>a. R a \<Longrightarrow> Q a) \<Longrightarrow> fills f m Q"
  by (auto simp: fills_def returns_iff)

lemma fills_if [fill_intro]:
  "(c \<Longrightarrow> fills f m Q) \<Longrightarrow> (\<not> c \<Longrightarrow> fills f m' Q) \<Longrightarrow> fills f (if c then m else m') Q"
  by simp

lemma fills_let [fill_intro]: "fills f (m v) Q \<Longrightarrow> fills f (let x = v in m x) Q"
  by simp

lemma fills_spec:
  "(filler_ok f \<Longrightarrow> m = Some (a, advance n f)) \<Longrightarrow> (filler_ok f \<Longrightarrow> Q a) \<Longrightarrow> fills f m Q"
  by (auto simp: fills_def)

lemma fills_Byte: "fills f (Byte f) (\<lambda>_. True)"
  by (rule fills_spec [OF Byte_spec]) simp_all

lemma fills_Bool: "fills f (Bool f) (\<lambda>_. True)"
  by (rule fills_spec [of _ _ "tape f 0 > 127" 1]) (simp_all add: Bool_def Byte_spec)

lemma fills_ByteSlice: "fills f (ByteSlice n f) (\<lambda>b. length b = n)"
  by (rule fills_spec [OF ByteSlice_spec]) simp_all

lemma fills_ByteSlice256: "fills f (ByteSlice256 f) (\<lambda>b. length b < 256)"
  by (rule fills_spec [OF ByteSlice256_spec]) simp_all

lemma fills_Uint16: "fills f (Uint16 f) (\<lambda>_. True)"
  by (rule fills_spec [OF Uint16_spec]) simp_all

lemma fills_Uint32: "fills f (Uint32 f) (\<lambda>_. True)"
  by (rule fills_spec [OF Uint32_spec]) simp_all

lemma fills_Uint64: "fills f (Uint64 f) (\<lambda>_. True)"
  by (rule fills_spec [OF Uint64_spec]) simp_all

lemma be_val_upcoming_int: "int (be_val (upcoming n f)) < 256 ^ n"
  using be_val_upcoming [of n f] by (metis of_nat_less_iff of_nat_numeral of_nat_power)

lemma fills_BigInt16: "fills f (BigInt16 f) (ubits 16)"
  by (rule fills_spec [OF BigInt16_spec]) (use be_val_upcoming_int [of 2 f] in \<open>simp_all add: ubits_def\<close>)

lemma fills_BigInt32: "fills f (BigInt32 f) (ubits 32)"
  by (rule fills_spec [OF BigInt32_spec]) (use be_val_upcoming_int [of 4 f] in \<open>simp_all add: ubits_def\<close>)

lemma fills_BigInt256: "fills f (BigInt256 f) (ubits 256)"
  by (rule fills_spec [OF BigInt256_spec]) (use be_val_upcoming_int [of 32 f] in \<open>simp_all add: ubits_def\<close>)

lemma width_bound: "w \<le> 32 \<Longrightarrow> int (be_val (upcoming w f)) < 2 ^ 256"
proof -
  assume "w \<le> 32"
  then have "(256 :: int) ^ w \<le> 256 ^ 32" by (rule power_increasing) simp
  with be_val_upcoming_int [of w f] have "int (be_val (upcoming w f)) < 256 ^ 32"
    by (rule less_le_trans)
  then show ?thesis by simp
qed

lemma fills_GasInt: "fills f (GasInt f) (ubits 256)"
proof (rule fills_spec [OF GasInt_spec])
  have w: "gas_width (tape f 0) \<le> 32" by (simp add: gas_width_def)
  have "v mod 20000000 < (2 :: int) ^ 256" for v
    using pos_mod_bound [of 20000000 v] by simp
  with width_bound [OF w, of "advance 1 f"]
  show "ubits 256 (let v = int (be_val (upcoming (gas_width (tape f 0)) (advance 1 f)))
          in if tape f 0 < 253 then v mod 20000000 else v)"
    by (simp add: Let_def ubits_def)
qed simp

lemma fills_MemInt: "fills f (MemInt f) (ubits 256)"
proof (rule fills_spec [OF MemInt_spec])
  have "mem_width (tape f 0) \<le> 32" by (simp add: mem_width_def)
  from width_bound [OF this, of "advance 1 f"]
  show "ubits 256 (int (be_val (upcoming (mem_width (tape f 0)) (advance 1 f))))"
    by (simp add: ubits_def)
qed simp

lemmas fills_reads =
  fills_Byte fills_Bool fills_ByteSlice fills_ByteSlice256 fills_Uint16 fills_Uint32 fills_Uint64
  fills_BigInt16 fills_BigInt32 fills_BigInt256 fills_GasInt fills_MemInt

lemmas fills_bind_reads [fill_intro] = fills_reads [THEN fills_bind]

subsection \<open>Properties\<close>

text \<open>Reading a list of lengths one after the other.\<close>

fun read_all :: "nat list \<Rightarrow> filler \<Rightarrow> (byte list list \<times> filler) option" where
  "read_all [] f = Some ([], f)"
| "read_all (n # ns) f = do {
     (b, f) \<leftarrow> ByteSlice n f;
     (bs, f) \<leftarrow> read_all ns f;
     Some (b # bs, f)
   }"

lemma read_all_spec:
  "filler_ok f \<Longrightarrow> \<exists>bs. read_all ns f = Some (bs, advance (sum_list ns) f) \<and>
    concat bs = upcoming (sum_list ns) f \<and> map length bs = ns"
proof (induction ns arbitrary: f)
  case (Cons n ns)
  from Cons.IH [OF filler_ok_advance [OF Cons.prems, of n]] obtain bs where
    "read_all ns (advance n f) = Some (bs, advance (sum_list ns) (advance n f))"
    "concat bs = upcoming (sum_list ns) (advance n f)" "map length bs = ns" by blast
  then show ?case
    by (simp add: ByteSlice_spec [OF Cons.prems] advance_advance [OF Cons.prems]
        upcoming_add [OF Cons.prems])
qed (simp add: advance_0 upcoming_def)

text \<open>C4. \<open>ByteSlice\<close> reads the data cyclically from the cursor, byte for byte, whatever the length,
  moves the cursor by that length, and sets the used-up flag exactly when the end is reached.\<close>

theorem ByteSlice_cyclic:
  assumes "filler_ok f"
  shows "ByteSlice n f =
    Some (map (\<lambda>i. data f ! ((pointer f + i) mod length (data f))) [0..<n],
      f\<lparr>pointer := (pointer f + n) mod length (data f),
        usedUp := usedUp f \<or> length (data f) \<le> pointer f + n\<rparr>)"
  using ByteSlice_spec [OF assms] by (simp add: upcoming_def tape_def advance_def)

theorem ByteSlice_cyclic_witness:
  "ByteSlice 5 (NewFiller [1, 2, 3]) =
    Some ([1, 2, 3, 1, 2], \<lparr>data = [1, 2, 3], pointer = 2, usedUp = True\<rparr>)"
  using ByteSlice_cyclic [of "NewFiller [1, 2, 3]" 5]
  by (simp add: NewFiller_def filler_ok_def upt_rec)

text \<open>Splitting what is read into any sequence of slices loses, repeats and reorders nothing: from
  a new filler the slices have the lengths asked for, together they are the data read cyclically,
  and \<open>UsedUp\<close> answers whether as many bytes were read as there are.\<close>

theorem slices_and_UsedUp:
  "\<exists>bs f. read_all ns (NewFiller d) = Some (bs, f) \<and> map length bs = ns \<and>
    concat bs = map (\<lambda>i. (if d = [] then 0 else d ! (i mod length d))) [0..<sum_list ns] \<and>
    UsedUp f = (max 1 (length d) \<le> sum_list ns)"
proof -
  obtain bs where bs: "read_all ns (NewFiller d) = Some (bs, advance (sum_list ns) (NewFiller d))"
    "concat bs = upcoming (sum_list ns) (NewFiller d)" "map length bs = ns"
    using read_all_spec [OF filler_ok_NewFiller] by blast
  moreover have "upcoming n (NewFiller d) =
      map (\<lambda>i. (if d = [] then 0 else d ! (i mod length d))) [0..<n]" for n
    by (simp add: upcoming_def tape_def NewFiller_def)
  moreover have "UsedUp (advance n (NewFiller d)) = (max 1 (length d) \<le> n)" for n
    by (cases d) (simp_all add: UsedUp_def advance_def NewFiller_def)
  ultimately show ?thesis by simp
qed

text \<open>\<open>GasInt\<close> by its selector byte: below 253 a value below 20 million, then any 32-bit, 64-bit
  or 256-bit value; the value is never negative, so it always fits a \<open>uint256\<close>.\<close>

theorem GasInt_range:
  assumes "filler_ok f"
  shows "\<exists>v n. GasInt f = Some (v, advance n f) \<and> 0 \<le> v \<and>
    v < (if tape f 0 < 253 then 20000000 else 2 ^ (8 * gas_width (tape f 0)))"
proof -
  define b where "b = tape f 0"
  define v where "v = int (be_val (upcoming (gas_width b) (advance 1 f)))"
  have "v < 2 ^ (8 * gas_width b)"
    using be_val_upcoming_int [of "gas_width b" "advance 1 f"]
    by (simp add: v_def power_mult)
  then have "0 \<le> (if b < 253 then v mod 20000000 else v)"
    "(if b < 253 then v mod 20000000 else v) <
      (if b < 253 then 20000000 else 2 ^ (8 * gas_width b))"
    by (simp_all add: v_def)
  with GasInt_spec [OF assms] show ?thesis
    unfolding b_def v_def Let_def by blast
qed

theorem GasInt_range_witness:
  "\<exists>v n. GasInt (NewFiller [7, 255, 255, 255, 255]) =
     Some (v, advance n (NewFiller [7, 255, 255, 255, 255])) \<and> 0 \<le> v \<and> v < 20000000"
  using GasInt_range [OF filler_ok_NewFiller, of "[7, 255, 255, 255, 255]"]
  by (simp add: tape_def NewFiller_def)

end
