(* ===== verification/Program_API.thy ===== *)
theory Program_API
  imports Prelude
begin

text \<open>
  The interface of go-ethereum's bytecode builder (package \<open>core/vm/program\<close>), which the
  generator calls and which is not part of the repository.  The builder is a parameter of the
  model: a record of its methods over an arbitrary type \<open>'p\<close> of programs under construction.
  \<open>program_laws\<close> states the documented behaviour the generator relies on.  The methods take
  Go interface values (\<open>any\<close>); \<open>goval\<close> keeps their dynamic type.  \<open>sample_program\<close> is a small
  concrete builder: it shows that the laws can hold and evaluates the witnesses.

  The opcodes are the numbers the EVM specification assigns to the mnemonics.
\<close>

type_synonym opcode = byte

abbreviation vm_ADD :: opcode where "vm_ADD \<equiv> 0x01"
abbreviation vm_MUL :: opcode where "vm_MUL \<equiv> 0x02"
abbreviation vm_SUB :: opcode where "vm_SUB \<equiv> 0x03"
abbreviation vm_DIV :: opcode where "vm_DIV \<equiv> 0x04"
abbreviation vm_SDIV :: opcode where "vm_SDIV \<equiv> 0x05"
abbreviation vm_MOD :: opcode where "vm_MOD \<equiv> 0x06"
abbreviation vm_SMOD :: opcode where "vm_SMOD \<equiv> 0x07"
abbreviation vm_ADDMOD :: opcode where "vm_ADDMOD \<equiv> 0x08"
abbreviation vm_MULMOD :: opcode where "vm_MULMOD \<equiv> 0x09"
abbreviation vm_EXP :: opcode where "vm_EXP \<equiv> 0x0a"
abbreviation vm_SIGNEXTEND :: opcode where "vm_SIGNEXTEND \<equiv> 0x0b"
abbreviation vm_LT :: opcode where "vm_LT \<equiv> 0x10"
abbreviation vm_GT :: opcode where "vm_GT \<equiv> 0x11"
abbreviation vm_SLT :: opcode where "vm_SLT \<equiv> 0x12"
abbreviation vm_SGT :: opcode where "vm_SGT \<equiv> 0x13"
abbreviation vm_EQ :: opcode where "vm_EQ \<equiv> 0x14"
abbreviation vm_ISZERO :: opcode where "vm_ISZERO \<equiv> 0x15"
abbreviation vm_AND :: opcode where "vm_AND \<equiv> 0x16"
abbreviation vm_OR :: opcode where "vm_OR \<equiv> 0x17"
abbreviation vm_XOR :: opcode where "vm_XOR \<equiv> 0x18"
abbreviation vm_NOT :: opcode where "vm_NOT \<equiv> 0x19"
abbreviation vm_BYTE :: opcode where "vm_BYTE \<equiv> 0x1a"
abbreviation vm_SHL :: opcode where "vm_SHL \<equiv> 0x1b"
abbreviation vm_SHR :: opcode where "vm_SHR \<equiv> 0x1c"
abbreviation vm_SAR :: opcode where "vm_SAR \<equiv> 0x1d"
abbreviation vm_KECCAK256 :: opcode where "vm_KECCAK256 \<equiv> 0x20"
abbreviation vm_ADDRESS :: opcode where "vm_ADDRESS \<equiv> 0x30"
abbreviation vm_BALANCE :: opcode where "vm_BALANCE \<equiv> 0x31"
abbreviation vm_ORIGIN :: opcode where "vm_ORIGIN \<equiv> 0x32"
abbreviation vm_EXTCODESIZE :: opcode where "vm_EXTCODESIZE \<equiv> 0x3b"
abbreviation vm_RETURNDATASIZE :: opcode where "vm_RETURNDATASIZE \<equiv> 0x3d"
abbreviation vm_RETURNDATACOPY :: opcode where "vm_RETURNDATACOPY \<equiv> 0x3e"
abbreviation vm_EXTCODEHASH :: opcode where "vm_EXTCODEHASH \<equiv> 0x3f"
abbreviation vm_BLOBHASH :: opcode where "vm_BLOBHASH \<equiv> 0x49"
abbreviation vm_BLOCKHASH :: opcode where "vm_BLOCKHASH \<equiv> 0x40"
abbreviation vm_POP :: opcode where "vm_POP \<equiv> 0x50"
abbreviation vm_MLOAD :: opcode where "vm_MLOAD \<equiv> 0x51"
abbreviation vm_MSTORE :: opcode where "vm_MSTORE \<equiv> 0x52"
abbreviation vm_SLOAD :: opcode where "vm_SLOAD \<equiv> 0x54"
abbreviation vm_SSTORE :: opcode where "vm_SSTORE \<equiv> 0x55"
abbreviation vm_JUMP :: opcode where "vm_JUMP \<equiv> 0x56"
abbreviation vm_JUMPI :: opcode where "vm_JUMPI \<equiv> 0x57"
abbreviation vm_MSIZE :: opcode where "vm_MSIZE \<equiv> 0x59"
abbreviation vm_GAS :: opcode where "vm_GAS \<equiv> 0x5a"
abbreviation vm_JUMPDEST :: opcode where "vm_JUMPDEST \<equiv> 0x5b"
abbreviation vm_TLOAD :: opcode where "vm_TLOAD \<equiv> 0x5c"
abbreviation vm_MCOPY :: opcode where "vm_MCOPY \<equiv> 0x5e"
abbreviation vm_PUSH0 :: opcode where "vm_PUSH0 \<equiv> 0x5f"
abbreviation vm_PUSH1 :: opcode where "vm_PUSH1 \<equiv> 0x60"
abbreviation vm_PUSH2 :: opcode where "vm_PUSH2 \<equiv> 0x61"
abbreviation vm_PUSH32 :: opcode where "vm_PUSH32 \<equiv> 0x7f"
abbreviation vm_DUP1 :: opcode where "vm_DUP1 \<equiv> 0x80"
abbreviation vm_DUP5 :: opcode where "vm_DUP5 \<equiv> 0x84"
abbreviation vm_DUP6 :: opcode where "vm_DUP6 \<equiv> 0x85"
abbreviation vm_SWAP1 :: opcode where "vm_SWAP1 \<equiv> 0x90"
abbreviation vm_LOG0 :: opcode where "vm_LOG0 \<equiv> 0xa0"
abbreviation vm_CREATE :: opcode where "vm_CREATE \<equiv> 0xf0"
abbreviation vm_CALL :: opcode where "vm_CALL \<equiv> 0xf1"
abbreviation vm_CALLCODE :: opcode where "vm_CALLCODE \<equiv> 0xf2"
abbreviation vm_DELEGATECALL :: opcode where "vm_DELEGATECALL \<equiv> 0xf4"
abbreviation vm_CREATE2 :: opcode where "vm_CREATE2 \<equiv> 0xf5"
abbreviation vm_STATICCALL :: opcode where "vm_STATICCALL \<equiv> 0xfa"
abbreviation vm_REVERT :: opcode where "vm_REVERT \<equiv> 0xfd"
abbreviation vm_SELFDESTRUCT :: opcode where "vm_SELFDESTRUCT \<equiv> 0xff"

type_synonym address = "byte list"

datatype goval =
    GoInt int
  | GoUint8 byte
  | GoUint32 u32
  | GoUint64 u64
  | GoBig int
  | GoBytes "byte list"
  | GoAddress address
  | GoU256 u256
  | GoNil

record 'p program_api =
  New :: 'p
  Bytes :: "'p \<Rightarrow> byte list"
  Op :: "opcode list \<Rightarrow> 'p \<Rightarrow> 'p"
  Push :: "goval \<Rightarrow> 'p \<Rightarrow> 'p"
  Push0 :: "'p \<Rightarrow> 'p"
  Append :: "byte list \<Rightarrow> 'p \<Rightarrow> 'p"
  Mstore :: "byte list \<Rightarrow> u32 \<Rightarrow> 'p \<Rightarrow> 'p"
  MstoreSmall :: "byte list \<Rightarrow> u32 \<Rightarrow> 'p \<Rightarrow> 'p"
  Sstore :: "goval \<Rightarrow> goval \<Rightarrow> 'p \<Rightarrow> 'p"
  Tstore :: "goval \<Rightarrow> goval \<Rightarrow> 'p \<Rightarrow> 'p"
  Return :: "int \<Rightarrow> int \<Rightarrow> 'p \<Rightarrow> 'p"
  ReturnData :: "byte list \<Rightarrow> 'p \<Rightarrow> 'p"
  ReturnViaCodeCopy :: "byte list \<Rightarrow> 'p \<Rightarrow> 'p"
  MemToStorage :: "int \<Rightarrow> int \<Rightarrow> int \<Rightarrow> 'p \<Rightarrow> 'p"
  Call :: "goval \<Rightarrow> goval \<Rightarrow> goval \<Rightarrow> goval \<Rightarrow> goval \<Rightarrow> goval \<Rightarrow> goval \<Rightarrow> 'p \<Rightarrow> 'p"
  CallCode :: "goval \<Rightarrow> goval \<Rightarrow> goval \<Rightarrow> goval \<Rightarrow> goval \<Rightarrow> goval \<Rightarrow> goval \<Rightarrow> 'p \<Rightarrow> 'p"
  StaticCall :: "goval \<Rightarrow> goval \<Rightarrow> goval \<Rightarrow> goval \<Rightarrow> goval \<Rightarrow> goval \<Rightarrow> 'p \<Rightarrow> 'p"
  Selfdestruct :: "goval \<Rightarrow> 'p \<Rightarrow> 'p"
  Jump :: "goval \<Rightarrow> 'p \<Rightarrow> 'p"
  JumpIf :: "goval \<Rightarrow> goval \<Rightarrow> 'p \<Rightarrow> 'p"
  Jumpdest :: "'p \<Rightarrow> 'p \<times> u64"
  Label :: "'p \<Rightarrow> u64"

text \<open>The number a value denotes when it is pushed.\<close>

fun goval_nat :: "goval \<Rightarrow> nat" where
  "goval_nat (GoInt i) = nat i"
| "goval_nat (GoUint8 w) = unat w"
| "goval_nat (GoUint32 w) = unat w"
| "goval_nat (GoUint64 w) = unat w"
| "goval_nat (GoBig i) = nat i"
| "goval_nat (GoBytes bs) = be_val bs"
| "goval_nat (GoAddress a) = be_val a"
| "goval_nat (GoU256 w) = unat w"
| "goval_nat GoNil = 0"

text \<open>A method only appends to the code.\<close>

definition grows :: "'p program_api \<Rightarrow> ('p \<Rightarrow> 'p) \<Rightarrow> bool" where
  "grows P g \<longleftrightarrow> (\<forall>p. prefix (Bytes P p) (Bytes P (g p)))"

text \<open>
  Documented behaviour of the builder: a new program is empty; \<open>Op\<close> appends its opcodes;
  \<open>Push\<close> creates a PUSHn instruction for the value; \<open>Push0\<close> is PUSH0; \<open>Append\<close> appends its
  data; \<open>Jumpdest\<close> adds a JUMPDEST and returns the pc of that instruction; \<open>Label\<close> returns
  the pc of the next instruction; \<open>Jump\<close> pushes the destination and adds a JUMP; every other
  method appends instructions.
\<close>

definition program_laws :: "'p program_api \<Rightarrow> bool" where
  "program_laws P \<longleftrightarrow>
     Bytes P (New P) = [] \<and>
     (\<forall>ops p. Bytes P (Op P ops p) = Bytes P p @ ops) \<and>
     (\<forall>v p. \<exists>bs. 0 < length bs \<and> length bs \<le> 32 \<and>
        (goval_nat v < 2 ^ 256 \<longrightarrow> be_val bs = goval_nat v) \<and>
        Bytes P (Push P v p) = Bytes P p @ (vm_PUSH0 + of_nat (length bs)) # bs) \<and>
     (\<forall>p. Bytes P (Push0 P p) = Bytes P p @ [vm_PUSH0]) \<and>
     (\<forall>bs p. Bytes P (Append P bs p) = Bytes P p @ bs) \<and>
     (\<forall>p. Bytes P (fst (Jumpdest P p)) = Bytes P p @ [vm_JUMPDEST] \<and>
        snd (Jumpdest P p) = of_nat (length (Bytes P p))) \<and>
     (\<forall>p. Label P p = of_nat (length (Bytes P p))) \<and>
     (\<forall>d p. Bytes P (Jump P d p) = Bytes P (Op P [vm_JUMP] (Push P d p))) \<and>
     (\<forall>d m. grows P (Mstore P d m) \<and> grows P (MstoreSmall P d m)) \<and>
     (\<forall>s v. grows P (Sstore P s v) \<and> grows P (Tstore P s v)) \<and>
     (\<forall>a b. grows P (Return P a b)) \<and>
     (\<forall>d. grows P (ReturnData P d) \<and> grows P (ReturnViaCodeCopy P d)) \<and>
     (\<forall>a b c. grows P (MemToStorage P a b c)) \<and>
     (\<forall>g a v i j k l. grows P (Call P g a v i j k l) \<and> grows P (CallCode P g a v i j k l)) \<and>
     (\<forall>g a i j k l. grows P (StaticCall P g a i j k l)) \<and>
     (\<forall>v. grows P (Selfdestruct P v)) \<and>
     (\<forall>d c. grows P (JumpIf P d c))"

subsection \<open>Consequences of the laws\<close>

lemma program_lawsD:
  assumes "program_laws P"
  shows Bytes_New: "Bytes P (New P) = []"
    and Bytes_Op: "Bytes P (Op P ops p) = Bytes P p @ ops"
    and Bytes_Push0: "Bytes P (Push0 P p) = Bytes P p @ [vm_PUSH0]"
    and Bytes_Append: "Bytes P (Append P bs p) = Bytes P p @ bs"
    and Bytes_Jumpdest: "Bytes P (fst (Jumpdest P p)) = Bytes P p @ [vm_JUMPDEST]"
    and pc_Jumpdest: "snd (Jumpdest P p) = of_nat (length (Bytes P p))"
    and Label_pc: "Label P p = of_nat (length (Bytes P p))"
    and Bytes_Jump: "Bytes P (Jump P d p) = Bytes P (Push P d p) @ [vm_JUMP]"
  using assms by (simp_all add: program_laws_def)

lemma Bytes_Push:
  assumes "program_laws P"
  obtains bs where "0 < length bs" and "length bs \<le> 32"
    and "goval_nat v < 2 ^ 256 \<Longrightarrow> be_val bs = goval_nat v"
    and "Bytes P (Push P v p) = Bytes P p @ (vm_PUSH0 + of_nat (length bs)) # bs"
  using assms unfolding program_laws_def by meson

lemma grows_Push: "program_laws P \<Longrightarrow> grows P (Push P v)"
  unfolding grows_def by (metis Bytes_Push prefixI)

lemma grows_Jump: "program_laws P \<Longrightarrow> grows P (Jump P d)"
  using grows_Push [of P d] by (simp add: grows_def Bytes_Jump)

lemma grows_methods:
  assumes "program_laws P"
  shows "grows P (Op P ops)" "grows P (Push P v)" "grows P (Push0 P)" "grows P (Append P bs)"
    "grows P (Mstore P bs m)" "grows P (MstoreSmall P bs m)" "grows P (Sstore P v w)"
    "grows P (Tstore P v w)" "grows P (Return P a b)" "grows P (ReturnData P bs)"
    "grows P (ReturnViaCodeCopy P bs)" "grows P (MemToStorage P a b c)"
    "grows P (Call P v1 v2 v3 v4 v5 v6 v7)" "grows P (CallCode P v1 v2 v3 v4 v5 v6 v7)"
    "grows P (StaticCall P v1 v2 v3 v4 v5 v6)" "grows P (Selfdestruct P v)"
    "grows P (Jump P v)" "grows P (JumpIf P v w)" "grows P (\<lambda>p. fst (Jumpdest P p))"
  using assms grows_Push [OF assms] grows_Jump [OF assms]
  by (simp_all add: program_laws_def) (simp_all add: grows_def)

lemmas grows_api [grow_intro] = grows_methods

lemma grows_id: "grows P (\<lambda>p. p)"
  by (simp add: grows_def)

lemma grows_comp: "grows P g \<Longrightarrow> grows P h \<Longrightarrow> grows P (\<lambda>p. g (h p))"
  unfolding grows_def by (meson prefix_order.order_trans)

text \<open>A chain of method calls, first call first.\<close>

definition chain :: "('p \<Rightarrow> 'p) list \<Rightarrow> 'p \<Rightarrow> 'p" where
  "chain gs p = foldl (\<lambda>p g. g p) p gs"

lemma chain_simps [simp]:
  "chain [] p = p"
  "chain (g # gs) p = chain gs (g p)"
  by (simp_all add: chain_def)

lemma chain_append: "chain (gs @ hs) p = chain hs (chain gs p)"
  by (simp add: chain_def)

lemma grows_chain [grow_intro]: "(\<And>g. g \<in> set gs \<Longrightarrow> grows P g) \<Longrightarrow> grows P (chain gs)"
  unfolding grows_def
proof (induction gs)
  case (Cons g gs)
  then have "prefix (Bytes P p) (Bytes P (g p))" "prefix (Bytes P (g p)) (Bytes P (chain gs (g p)))"
    for p by simp_all
  then show ?case by (metis chain_simps(2) prefix_order.order_trans)
qed simp

subsection \<open>A concrete builder\<close>

definition push_sample :: "goval \<Rightarrow> byte list" where
  "push_sample v =
     (let bs = big_bytes (goval_nat v mod 2 ^ 256); bs = (if bs = [] then [0] else bs)
      in (vm_PUSH0 + of_nat (length bs)) # bs)"

fun mstore_sample :: "nat \<Rightarrow> byte list \<Rightarrow> nat \<Rightarrow> byte list" where
  "mstore_sample 0 d off = []"
| "mstore_sample (Suc n) d off =
     (if d = [] then []
      else push_sample (GoBytes (take 32 (d @ replicate 31 0))) @ push_sample (GoInt (int off)) @
        [0x52] @ mstore_sample n (drop 32 d) (off + 32))"

definition sample_program :: "byte list program_api" where
  "sample_program =
    \<lparr>New = [], Bytes = (\<lambda>p. p), Op = (\<lambda>ops p. p @ ops), Push = (\<lambda>v p. p @ push_sample v),
     Push0 = (\<lambda>p. p @ [vm_PUSH0]), Append = (\<lambda>bs p. p @ bs),
     Mstore = (\<lambda>d m p. p @ mstore_sample (length d) d (unat m)),
     MstoreSmall = (\<lambda>d m p. p @ push_sample (GoBytes d) @ push_sample (GoUint32 m) @ [0x52]),
     Sstore = (\<lambda>s v p. p @ push_sample v @ push_sample s @ [vm_SSTORE]),
     Tstore = (\<lambda>s v p. p @ push_sample v @ push_sample s @ [0x5d]),
     Return = (\<lambda>a b p. p @ push_sample (GoInt b) @ push_sample (GoInt a) @ [0xf3]),
     ReturnData = (\<lambda>d p. p @ mstore_sample (length d) d 0 @
        push_sample (GoInt (int (length d))) @ push_sample (GoInt 0) @ [0xf3]),
     ReturnViaCodeCopy = (\<lambda>d p. p @ mstore_sample (length d) d 0 @
        push_sample (GoInt (int (length d))) @ push_sample (GoInt 0) @ [0xf3]),
     MemToStorage = (\<lambda>a b c p. p @ push_sample (GoInt a) @ [vm_MLOAD] @
        push_sample (GoInt c) @ [vm_SSTORE]),
     Call = (\<lambda>g a v i j k l p. p @ concat (map push_sample [l, k, j, i, v, a, g]) @ [vm_CALL]),
     CallCode = (\<lambda>g a v i j k l p. p @ concat (map push_sample [l, k, j, i, v, a, g]) @ [vm_CALLCODE]),
     StaticCall = (\<lambda>g a i j k l p. p @ concat (map push_sample [l, k, j, i, a, g]) @ [vm_STATICCALL]),
     Selfdestruct = (\<lambda>v p. p @ push_sample v @ [vm_SELFDESTRUCT]),
     Jump = (\<lambda>d p. p @ push_sample d @ [vm_JUMP]),
     JumpIf = (\<lambda>d c p. p @ push_sample c @ push_sample d @ [vm_JUMPI]),
     Jumpdest = (\<lambda>p. (p @ [vm_JUMPDEST], of_nat (length p))),
     Label = (\<lambda>p. of_nat (length p))\<rparr>"

lemma push_sample_form:
  "\<exists>bs. 0 < length bs \<and> length bs \<le> 32 \<and>
     (goval_nat v < 2 ^ 256 \<longrightarrow> be_val bs = goval_nat v) \<and>
     push_sample v = (vm_PUSH0 + of_nat (length bs)) # bs"
proof -
  define n where "n = goval_nat v mod 2 ^ 256"
  define bs where "bs = (if big_bytes n = [] then [0] else big_bytes n)"
  have "n < 2 ^ 256" by (simp add: n_def)
  then have "length (big_bytes n) \<le> 32"
    by (intro length_big_bytes_le) simp
  then have "0 < length bs" "length bs \<le> 32" by (auto simp: bs_def)
  moreover have "be_val bs = n"
    using be_val_big_bytes [of n] by (auto simp: bs_def be_val_def)
  moreover have "push_sample v = (vm_PUSH0 + of_nat (length bs)) # bs"
    by (simp add: push_sample_def n_def bs_def Let_def)
  ultimately show ?thesis by (intro exI [of _ bs]) (simp add: n_def)
qed

lemma sample_program_laws: "program_laws sample_program"
  using push_sample_form by (simp add: program_laws_def sample_program_def grows_def)

end
