(* ===== verification/EVM.thy ===== *)
theory EVM
  imports Program_API
begin

text \<open>
  A reference semantics of the straight-line and loop code that the stack and jump strategies
  emit, written from the EVM specification and not from the generator: the stack effect of each
  opcode, the linear instruction layout with its jump-destination analysis, and a one-step
  interpreter for the opcodes of the bounded loop.  The strategies are verified against it.
\<close>

subsection \<open>Instruction layout\<close>

text \<open>How many bytes of immediate data follow an opcode.\<close>

definition push_len :: "opcode \<Rightarrow> nat" where
  "push_len b = (if vm_PUSH1 \<le> b \<and> b \<le> vm_PUSH32 then unat (b - vm_PUSH0) else 0)"

text \<open>The code ends at an instruction boundary: no PUSH reaches past its end.\<close>

function aligned :: "byte list \<Rightarrow> bool" where
  "aligned [] = True"
| "aligned (b # bs) = (push_len b \<le> length bs \<and> aligned (drop (push_len b) bs))"
  by pat_completeness auto
termination by (relation "measure length") auto

text \<open>The jump destinations that the analysis accepts, for code that starts at position \<open>i\<close>.\<close>

function dests :: "nat \<Rightarrow> byte list \<Rightarrow> nat list" where
  "dests i [] = []"
| "dests i (b # bs) =
     (if b = vm_JUMPDEST then [i] else []) @ dests (i + 1 + push_len b) (drop (push_len b) bs)"
  by pat_completeness auto
termination by (relation "measure (\<lambda>(i, bs). length bs)") auto

definition valid_dest :: "byte list \<Rightarrow> nat \<Rightarrow> bool" where
  "valid_dest code d \<longleftrightarrow> d \<in> set (dests 0 code)"

lemma push_len_le: "push_len b \<le> 32"
  unfolding push_len_def by (auto; unat_arith)

lemma push_len_push: "0 < n \<Longrightarrow> n \<le> 32 \<Longrightarrow> push_len (vm_PUSH0 + of_nat n) = n"
proof -
  assume n: "0 < n" "n \<le> 32"
  then have "unat (vm_PUSH0 + of_nat n :: byte) = 95 + n"
    by (simp add: unat_word_ariths unat_of_nat)
  moreover from this have "vm_PUSH1 \<le> (vm_PUSH0 + of_nat n :: byte)"
      "(vm_PUSH0 + of_nat n :: byte) \<le> vm_PUSH32"
    using n by (simp_all add: word_le_nat_alt)
  ultimately show ?thesis using n by (simp add: push_len_def unat_of_nat)
qed

lemma aligned_append: "aligned xs \<Longrightarrow> aligned (xs @ ys) = aligned ys"
  by (induction xs rule: aligned.induct) auto

lemma dests_append:
  "aligned xs \<Longrightarrow> dests i (xs @ ys) = dests i xs @ dests (i + length xs) ys"
proof (induction xs arbitrary: i rule: aligned.induct)
  case (2 b bs)
  then show ?case by (simp add: add.assoc)
qed simp

lemma dests_range: "x \<in> set (dests i bs) \<Longrightarrow> i \<le> x \<and> x < i + length bs"
proof (induction i bs rule: dests.induct)
  case (2 i b bs)
  then have "x = i \<or> x \<in> set (dests (i + 1 + push_len b) (drop (push_len b) bs))"
    by (auto split: if_splits)
  then show ?case
  proof
    assume "x \<in> set (dests (i + 1 + push_len b) (drop (push_len b) bs))"
    from "2.IH" [OF this] show ?thesis by (cases "push_len b \<le> length bs") simp_all
  qed simp
qed simp

subsection \<open>Stack effects\<close>

text \<open>
  Items popped (or looked at) and pushed by the arithmetic, comparison, bitwise and stack opcodes
  that the generator uses with operands present, and by those of the benchmark code (ORIGIN, GAS,
  BLOCKHASH, EXTCODESIZE, memory, storage, SWAP and STATICCALL); \<open>None\<close> for every other opcode.
\<close>

definition effect :: "opcode \<Rightarrow> (nat \<times> nat) option" where
  "effect b =
     (if b \<in> {0x01, 0x02, 0x03, 0x04, 0x05, 0x06, 0x07, 0x0a, 0x0b} then Some (2, 1)
      else if b \<in> {0x08, 0x09} then Some (3, 1)
      else if b \<in> {0x10, 0x11, 0x12, 0x13, 0x14, 0x16, 0x17, 0x18, 0x1a, 0x1b, 0x1c, 0x1d}
        then Some (2, 1)
      else if b \<in> {0x15, 0x19} then Some (1, 1)
      else if b = 0x50 then Some (1, 0)
      else if b = 0x5f then Some (0, 1)
      else if 0x80 \<le> b \<and> b \<le> 0x8f then Some (unat b - 0x7f, unat b - 0x7e)
      else if b \<in> {0x32, 0x5a} then Some (0, 1)
      else if b \<in> {0x3b, 0x40, 0x51, 0x54} then Some (1, 1)
      else if b \<in> {0x52, 0x55} then Some (2, 0)
      else if 0x90 \<le> b \<and> b \<le> 0x9f then Some (unat b - 0x8e, unat b - 0x8e)
      else if b = 0xfa then Some (6, 1)
      else None)"

text \<open>The height after running straight-line code; \<open>None\<close> when an opcode underflows.\<close>

function run_height :: "byte list \<Rightarrow> nat \<Rightarrow> nat option" where
  "run_height [] h = Some h"
| "run_height (b # bs) h =
     (if 0 < push_len b then run_height (drop (push_len b) bs) (h + 1)
      else case effect b of
        None \<Rightarrow> None
      | Some (k, m) \<Rightarrow> if h < k then None else run_height bs (h - k + m))"
  by pat_completeness auto
termination by (relation "measure (\<lambda>(bs, h). length bs)") auto

lemma run_height_append:
  "aligned xs \<Longrightarrow> run_height (xs @ ys) h = run_height xs h \<bind> run_height ys"
proof (induction xs arbitrary: h rule: aligned.induct)
  case (2 b bs)
  then show ?case by (cases "effect b") (auto split: prod.splits)
qed simp

text \<open>An instruction that pushes some value, with its immediate.\<close>

definition is_push :: "byte list \<Rightarrow> bool" where
  "is_push c \<longleftrightarrow> (\<exists>bs. 0 < length bs \<and> length bs \<le> 32 \<and> c = (vm_PUSH0 + of_nat (length bs)) # bs)"

lemma run_height_push: "is_push c \<Longrightarrow> run_height (c @ rest) h = run_height rest (h + 1)"
  by (auto simp: is_push_def push_len_push)

lemma aligned_push: "is_push c \<Longrightarrow> aligned c"
  by (auto simp: is_push_def push_len_push)

lemma dests_push: "is_push c \<Longrightarrow> dests i c = []"
proof -
  assume "is_push c"
  then obtain bs where bs: "0 < length bs" "length bs \<le> 32"
    "c = (vm_PUSH0 + of_nat (length bs)) # bs" by (auto simp: is_push_def)
  then have len: "push_len (vm_PUSH0 + of_nat (length bs)) = length bs" by (simp add: push_len_push)
  have "vm_PUSH0 + of_nat (length bs) \<noteq> vm_JUMPDEST"
  proof
    assume "vm_PUSH0 + of_nat (length bs) = vm_JUMPDEST"
    from arg_cong [OF this, of push_len] have "length bs = push_len vm_JUMPDEST" unfolding len .
    with bs(1) show False by (simp add: push_len_def)
  qed
  with len show ?thesis unfolding bs(3) by (simp only: dests.simps if_False) simp
qed

lemma run_height_pushes:
  "list_all is_push cs \<Longrightarrow> run_height (concat cs @ rest) h = run_height rest (h + length cs)"
  by (induction cs arbitrary: h) (simp_all add: run_height_push)

lemma Push_is_push:
  assumes "program_laws P"
  shows "\<exists>c. is_push c \<and> Bytes P (Push P v p) = Bytes P p @ c"
  using assms by (rule Bytes_Push [of P v p]) (auto simp: is_push_def)

subsection \<open>One-step interpreter\<close>

text \<open>
  Program counter and stack, top first.  \<open>None\<close> stands for every exceptional halt, stopping at
  the end of the code included; the result \<open>g\<close> of GAS is arbitrary.
\<close>

definition evm_step :: "u256 \<Rightarrow> byte list \<Rightarrow> nat \<times> u256 list \<Rightarrow> (nat \<times> u256 list) option" where
  "evm_step g code st = (case st of (pc, s) \<Rightarrow> do {
     b \<leftarrow> index code pc;
     if 0 < push_len b then
       Some (pc + 1 + push_len b, of_nat (be_val (take (push_len b) (drop (pc + 1) code))) # s)
     else if b = vm_JUMPDEST then Some (pc + 1, s)
     else if b = vm_GAS then Some (pc + 1, g # s)
     else if b = vm_POP then (case s of x # r \<Rightarrow> Some (pc + 1, r) | _ \<Rightarrow> None)
     else if b = vm_DUP1 then (case s of x # r \<Rightarrow> Some (pc + 1, x # x # r) | _ \<Rightarrow> None)
     else if b = vm_SWAP1 then (case s of x # y # r \<Rightarrow> Some (pc + 1, y # x # r) | _ \<Rightarrow> None)
     else if b = vm_SUB then (case s of x # y # r \<Rightarrow> Some (pc + 1, (x - y) # r) | _ \<Rightarrow> None)
     else if b = vm_JUMP then
       (case s of
          d # r \<Rightarrow> if valid_dest code (unat d) then Some (unat d, r) else None
        | _ \<Rightarrow> None)
     else if b = vm_JUMPI then
       (case s of
          d # c # r \<Rightarrow>
            if c = 0 then Some (pc + 1, r)
            else if valid_dest code (unat d) then Some (unat d, r) else None
        | _ \<Rightarrow> None)
     else None
   })"

fun evm_run :: "(nat \<Rightarrow> u256) \<Rightarrow> byte list \<Rightarrow> nat \<Rightarrow> nat \<times> u256 list \<Rightarrow> (nat \<times> u256 list) option" where
  "evm_run g code 0 st = Some st"
| "evm_run g code (Suc n) st = evm_step (g n) code st \<bind> evm_run g code n"

text \<open>\<open>c\<close> stands in the code at position \<open>pc\<close>.\<close>

definition code_at :: "byte list \<Rightarrow> nat \<Rightarrow> byte list \<Rightarrow> bool" where
  "code_at code pc c \<longleftrightarrow> (\<exists>xs ys. code = xs @ c @ ys \<and> length xs = pc)"

lemma code_at_append:
  "code_at code pc (c @ d) \<longleftrightarrow> code_at code pc c \<and> code_at code (pc + length c) d"
proof
  assume "code_at code pc (c @ d)"
  then obtain xs ys where "code = xs @ (c @ d) @ ys" "length xs = pc" by (auto simp: code_at_def)
  then have "code = xs @ c @ (d @ ys)" "length xs = pc"
    "code = (xs @ c) @ d @ ys" "length (xs @ c) = pc + length c" by simp_all
  then show "code_at code pc c \<and> code_at code (pc + length c) d" unfolding code_at_def by metis
next
  assume "code_at code pc c \<and> code_at code (pc + length c) d"
  then have "\<exists>xs ys. code = xs @ c @ ys \<and> length xs = pc"
    "\<exists>us vs. code = us @ d @ vs \<and> length us = pc + length c" by (simp_all add: code_at_def)
  then obtain xs ys us vs where c: "code = xs @ c @ ys" "length xs = pc"
    and d: "code = us @ d @ vs" "length us = pc + length c" by blast
  from c have "take (length us) code = xs @ c" using d(2) by simp
  then have "us = xs @ c" unfolding d(1) by simp
  with d(1) have "code = xs @ (c @ d) @ vs" by simp
  with c(2) show "code_at code pc (c @ d)" unfolding code_at_def by blast
qed

lemma code_at_Cons:
  "d \<noteq> [] \<Longrightarrow> code_at code pc (b # d) \<longleftrightarrow> code_at code pc [b] \<and> code_at code (Suc pc) d"
  using code_at_append [of code pc "[b]" d] by simp

lemma code_at_index: "code_at code pc [b] \<Longrightarrow> index code pc = Some b"
  by (auto simp: code_at_def)

lemma step_ops:
  "code_at code pc [vm_JUMPDEST] \<Longrightarrow> evm_step g code (pc, s) = Some (Suc pc, s)"
  "code_at code pc [vm_GAS] \<Longrightarrow> evm_step g code (pc, s) = Some (Suc pc, g # s)"
  "code_at code pc [vm_POP] \<Longrightarrow> evm_step g code (pc, x # s) = Some (Suc pc, s)"
  "code_at code pc [vm_DUP1] \<Longrightarrow> evm_step g code (pc, x # s) = Some (Suc pc, x # x # s)"
  "code_at code pc [vm_SWAP1] \<Longrightarrow> evm_step g code (pc, x # y # s) = Some (Suc pc, y # x # s)"
  "code_at code pc [vm_SUB] \<Longrightarrow> evm_step g code (pc, x # y # s) = Some (Suc pc, (x - y) # s)"
  "code_at code pc [vm_JUMPI] \<Longrightarrow> evm_step g code (pc, d # 0 # s) = Some (Suc pc, s)"
  "code_at code pc [vm_JUMPI] \<Longrightarrow> c \<noteq> 0 \<Longrightarrow> valid_dest code (unat d) \<Longrightarrow>
     evm_step g code (pc, d # c # s) = Some (unat d, s)"
  "code_at code pc [vm_JUMP] \<Longrightarrow> valid_dest code (unat d) \<Longrightarrow>
     evm_step g code (pc, d # s) = Some (unat d, s)"
  "code_at code pc [vm_JUMP] \<Longrightarrow> \<not> valid_dest code (unat d) \<Longrightarrow>
     evm_step g code (pc, d # s) = None"
  by (simp_all add: evm_step_def code_at_index push_len_def)

lemma step_push:
  assumes "code_at code pc c" and "is_push c"
  shows "evm_step g code (pc, s) = Some (pc + length c, of_nat (be_val (tl c)) # s)"
proof -
  from assms(2) obtain bs where bs: "0 < length bs" "length bs \<le> 32"
    "c = (vm_PUSH0 + of_nat (length bs)) # bs" by (auto simp: is_push_def)
  from assms(1) obtain xs ys where "code = xs @ c @ ys" "length xs = pc"
    by (auto simp: code_at_def)
  with bs show ?thesis by (auto simp: evm_step_def push_len_push index_def nth_append)
qed

lemma evm_run_add: "evm_run g code (m + n) st = evm_run (\<lambda>i. g (i + n)) code m st \<bind> evm_run g code n"
proof (induction m arbitrary: st)
  case (Suc m)
  then show ?case by (cases "evm_step (g (m + n)) code st") auto
qed simp

subsection \<open>Operands of a call\<close>

text \<open>
  Straight-line code that builds the operands of a CREATE and of a call: pushes, DUPs, GAS (with
  the result \<open>g\<close>) and the two create opcodes (with the address \<open>a\<close> of the new contract).
\<close>

function operands :: "u256 \<Rightarrow> u256 \<Rightarrow> byte list \<Rightarrow> u256 list \<Rightarrow> u256 list option" where
  "operands a g [] s = Some s"
| "operands a g (b # bs) s =
     (if 0 < push_len b then
        operands a g (drop (push_len b) bs) (of_nat (be_val (take (push_len b) bs)) # s)
      else if 0x80 \<le> b \<and> b \<le> 0x8f then
        (if unat (b - 0x80) < length s then operands a g bs (s ! unat (b - 0x80) # s) else None)
      else if b = vm_GAS then operands a g bs (g # s)
      else if b = vm_CREATE then (if length s < 3 then None else operands a g bs (a # drop 3 s))
      else if b = vm_CREATE2 then (if length s < 4 then None else operands a g bs (a # drop 4 s))
      else None)"
  by pat_completeness auto
termination by (relation "measure (\<lambda>(a, g, bs, s). length bs)") auto

text \<open>\<open>c\<close> is a PUSH of the number \<open>v\<close>.\<close>

definition pushes_num :: "nat \<Rightarrow> byte list \<Rightarrow> bool" where
  "pushes_num v c \<longleftrightarrow> is_push c \<and> be_val (tl c) = v"

lemma Push_num:
  assumes "program_laws P" and "goval_nat v < 2 ^ 256"
  shows "\<exists>c. pushes_num (goval_nat v) c \<and> Bytes P (Push P v p) = Bytes P p @ c"
  using assms(1) by (rule Bytes_Push [of P v p])
    (use assms(2) in \<open>auto simp: pushes_num_def is_push_def\<close>)

lemma step_pushes_num:
  "code_at code pc c \<Longrightarrow> pushes_num v c \<Longrightarrow>
    evm_step g code (pc, s) = Some (pc + length c, of_nat v # s)"
  by (auto simp: pushes_num_def step_push)

lemma operands_push: "pushes_num v c \<Longrightarrow> operands a g (c @ rest) s = operands a g rest (of_nat v # s)"
  by (auto simp: pushes_num_def is_push_def push_len_push)

lemma operands_pushes:
  "list_all2 pushes_num ns cs \<Longrightarrow>
    operands a g (concat cs @ rest) s = operands a g rest (rev (map of_nat ns) @ s)"
  by (induction ns cs arbitrary: s rule: list_all2_induct) (simp_all add: operands_push)

lemma chain_pushes:
  assumes "program_laws P"
  shows "\<forall>v \<in> set vs. goval_nat v < 2 ^ 256 \<Longrightarrow>
    \<exists>cs. list_all2 pushes_num (map goval_nat vs) cs \<and>
      Bytes P (chain (map (Push P) vs) p) = Bytes P p @ concat cs"
proof (induction vs arbitrary: p)
  case (Cons v vs)
  then have "goval_nat v < 2 ^ 256" by simp
  from Push_num [OF assms this] obtain c where
    c: "pushes_num (goval_nat v) c" "Bytes P (Push P v p) = Bytes P p @ c" by blast
  from Cons obtain cs where "list_all2 pushes_num (map goval_nat vs) cs"
    "Bytes P (chain (map (Push P) vs) (Push P v p)) = Bytes P (Push P v p) @ concat cs" by fastforce
  with c show ?case by (intro exI [of _ "c # cs"]) simp
qed simp

end
