(* ===== verification/Environment.thy ===== *)
theory Environment
  imports Filler EVM
begin

text \<open>
  The environment that every strategy works on, the strategy interface, the weighted selector
  and the create-and-call building block (\<open>generator/strategy.go\<close>).  The Go environment is
  passed by value but its \<open>f\<close>, \<open>p\<close>, \<open>labels\<close>, \<open>stackHeight\<close> and \<open>budget\<close> are pointers, so a
  strategy is a function from an environment to the environment it leaves; \<open>recursionLevel\<close> is
  a value and no strategy changes it.  A \<open>nil\<close> budget is \<open>None\<close>.
\<close>

record 'p env =
  env_f :: filler
  env_p :: 'p
  recursionLevel :: int
  labels :: "u64 list"
  stackHeight :: int
  budget :: "int option"

text \<open>Reading from the filler of the environment, and calling methods of its program.\<close>

definition liftF :: "(filler \<Rightarrow> ('a \<times> filler) option) \<Rightarrow> 'p env \<Rightarrow> ('a \<times> 'p env) option" where
  "liftF m env = do {
     (a, f) \<leftarrow> m (env_f env);
     Some (a, env\<lparr>env_f := f\<rparr>)
   }"

definition emit :: "('p \<Rightarrow> 'p) \<Rightarrow> 'p env \<Rightarrow> 'p env option" where
  "emit g env = Some (env\<lparr>env_p := g (env_p env)\<rparr>)"

definition addLabel :: "'p program_api \<Rightarrow> 'p env \<Rightarrow> (u64 \<times> 'p env) option" where
  "addLabel P env =
     (let (p, pc) = Jumpdest P (env_p env);
          env = env\<lparr>env_p := p\<rparr>;
          env = env\<lparr>labels := labels env @ [pc]\<rparr>
      in Some (pc, env))"

definition randomLabel :: "'p env \<Rightarrow> ((u64 \<times> bool) \<times> 'p env) option" where
  "randomLabel env =
     (if length (labels env) = 0 then Some ((0, False), env)
      else do {
        (b, env) \<leftarrow> liftF Byte env;
        l \<leftarrow> index (labels env) (unat b mod length (labels env));
        Some ((l, True), env)
      })"

text \<open>
  The Go types that implement the \<open>Strategy\<close> interface; an interface value is its dynamic type
  together with its methods.
\<close>

datatype strategy_type =
    OpcodeGenerator | ValidOpcodeGenerator | MemStorageGenerator | MstoreGenerator
  | SstoreGenerator | TstoreGenerator | ReturnDataGenerator | ReturnGenerator | PushGenerator
  | HashAndStoreGenerator | MloadGenerator | SloadGenerator | TloadGenerator | BlobhashGenerator
  | CreateCallRNGGenerator | CreateCallGenerator | RandomCallGenerator | CallPrecompileGenerator
  | JumpdestGenerator | JumpGenerator | LabelJumpGenerator | BoundedLoopGenerator
  | StackAwareGenerator | ArithEdgeGenerator
  | StaticContextGenerator | WarmColdGenerator | SstoreWalkGenerator | ValueCallGenerator
  | DeepCallGenerator | ReturnDataCopyGenerator | McopyGenerator | LogGenerator
  | SelfdestructGenerator | InvalidJumpGenerator | StackFillGenerator

record 'p strategy =
  dynType :: strategy_type
  Execute :: "'p env \<Rightarrow> 'p env option"
  Importance :: int
  String :: string

subsection \<open>The weighted selector\<close>

definition fallbackWeight :: int where
  "fallbackWeight = 17"

record 'p selector =
  strats :: "'p strategy list"
  cum :: "int list"
  total :: int

definition selector_weight :: "'p strategy \<Rightarrow> int" where
  "selector_weight strat =
     (let w = Importance strat;
          w = (if dynType strat = ValidOpcodeGenerator then fallbackWeight else w)
      in if w < 1 then 1 else w)"

definition newSelector :: "'p strategy \<Rightarrow> 'p strategy list \<Rightarrow> 'p selector option" where
  "newSelector fallback ss =
     (let all = ss @ [fallback];
          s = \<lparr>strats = all, cum = replicate (length all) 0, total = 0\<rparr>;
          s = foldl (\<lambda>s i.
                let s = s\<lparr>total := total s + selector_weight (all ! i)\<rparr>
                in s\<lparr>cum := (cum s)[i := total s]\<rparr>) s [0..<length all]
      in if total s \<le> 0 then None else Some s)"

definition Select :: "'p selector \<Rightarrow> filler \<Rightarrow> ('p strategy \<times> filler) option" where
  "Select s f = do {
     (u, f) \<leftarrow> Uint16 f;
     r \<leftarrow> (if total s = 0 then None else Some (uint u mod total s));
     let i = Search (length (cum s)) (\<lambda>i. cum s ! i > r);
     st \<leftarrow> index (strats s) i;
     Some (st, f)
   }"

subsection \<open>Create and call\<close>

definition cap_initCode :: "int option \<Rightarrow> byte list \<Rightarrow> byte list option" where
  "cap_initCode b initCode =
     (case b of
        None \<Rightarrow> Some initCode
      | Some bud \<Rightarrow>
          (let maxCode = bud sdiv 4
           in if int (length initCode) > maxCode then
                (let maxCode = (if maxCode < 0 then 0 else maxCode)
                 in slice initCode 0 (nat maxCode))
              else Some initCode))"

definition CreateAndCall ::
    "'p program_api \<Rightarrow> byte list \<Rightarrow> bool \<Rightarrow> opcode \<Rightarrow> 'p env \<Rightarrow> 'p env option" where
  "CreateAndCall P initCode isCreate2 callOp env = do {
     initCode \<leftarrow> cap_initCode (budget env) initCode;
     let value = GoInt 0;
     let offset = GoInt 0;
     let size = GoInt (int (length initCode));
     let salt = GoInt 0;
     env \<leftarrow> emit (Mstore P initCode 0) env;
     env \<leftarrow> (if isCreate2 then emit (Push P salt) env else Some env);
     let createOp = (if isCreate2 then vm_CREATE2 else vm_CREATE);
     env \<leftarrow> emit (chain [Push P size, Push P offset, Push P value, Op P [createOp]]) env;
     env \<leftarrow> emit (chain [Push P (GoInt 0), Push P (GoInt 0)]) env;
     env \<leftarrow> emit (chain [Push P (GoInt 0), Push P (GoInt 0)]) env;
     let hasValue = (callOp = vm_CALL \<or> callOp = vm_CALLCODE);
     env \<leftarrow> (if hasValue then emit (Push P (GoInt 0)) env else Some env);
     let addrOffset = (if hasValue then vm_DUP6 else vm_DUP5);
     env \<leftarrow> emit (Op P [addrOffset]) env;
     emit (Op P [vm_GAS, callOp]) env
   }"

subsection \<open>The invariant of an environment\<close>

text \<open>
  The filler is well-formed, the modelled stack height is not negative, and every cached label
  is the position of a JUMPDEST byte of the code emitted so far (as long as positions fit the
  64 bits the builder returns them in).
\<close>

definition labels_ok :: "byte list \<Rightarrow> u64 list \<Rightarrow> bool" where
  "labels_ok code ls \<longleftrightarrow>
     (length code < 2 ^ 64 \<longrightarrow> (\<forall>pc \<in> set ls. unat pc < length code \<and> code ! unat pc = vm_JUMPDEST))"

definition env_ok :: "'p program_api \<Rightarrow> 'p env \<Rightarrow> bool" where
  "env_ok P env \<longleftrightarrow>
     filler_ok (env_f env) \<and> 0 \<le> stackHeight env \<and> labels_ok (Bytes P (env_p env)) (labels env)"

fun budget_le :: "int option \<Rightarrow> int option \<Rightarrow> bool" where
  "budget_le None None = True"
| "budget_le (Some a) (Some b) = (a \<le> b)"
| "budget_le _ _ = False"

text \<open>What a strategy may do to an environment: read on, append code and labels, spend budget.\<close>

definition env_le :: "'p program_api \<Rightarrow> 'p env \<Rightarrow> 'p env \<Rightarrow> bool" where
  "env_le P e e' \<longleftrightarrow>
     data (env_f e') = data (env_f e) \<and> prefix (Bytes P (env_p e)) (Bytes P (env_p e')) \<and>
     prefix (labels e) (labels e') \<and> recursionLevel e' = recursionLevel e \<and>
     budget_le (budget e') (budget e)"

definition kept :: "'p program_api \<Rightarrow> 'p env \<Rightarrow> 'p env option \<Rightarrow> bool" where
  "kept P e m \<longleftrightarrow> (env_ok P e \<longrightarrow> returns m (\<lambda>e'. env_ok P e' \<and> env_le P e e'))"

definition keptv ::
    "'p program_api \<Rightarrow> 'p env \<Rightarrow> ('a \<times> 'p env) option \<Rightarrow> ('a \<Rightarrow> bool) \<Rightarrow> bool" where
  "keptv P e m Q \<longleftrightarrow>
     (env_ok P e \<longrightarrow> returns m (\<lambda>(a, e'). env_ok P e' \<and> env_le P e e' \<and> Q a))"

lemma budget_le_refl [simp]: "budget_le b b"
  by (cases b) simp_all

lemma budget_le_trans: "budget_le a b \<Longrightarrow> budget_le b c \<Longrightarrow> budget_le a c"
  by (cases a; cases b; cases c) simp_all

lemma env_le_refl [simp]: "env_le P e e"
  by (simp add: env_le_def)

lemma env_le_trans: "env_le P a b \<Longrightarrow> env_le P b c \<Longrightarrow> env_le P a c"
  unfolding env_le_def by (metis budget_le_trans prefix_order.order_trans)

lemma labels_ok_mono:
  assumes "labels_ok code ls" and "prefix code code'"
  shows "labels_ok code' ls"
proof -
  obtain zs where "code' = code @ zs" using assms(2) by (auto elim: prefixE)
  with assms(1) show ?thesis by (auto simp: labels_ok_def nth_append)
qed

lemma kept_return [kept_intro]: "kept P e (Some e)"
  by (simp add: kept_def)

lemma keptv_return: "Q a \<Longrightarrow> keptv P e (Some (a, e)) Q"
  by (simp add: keptv_def)

lemma kept_bind:
  assumes "kept P e m" and "\<And>e'. kept P e' (k e')"
  shows "kept P e (m \<bind> k)"
  unfolding kept_def
proof
  assume "env_ok P e"
  then obtain e' where m: "m = Some e'" and e': "env_ok P e'" "env_le P e e'"
    using assms(1) by (auto simp: kept_def returns_iff)
  show "returns (m \<bind> k) (\<lambda>e'. env_ok P e' \<and> env_le P e e')"
    using assms(2) [of e'] e' by (auto simp: kept_def m elim!: returns_mono intro: env_le_trans)
qed

lemma keptv_bind:
  assumes "keptv P e m Q" and "\<And>a e'. Q a \<Longrightarrow> kept P e' (k a e')"
  shows "kept P e (m \<bind> (\<lambda>(a, e'). k a e'))"
  unfolding kept_def
proof
  assume "env_ok P e"
  then obtain a e' where m: "m = Some (a, e')" and e': "env_ok P e'" "env_le P e e'" "Q a"
    using assms(1) by (auto simp: keptv_def returns_iff)
  show "returns (m \<bind> (\<lambda>(a, e'). k a e')) (\<lambda>e'. env_ok P e' \<and> env_le P e e')"
    using assms(2) [OF e'(3), of e'] e'
    by (auto simp: kept_def m elim!: returns_mono intro: env_le_trans)
qed

lemma keptv_bindv:
  assumes "keptv P e m Q" and "\<And>a e'. Q a \<Longrightarrow> keptv P e' (k a e') R"
  shows "keptv P e (m \<bind> (\<lambda>(a, e'). k a e')) R"
  unfolding keptv_def
proof
  assume "env_ok P e"
  then obtain a e' where m: "m = Some (a, e')" and e': "env_ok P e'" "env_le P e e'" "Q a"
    using assms(1) by (auto simp: keptv_def returns_iff)
  show "returns (m \<bind> (\<lambda>(a, e'). k a e')) (\<lambda>(b, e'). env_ok P e' \<and> env_le P e e' \<and> R b)"
    using assms(2) [OF e'(3), of e'] e'
    by (auto simp: keptv_def m elim!: returns_mono intro: env_le_trans)
qed

lemma kept_pure_bind:
  "m = Some v \<Longrightarrow> kept P e (k v) \<Longrightarrow> kept P e (m \<bind> k)"
  by simp

lemma kept_if [kept_intro]:
  "(c \<Longrightarrow> kept P e m) \<Longrightarrow> (\<not> c \<Longrightarrow> kept P e m') \<Longrightarrow> kept P e (if c then m else m')"
  by simp

lemma keptv_if [kept_intro]:
  "(c \<Longrightarrow> keptv P e m Q) \<Longrightarrow> (\<not> c \<Longrightarrow> keptv P e m' Q) \<Longrightarrow> keptv P e (if c then m else m') Q"
  by simp

lemma kept_let [kept_intro]: "kept P e (m v) \<Longrightarrow> kept P e (let x = v in m x)"
  by simp

lemma keptv_let [kept_intro]: "keptv P e (m v) Q \<Longrightarrow> keptv P e (let x = v in m x) Q"
  by simp

lemma kept_set_height [kept_intro]:
  "(0 \<le> stackHeight e \<Longrightarrow> 0 \<le> h) \<Longrightarrow> kept P e (Some (e\<lparr>stackHeight := h\<rparr>))"
  by (auto simp: kept_def env_ok_def env_le_def)

lemma kept_emit: "grows P g \<Longrightarrow> kept P e (emit g e)"
  by (auto simp: kept_def emit_def env_ok_def env_le_def grows_def intro: labels_ok_mono)

lemmas kept_bind_emit [kept_intro] = kept_bind kept_emit

lemma liftF_spec: "m (env_f e) = Some (a, f) \<Longrightarrow> liftF m e = Some (a, e\<lparr>env_f := f\<rparr>)"
  by (simp add: liftF_def)

lemma liftF_Byte:
  "filler_ok (env_f e) \<Longrightarrow> liftF Byte e = Some (tape (env_f e) 0, e\<lparr>env_f := advance 1 (env_f e)\<rparr>)"
  by (rule liftF_spec) (rule Byte_spec)

lemma liftF_Byte_at:
  "filler_ok f \<Longrightarrow> liftF Byte (e\<lparr>env_f := advance n f\<rparr>) = Some (tape f n, e\<lparr>env_f := advance (Suc n) f\<rparr>)"
  using liftF_Byte [of "e\<lparr>env_f := advance n f\<rparr>"] by (simp add: tape_advance advance_advance)

lemma keptv_liftF: "fills (env_f e) (m (env_f e)) Q \<Longrightarrow> keptv P e (liftF m e) Q"
  by (fastforce simp: keptv_def fills_def liftF_def env_ok_def env_le_def returns_iff
      split: prod.splits)

lemma keptv_liftF_reads:
  "keptv P e (liftF Byte e) (\<lambda>_. True)"
  "keptv P e (liftF Bool e) (\<lambda>_. True)"
  "keptv P e (liftF (ByteSlice n) e) (\<lambda>b. length b = n)"
  "keptv P e (liftF ByteSlice256 e) (\<lambda>b. length b < 256)"
  "keptv P e (liftF Uint16 e) (\<lambda>_. True)"
  "keptv P e (liftF Uint32 e) (\<lambda>_. True)"
  "keptv P e (liftF BigInt16 e) (ubits 16)"
  "keptv P e (liftF BigInt32 e) (ubits 32)"
  "keptv P e (liftF BigInt256 e) (ubits 256)"
  "keptv P e (liftF GasInt e) (ubits 256)"
  "keptv P e (liftF MemInt e) (ubits 256)"
  by (rule keptv_liftF, rule fills_reads)+

lemmas kept_bind_reads [kept_intro] =
  keptv_liftF_reads [THEN keptv_bind] keptv_liftF_reads [THEN keptv_bindv]

lemma kept_case_prod [kept_intro]:
  "(\<And>x y. a = (x, y) \<Longrightarrow> kept P e (t x y e)) \<Longrightarrow> kept P e (case_prod t a e)"
  by (cases a) simp

lemma keptv_case_prod [kept_intro]:
  "(\<And>x y. a = (x, y) \<Longrightarrow> keptv P e (t x y e) Q) \<Longrightarrow> keptv P e (case_prod t a e) Q"
  by (cases a) simp

lemma keptv_addLabel: "program_laws P \<Longrightarrow> keptv P e (addLabel P e) (\<lambda>_. True)"
proof -
  assume laws: "program_laws P"
  define code where "code = Bytes P (env_p e)"
  have "labels_ok (code @ [vm_JUMPDEST]) (labels e @ [of_nat (length code)])"
    if "labels_ok code (labels e)"
    using that of_nat_inverse [OF refl, of "length code", where ?'a = 64]
    by (auto simp: labels_ok_def nth_append)
  then show ?thesis
    using laws by (auto simp: keptv_def addLabel_def split_beta Let_def env_ok_def env_le_def
        Bytes_Jumpdest pc_Jumpdest code_def)
qed

lemmas kept_bind_addLabel [kept_intro] = keptv_addLabel [THEN keptv_bind]

lemma keptv_randomLabel: "keptv P e (randomLabel e) (\<lambda>_. True)"
proof (cases "labels e = []")
  case True
  then show ?thesis by (simp add: randomLabel_def keptv_return)
next
  case False
  have "keptv P e (randomLabel e) (\<lambda>_. True) \<longleftrightarrow> keptv P e (liftF Byte e \<bind>
      (\<lambda>(b, e'). Some ((labels e ! (unat b mod length (labels e)), True), e'))) (\<lambda>_. True)"
    using False by (auto simp: randomLabel_def liftF_def Byte_def bind_split split: prod.splits)
  then show ?thesis
    by (auto intro!: kept_intro keptv_return)
qed

lemmas kept_bind_randomLabel [kept_intro] = keptv_randomLabel [THEN keptv_bind]

subsection \<open>Create and call keeps the invariant\<close>

lemma slice_cap:
  "m < int (length c) \<Longrightarrow> slice c 0 (nat (if m < 0 then 0 else m)) = Some (take (nat m) c)"
  by (auto simp: slice_def)

lemma cap_initCode_eq:
  "cap_initCode b c = Some (case b of None \<Rightarrow> c | Some bud \<Rightarrow> take (nat (bud sdiv 4)) c)"
proof (cases b)
  case (Some bud)
  define m where "m = bud sdiv 4"
  show ?thesis
  proof (cases "m < int (length c)")
    case True
    with Some slice_cap [OF True] show ?thesis by (simp add: cap_initCode_def Let_def flip: m_def)
  next
    case False
    then have "length c \<le> nat m" by linarith
    with Some False show ?thesis by (simp add: cap_initCode_def Let_def flip: m_def)
  qed
qed (simp add: cap_initCode_def)

lemma kept_CreateAndCall [kept_intro]:
  "program_laws P \<Longrightarrow> kept P e (CreateAndCall P c is2 op e)"
  unfolding CreateAndCall_def
  by (rule kept_pure_bind [OF cap_initCode_eq]) (auto intro!: kept_intro grow_intro)

subsection \<open>Properties\<close>

text \<open>C9. \<open>CreateAndCall\<close> embeds at most a quarter of the remaining budget of the code it is given, and
  the instructions after the memory write leave, before the call opcode runs, exactly its operands:
  all gas, the address of the contract just created, a zero value where the opcode takes one, and
  four empty memory bounds, above the address and the old stack.\<close>

theorem CreateAndCall_frame:
  fixes e :: "'p env"
  assumes "program_laws P" and "length c < 2 ^ 256"
  defines "init \<equiv> (case budget e of None \<Rightarrow> c | Some b \<Rightarrow> take (nat (b sdiv 4)) c)"
  shows "\<exists>e' body. CreateAndCall P c is2 o1 e = Some e' \<and>
    (\<forall>b. budget e = Some b \<longrightarrow> 4 * int (length init) \<le> max 0 b) \<and>
    Bytes P (env_p e') = Bytes P (Mstore P init 0 (env_p e)) @ body @ [o1] \<and>
    (\<forall>a g s. operands a g body s = Some (g # a #
       (if o1 = vm_CALL \<or> o1 = vm_CALLCODE then [0] else []) @ [0, 0, 0, 0] @ a # s))"
proof -
  define p0 where "p0 = Mstore P init 0 (env_p e)"
  define hv where "hv = (o1 = vm_CALL \<or> o1 = vm_CALLCODE)"
  define vs where "vs = (if is2 then [GoInt 0] else []) @ [GoInt (int (length init)), GoInt 0, GoInt 0]"
  define ws where "ws = [GoInt 0, GoInt 0, GoInt 0, GoInt 0] @ (if hv then [GoInt 0] else [])"
  define p1 where "p1 = chain (map (Push P) vs) p0"
  define p2 where "p2 = Op P [if is2 then vm_CREATE2 else vm_CREATE] p1"
  define p3 where "p3 = chain (map (Push P) ws) p2"
  define p4 where "p4 = Op P [vm_GAS, o1] (Op P [if hv then vm_DUP6 else vm_DUP5] p3)"
  have run: "CreateAndCall P c is2 o1 e = Some (e\<lparr>env_p := p4\<rparr>)"
    unfolding CreateAndCall_def cap_initCode_eq init_def [symmetric]
    by (simp add: emit_def Let_def p0_def p1_def p2_def p3_def p4_def vs_def ws_def chain_append
        flip: hv_def)
  have "length init \<le> length c" unfolding init_def by (auto split: option.splits)
  with assms(2) have "length init < 2 ^ 256" by simp
  then have "\<forall>v \<in> set vs. goval_nat v < 2 ^ 256" "\<forall>v \<in> set ws. goval_nat v < 2 ^ 256"
    by (auto simp: vs_def ws_def)
  from this [THEN chain_pushes [OF assms(1)]] obtain cs ds where
    cs: "list_all2 pushes_num (map goval_nat vs) cs" "Bytes P p1 = Bytes P p0 @ concat cs" and
    ds: "list_all2 pushes_num (map goval_nat ws) ds" "Bytes P p3 = Bytes P p2 @ concat ds"
    unfolding p1_def p3_def by meson
  define body where "body = concat cs @ (if is2 then vm_CREATE2 else vm_CREATE) # concat ds @
    [if hv then vm_DUP6 else vm_DUP5, vm_GAS]"
  have bytes: "Bytes P p4 = Bytes P p0 @ body @ [o1]"
    unfolding p4_def body_def by (simp add: Bytes_Op [OF assms(1)] ds(2)) (simp add: p2_def Bytes_Op [OF assms(1)] cs(2))
  have "operands a g body s = Some (g # a # (if hv then [0] else []) @ [0, 0, 0, 0] @ a # s)" for a g s
  proof -
    have lens: "push_len vm_CREATE = 0" "push_len vm_CREATE2 = 0" "push_len vm_DUP5 = 0"
      "push_len vm_DUP6 = 0" "push_len vm_GAS = 0"
      by (simp_all add: push_len_def)
    show ?thesis
      unfolding body_def append_assoc append_Cons operands_pushes [OF cs(1)]
      by (cases is2; cases hv) (simp_all add: lens operands_pushes [OF ds(1)] vs_def ws_def)
  qed
  moreover have "4 * int (length init) \<le> max 0 b" if "budget e = Some b" for b
  proof -
    define m where "m = b sdiv 4"
    have "4 * m \<le> max 0 b"
      by (simp add: m_def signed_divide_int_def sgn_if) presburger
    then show ?thesis using that by (simp add: init_def flip: m_def)
  qed
  ultimately show ?thesis
    using run bytes unfolding p0_def hv_def by (intro exI [of _ "e\<lparr>env_p := p4\<rparr>"] exI [of _ body]) simp
qed

definition sample_env :: "byte list \<Rightarrow> int option \<Rightarrow> byte list env" where
  "sample_env d b = \<lparr>env_f = NewFiller d, env_p = New sample_program, recursionLevel = 0,
     labels = [], stackHeight = 0, budget = b\<rparr>"

lemma sample_env_ok [simp]: "env_ok sample_program (sample_env d b)"
  by (simp add: env_ok_def sample_env_def labels_ok_def)

lemma sample_env_simps [simp]:
  "env_f (sample_env d b) = NewFiller d" "env_p (sample_env d b) = []"
  "recursionLevel (sample_env d b) = 0" "labels (sample_env d b) = []"
  "stackHeight (sample_env d b) = 0" "budget (sample_env d b) = b"
  by (simp_all add: sample_env_def sample_program_def)

theorem CreateAndCall_frame_witness:
  "\<exists>e' body. CreateAndCall sample_program [1, 2, 3] False vm_CALL (sample_env [] (Some 8)) = Some e' \<and>
    Bytes sample_program (env_p e') = Bytes sample_program (Mstore sample_program [1, 2] 0 []) @
      body @ [vm_CALL] \<and>
    (\<forall>a g s. operands a g body s = Some (g # a # 0 # [0, 0, 0, 0] @ a # s))"
proof -
  have small: "length [1, 2, 3 :: byte] < 2 ^ 256" by simp
  have "(8 :: int) sdiv 4 = 2" by (simp add: signed_divide_int_def)
  then show ?thesis
    using CreateAndCall_frame [OF sample_program_laws small, of False vm_CALL "sample_env [] (Some 8)"]
    by simp
qed

text \<open>C22. A label is the position of the JUMPDEST that was emitted for it, and on code that ends at an
  instruction boundary it is a jump destination the EVM accepts, whatever is appended later.\<close>

theorem addLabel_valid:
  assumes "program_laws P" and "aligned (Bytes P (env_p e))"
    and "length (Bytes P (env_p e)) < 2 ^ 64"
  shows "\<exists>pc e'. addLabel P e = Some (pc, e') \<and> labels e' = labels e @ [pc] \<and>
    aligned (Bytes P (env_p e')) \<and> (\<forall>post. valid_dest (Bytes P (env_p e') @ post) (unat pc))"
proof -
  define code where "code = Bytes P (env_p e)"
  have "unat (of_nat (length code) :: u64) = length code"
    using assms(3) by (simp add: code_def unat_of_nat)
  moreover have "length code \<in> set (dests 0 ((code @ [vm_JUMPDEST]) @ post))" for post
    using dests_append [of code 0 "[vm_JUMPDEST] @ post"] assms(2) by (simp add: code_def push_len_def)
  ultimately show ?thesis
    using assms(2) Bytes_Jumpdest [OF assms(1)] pc_Jumpdest [OF assms(1)]
    by (simp add: addLabel_def split_beta Let_def valid_dest_def aligned_append push_len_def
        flip: code_def)
qed

theorem addLabel_valid_witness:
  "\<exists>pc e'. addLabel sample_program (sample_env [] None) = Some (pc, e') \<and>
    (\<forall>post. valid_dest (Bytes sample_program (env_p e') @ post) (unat pc))"
  using addLabel_valid [OF sample_program_laws, of "sample_env [] None"]
  by (auto simp: sample_program_def)

end
