(* ===== verification/Selector.thy ===== *)
theory Selector
  imports Environment
begin

text \<open>
  The weighted choice of a strategy (\<open>newSelector\<close> and \<open>Select\<close> of \<open>generator/strategy.go\<close>).
  The locale states what the binary search over a table of running sums needs of the weights;
  it is interpreted on the weights of the selector.
\<close>

definition cumsum :: "('a \<Rightarrow> int) \<Rightarrow> 'a list \<Rightarrow> nat \<Rightarrow> int" where
  "cumsum w xs i = sum_list (map w (take i xs))"

lemma cumsum_0 [simp]: "cumsum w xs 0 = 0"
  by (simp add: cumsum_def)

lemma cumsum_Suc: "i < length xs \<Longrightarrow> cumsum w xs (Suc i) = cumsum w xs i + w (xs ! i)"
  by (simp add: cumsum_def take_Suc_conv_app_nth)

locale weight_table =
  fixes weight :: "'a \<Rightarrow> int"
  assumes weight_pos: "0 < weight x"
begin

lemma cumsum_mono: "i \<le> j \<Longrightarrow> cumsum weight xs i \<le> cumsum weight xs j"
proof (induction j)
  case (Suc j)
  have "cumsum weight xs j \<le> cumsum weight xs (Suc j)"
  proof (cases "j < length xs")
    case True
    with weight_pos [of "xs ! j"] show ?thesis by (simp add: cumsum_Suc)
  qed (simp add: cumsum_def)
  with Suc show ?case by (cases "i = Suc j") auto
qed simp

lemma cumsum_nonneg: "0 \<le> cumsum weight xs i"
  using cumsum_mono [of 0 i xs] by simp

lemma cumsum_pos: "xs \<noteq> [] \<Longrightarrow> 0 < cumsum weight xs (length xs)"
  using cumsum_mono [of 1 "length xs" xs] cumsum_Suc [of 0 xs weight] weight_pos [of "xs ! 0"]
  by (cases xs) simp_all

lemma search_block:
  assumes "0 \<le> r" and "r < cumsum weight xs (length xs)"
  defines "i \<equiv> Search (length xs) (\<lambda>i. cumsum weight xs (Suc i) > r)"
  shows "i < length xs \<and> cumsum weight xs i \<le> r \<and> r < cumsum weight xs (Suc i)"
proof -
  have mono: "a \<le> b \<Longrightarrow> cumsum weight xs (Suc a) > r \<Longrightarrow> cumsum weight xs (Suc b) > r" for a b
    using cumsum_mono [of "Suc a" "Suc b" xs] by simp
  have below: "cumsum weight xs (Suc k) \<le> r" if "k < i" for k
    using Search_least [of "\<lambda>i. cumsum weight xs (Suc i) > r", OF mono] that
    by (fastforce simp: i_def)
  have "i < length xs"
  proof (rule ccontr)
    assume "\<not> i < length xs"
    with Search_le have len: "i = length xs" unfolding i_def by (meson le_antisym not_less)
    show False
    proof (cases xs)
      case (Cons y ys)
      with len below [of "length xs - 1"] assms(2) show False by simp
    qed (use assms in simp)
  qed
  moreover from this have "r < cumsum weight xs (Suc i)"
    using Search_sat [of "length xs" "\<lambda>i. cumsum weight xs (Suc i) > r"] by (simp add: i_def)
  moreover have "cumsum weight xs i \<le> r"
    using below [of "i - 1"] assms(1) by (cases i) simp_all
  ultimately show ?thesis by blast
qed

lemma block_unique:
  assumes "cumsum weight xs i \<le> r" "r < cumsum weight xs (Suc i)"
    and "cumsum weight xs j \<le> r" "r < cumsum weight xs (Suc j)"
  shows "i = j"
proof (rule ccontr)
  assume "i \<noteq> j"
  then consider "Suc i \<le> j" | "Suc j \<le> i" by linarith
  then show False
    by cases (use cumsum_mono [of "Suc i" j xs] cumsum_mono [of "Suc j" i xs] assms in auto)
qed

lemma search_eq_iff:
  assumes "0 \<le> r" and "r < cumsum weight xs (length xs)" and "k < length xs"
  shows "Search (length xs) (\<lambda>i. cumsum weight xs (Suc i) > r) = k \<longleftrightarrow>
    cumsum weight xs k \<le> r \<and> r < cumsum weight xs (Suc k)"
  using search_block [OF assms(1,2)] block_unique by blast

text \<open>As many draws lead to an entry as its weight says.\<close>

lemma card_block:
  assumes "k < length xs"
  shows "card {r. 0 \<le> r \<and> r < cumsum weight xs (length xs) \<and>
      Search (length xs) (\<lambda>i. cumsum weight xs (Suc i) > r) = k} = nat (weight (xs ! k))"
proof -
  have "cumsum weight xs (Suc k) \<le> cumsum weight xs (length xs)"
    using assms by (intro cumsum_mono) simp
  then have "{r. 0 \<le> r \<and> r < cumsum weight xs (length xs) \<and>
      Search (length xs) (\<lambda>i. cumsum weight xs (Suc i) > r) = k} =
    {cumsum weight xs k..<cumsum weight xs (Suc k)}"
    using search_eq_iff [OF _ _ assms] cumsum_nonneg [of xs k] by force
  then show ?thesis using assms by (simp add: cumsum_Suc)
qed

end

interpretation selector_table: weight_table selector_weight
  by unfold_locales (simp add: selector_weight_def Let_def)

subsection \<open>The table that \<open>newSelector\<close> builds\<close>

text \<open>A selector whose cumulative table fits its strategies.\<close>

definition selector_ok :: "'p selector \<Rightarrow> bool" where
  "selector_ok s \<longleftrightarrow>
     strats s \<noteq> [] \<and> total s = cumsum selector_weight (strats s) (length (strats s)) \<and>
     cum s = map (\<lambda>i. cumsum selector_weight (strats s) (Suc i)) [0..<length (strats s)]"

lemma newSelector_loop:
  fixes all :: "'p strategy list"
  defines "step \<equiv> \<lambda>s i. let s = s\<lparr>total := total s + selector_weight (all ! i)\<rparr>
    in s\<lparr>cum := (cum s)[i := total s]\<rparr>"
  shows "n \<le> length all \<Longrightarrow>
    foldl step \<lparr>strats = all, cum = replicate (length all) 0, total = 0\<rparr> [0..<n] =
      \<lparr>strats = all,
       cum = map (\<lambda>i. cumsum selector_weight all (Suc i)) [0..<n] @ replicate (length all - n) 0,
       total = cumsum selector_weight all n\<rparr>"
proof (induction n)
  case (Suc n)
  then have "replicate (length all - n) (0 :: int) = 0 # replicate (length all - Suc n) 0"
    by (metis Suc_diff_Suc Suc_le_lessD replicate_Suc)
  with Suc show ?case
    by (simp add: step_def Let_def cumsum_Suc list_update_append)
qed simp

lemma newSelector_eq:
  "newSelector fb ss = Some
    \<lparr>strats = ss @ [fb],
     cum = map (\<lambda>i. cumsum selector_weight (ss @ [fb]) (Suc i)) [0..<length (ss @ [fb])],
     total = cumsum selector_weight (ss @ [fb]) (length (ss @ [fb]))\<rparr>"
  using newSelector_loop [of "length (ss @ [fb])" "ss @ [fb]"]
    selector_table.cumsum_pos [of "ss @ [fb]"]
  by (simp add: newSelector_def Let_def)

lemma newSelector_ok: "newSelector fb ss = Some s \<Longrightarrow> selector_ok s \<and> strats s = ss @ [fb]"
  by (auto simp: newSelector_eq selector_ok_def)

text \<open>The draw of a selection and the entry it leads to.\<close>

definition draw_index :: "'p selector \<Rightarrow> int \<Rightarrow> nat" where
  "draw_index s r = Search (length (cum s)) (\<lambda>i. cum s ! i > r)"

lemma draw_index_eq:
  "selector_ok s \<Longrightarrow> draw_index s r =
    Search (length (strats s)) (\<lambda>i. cumsum selector_weight (strats s) (Suc i) > r)"
  unfolding draw_index_def by (auto simp: selector_ok_def intro!: Search_cong)

lemma Select_spec:
  assumes "selector_ok s" and "filler_ok f"
  defines "r \<equiv> int (be_val (upcoming 2 f)) mod total s"
  shows "Select s f = Some (strats s ! draw_index s r, advance 2 f) \<and>
    draw_index s r < length (strats s)"
proof -
  have pos: "0 < total s"
    using assms(1) selector_table.cumsum_pos [of "strats s"] by (simp add: selector_ok_def)
  then have "0 \<le> r" "r < total s" by (simp_all add: r_def)
  then have "draw_index s r < length (strats s)"
    using selector_table.search_block [of r "strats s"] assms(1)
    by (simp add: draw_index_eq) (simp add: selector_ok_def)
  with pos assms(2) show ?thesis
    by (simp add: Select_def Uint16_spec uint_Uint16 r_def draw_index_def)
qed

lemma keptv_Select:
  "selector_ok s \<Longrightarrow> keptv P e (liftF (Select s) e) (\<lambda>st. st \<in> set (strats s))"
  by (rule keptv_liftF, rule fills_spec [OF Select_spec [THEN conjunct1]])
    (auto simp: Select_spec)

subsection \<open>Properties\<close>

lemma draw_index_card:
  assumes "selector_ok s" and "k < length (strats s)"
  shows "card {r. 0 \<le> r \<and> r < total s \<and> draw_index s r = k} = nat (selector_weight (strats s ! k))"
proof -
  have "{r. 0 \<le> r \<and> r < total s \<and> draw_index s r = k} =
    {r. 0 \<le> r \<and> r < cumsum selector_weight (strats s) (length (strats s)) \<and>
      Search (length (strats s)) (\<lambda>i. cumsum selector_weight (strats s) (Suc i) > r) = k}"
    using assms(1) by (auto simp: draw_index_eq) (simp_all add: selector_ok_def)
  then show ?thesis using selector_table.card_block [OF assms(2)] by simp
qed


definition sample_strategy :: "strategy_type \<Rightarrow> int \<Rightarrow> 'p strategy" where
  "sample_strategy t w = \<lparr>dynType = t, Execute = Some, Importance = w, String = ''sample''\<rparr>"


text \<open>C8. \<open>Select\<close> never panics on a selector from \<open>newSelector\<close>: it reads two bytes and returns the
  entry in whose block of the running sums the big-endian value, modulo the total, lies.\<close>

theorem Select_draw:
  assumes "newSelector fb ss = Some s" and "filler_ok f"
  defines "r \<equiv> int (be_val (upcoming 2 f)) mod total s"
  shows "\<exists>k < length (ss @ [fb]). Select s f = Some ((ss @ [fb]) ! k, advance 2 f) \<and>
    sum_list (map selector_weight (take k (ss @ [fb]))) \<le> r \<and>
    r < sum_list (map selector_weight (take (Suc k) (ss @ [fb])))"
proof -
  have ok: "selector_ok s" "strats s = ss @ [fb]" using newSelector_ok [OF assms(1)] by simp_all
  have "0 < total s" using ok selector_table.cumsum_pos [of "strats s"] by (simp add: selector_ok_def)
  then have r: "0 \<le> r" "r < cumsum selector_weight (strats s) (length (strats s))"
    using ok(1) by (simp_all add: r_def) (simp add: selector_ok_def)
  show ?thesis
    using Select_spec [OF ok(1) assms(2)] selector_table.search_block [OF r] draw_index_eq [OF ok(1)]
    unfolding r_def [symmetric] ok(2) cumsum_def by auto
qed

theorem Select_draw_witness:
  "\<exists>s :: unit selector. newSelector (sample_strategy ValidOpcodeGenerator 10) [] = Some s \<and>
    (\<exists>k < 1. Select s (NewFiller [1, 2]) =
      Some ([sample_strategy ValidOpcodeGenerator 10] ! k, advance 2 (NewFiller [1, 2])))"
proof -
  obtain s :: "unit selector" where s: "newSelector (sample_strategy ValidOpcodeGenerator 10) [] = Some s"
    by (simp add: newSelector_eq)
  from Select_draw [OF s filler_ok_NewFiller, of "[1, 2]"] s show ?thesis by auto
qed

end
