(* ===== verification/Libraries.thy ===== *)
theory Libraries
  imports Filler Program_API
begin

text \<open>
  The other packages that FuzzyVM calls and that are not part of the repository, as one record
  of parameters: the opcode names and protocol constants of go-ethereum, \<open>holiman/uint256\<close>,
  the addresses and padding of \<open>common\<close>, and the elliptic-curve, hash and KZG libraries.
  Points are read by the code through their coordinates only, so a point is the record of its
  coordinates.  \<open>lib_laws\<close> states the documented behaviour that the generator relies on, and
  \<open>sample_lib\<close> is a concrete instance of it for the witnesses.
\<close>

record g1 =
  g1_X :: nat
  g1_Y :: nat

record g2 =
  X_A0 :: nat
  X_A1 :: nat
  Y_A0 :: nat
  Y_A1 :: nat

record privkey =
  key_X :: nat
  key_Y :: nat

datatype curve = S256 | P256

record lib =
  OpCode_String :: "byte \<Rightarrow> string"
  MaxTxGas :: u64
  BlobTxFieldElementsPerBlob :: nat
  MustFromBig :: "int \<Rightarrow> u256 option"
  u256_NewInt :: "u64 \<Rightarrow> u256"
  u256_Lsh :: "u256 \<Rightarrow> nat \<Rightarrow> u256"
  BytesToAddress :: "byte list \<Rightarrow> address"
  HexToAddress :: "string \<Rightarrow> address"
  Address_Hex :: "address \<Rightarrow> string"
  Hex2Bytes :: "string \<Rightarrow> byte list"
  Bytes2Hex :: "byte list \<Rightarrow> string"
  hexutil_Encode :: "byte list \<Rightarrow> string"
  LeftPadBytes :: "byte list \<Rightarrow> nat \<Rightarrow> byte list"
  ecdsa_GenerateKey :: "curve \<Rightarrow> filler \<Rightarrow> privkey option \<times> filler"
  ecdsa_Sign :: "filler \<Rightarrow> privkey \<Rightarrow> byte list \<Rightarrow> (nat \<times> nat) option \<times> filler"
  crypto_Sign :: "byte list \<Rightarrow> privkey \<Rightarrow> byte list option"
  bn254_G1_mulBase :: "int \<Rightarrow> g1"
  bn254_G2_mulBase :: "int \<Rightarrow> g2"
  bn254_G1_Neg :: "g1 \<Rightarrow> g1"
  bn254_fp_Bytes :: "nat \<Rightarrow> byte list"
  bls_G1_gen :: g1
  bls_G2_gen :: g2
  bls_G1_mul :: "g1 \<Rightarrow> int \<Rightarrow> g1"
  bls_G2_mul :: "g2 \<Rightarrow> int \<Rightarrow> g2"
  bls_G1_Neg :: "g1 \<Rightarrow> g1"
  bls_G1_Marshal :: "g1 \<Rightarrow> byte list"
  bls_G2_Marshal :: "g2 \<Rightarrow> byte list"
  bls_fp_size :: nat
  bls_fp_SetBytes :: "byte list \<Rightarrow> nat"
  bls_fp_PutElement :: "nat \<Rightarrow> byte list"
  sha256_Sum256 :: "byte list \<Rightarrow> byte list"
  kzg_BlobToCommitment :: "byte list \<Rightarrow> byte list option"
  kzg_ComputeProof :: "byte list \<Rightarrow> byte list \<Rightarrow> (byte list \<times> byte list) option"

text \<open>
  Documented behaviour: \<open>uint256.MustFromBig\<close> only panics outside the 256-bit range; a
  recoverable signature has 65 bytes; \<open>hexutil.Encode\<close> writes two digits a byte after its prefix;
  \<open>LeftPadBytes\<close> zero-pads on the left; an address has 20 bytes and \<open>BytesToAddress\<close> keeps 20 bytes
  as they are; an uncompressed BLS point takes 96 or 192 bytes; key generation and signing use their random source only
  through its \<open>Read\<close> method; field elements, digests, commitments and proofs have their fixed
  sizes and a blob its 4096 field elements; the transaction gas cap of EIP-7825
  is \<open>2\<^sup>2\<^sup>4\<close>.
\<close>

definition lib_laws :: "lib \<Rightarrow> bool" where
  "lib_laws X \<longleftrightarrow>
     MaxTxGas X = 2 ^ 24 \<and>
     BlobTxFieldElementsPerBlob X = 4096 \<and>
     (\<forall>v. 0 \<le> v \<and> v < 2 ^ 256 \<longrightarrow> MustFromBig X v = Some (of_int v)) \<and>
     (\<forall>c f. filler_ok f \<longrightarrow> (\<exists>n. snd (ecdsa_GenerateKey X c f) = advance n f)) \<and>
     (\<forall>f k h. filler_ok f \<longrightarrow> (\<exists>n. snd (ecdsa_Sign X f k h) = advance n f)) \<and>
     (\<forall>h k s. crypto_Sign X h k = Some s \<longrightarrow> length s = 65) \<and>
     (\<forall>b. length (BytesToAddress X b) = 20) \<and>
     (\<forall>b. length b = 20 \<longrightarrow> BytesToAddress X b = b) \<and>
     (\<forall>e. length (bn254_fp_Bytes X e) = 32) \<and>
     (\<forall>a. length (bls_G1_Marshal X a) = 96) \<and>
     (\<forall>b. length (bls_G2_Marshal X b) = 192) \<and>
     bls_fp_size X = 48 \<and>
     (\<forall>e. length (bls_fp_PutElement X e) = 48) \<and>
     (\<forall>d. length (sha256_Sum256 X d) = 32) \<and>
     (\<forall>d. length (hexutil_Encode X d) = 2 + 2 * length d) \<and>
     (\<forall>d n. LeftPadBytes X d n = replicate (n - length d) 0 @ d) \<and>
     (\<forall>b c. kzg_BlobToCommitment X b = Some c \<longrightarrow> length c = 48) \<and>
     (\<forall>b z p y. kzg_ComputeProof X b z = Some (p, y) \<longrightarrow> length p = 48 \<and> length y = 32)"

lemma lib_lawsD:
  assumes "lib_laws X"
  shows MaxTxGas_cap: "MaxTxGas X = 2 ^ 24"
    and field_elements: "BlobTxFieldElementsPerBlob X = 4096"
    and MustFromBig_Some: "ubits 256 v \<Longrightarrow> MustFromBig X v = Some (of_int v)"
    and crypto_Sign_length: "crypto_Sign X h k = Some s \<Longrightarrow> length s = 65"
    and length_BytesToAddress: "length (BytesToAddress X b) = 20"
    and BytesToAddress_id: "length b = 20 \<Longrightarrow> BytesToAddress X b = b"
    and length_bls_G1_Marshal: "length (bls_G1_Marshal X a) = 96"
    and length_bls_G2_Marshal: "length (bls_G2_Marshal X c) = 192"
    and length_bn254_fp_Bytes: "length (bn254_fp_Bytes X e) = 32"
    and bls_fp_size_48: "bls_fp_size X = 48"
    and length_bls_fp_PutElement: "length (bls_fp_PutElement X e) = 48"
    and length_sha256: "length (sha256_Sum256 X d) = 32"
    and length_hexutil_Encode: "length (hexutil_Encode X d) = 2 + 2 * length d"
    and LeftPadBytes_eq: "LeftPadBytes X d n = replicate (n - length d) 0 @ d"
  using assms by (simp_all add: lib_laws_def ubits_def)

text \<open>A library call that reads the filler and returns.\<close>

definition read_via :: "(filler \<Rightarrow> 'a \<times> filler) \<Rightarrow> filler \<Rightarrow> ('a \<times> filler) option" where
  "read_via m f = Some (m f)"

lemma fills_GenerateKey:
  "lib_laws X \<Longrightarrow> fills f (read_via (ecdsa_GenerateKey X c) f) (\<lambda>_. True)"
  by (simp add: lib_laws_def fills_def case_prod_beta read_via_def)

lemma fills_ecdsa_Sign:
  "lib_laws X \<Longrightarrow> fills f (read_via (\<lambda>f. ecdsa_Sign X f k h) f) (\<lambda>_. True)"
  by (simp add: lib_laws_def fills_def case_prod_beta read_via_def)

text \<open>Two lower-case hexadecimal digits for each byte, as \<open>%02x\<close> prints one.\<close>

definition hex_digits :: "byte list \<Rightarrow> string" where
  "hex_digits bs = concat (map (\<lambda>b.
     [''0123456789abcdef'' ! (unat b div 16), ''0123456789abcdef'' ! (unat b mod 16)]) bs)"

lemma length_hex_digits [simp]: "length (hex_digits bs) = 2 * length bs"
  by (induction bs) (simp_all add: hex_digits_def)

text \<open>A concrete instance; it stands for no particular curve, hash or commitment scheme.\<close>

definition sample_lib :: lib where
  "sample_lib =
    \<lparr>OpCode_String = (\<lambda>op. if op < 0x60 then ''OP'' else ''opcode 0x60 not defined''),
     MaxTxGas = 16777216,
     BlobTxFieldElementsPerBlob = 4096,
     MustFromBig = (\<lambda>v. if 0 \<le> v \<and> v < 2 ^ 256 then Some (of_int v) else None),
     u256_NewInt = ucast,
     u256_Lsh = (\<lambda>x n. push_bit n x),
     BytesToAddress = (\<lambda>bs. drop (length bs) (replicate 20 0 @ bs)),
     HexToAddress = (\<lambda>s. replicate 20 0),
     Address_Hex = (\<lambda>a. ''0x'' @ hex_digits a),
     Hex2Bytes = (\<lambda>s. replicate (length s div 2) 0),
     Bytes2Hex = hex_digits,
     hexutil_Encode = (\<lambda>bs. ''0x'' @ hex_digits bs),
     LeftPadBytes = (\<lambda>bs n. replicate (n - length bs) 0 @ bs),
     ecdsa_GenerateKey = (\<lambda>c f. (Some \<lparr>key_X = 1, key_Y = 2\<rparr>, advance 40 f)),
     ecdsa_Sign = (\<lambda>f k h. (Some (3, 4), advance 32 f)),
     crypto_Sign = (\<lambda>h k. Some (replicate 65 0)),
     bn254_G1_mulBase = (\<lambda>k. \<lparr>g1_X = nat k, g1_Y = nat k\<rparr>),
     bn254_G2_mulBase = (\<lambda>k. \<lparr>X_A0 = nat k, X_A1 = 0, Y_A0 = 0, Y_A1 = 0\<rparr>),
     bn254_G1_Neg = (\<lambda>p. p),
     bn254_fp_Bytes = (\<lambda>e. be_bytes 32 e),
     bls_G1_gen = \<lparr>g1_X = 1, g1_Y = 2\<rparr>,
     bls_G2_gen = \<lparr>X_A0 = 1, X_A1 = 0, Y_A0 = 2, Y_A1 = 0\<rparr>,
     bls_G1_mul = (\<lambda>p k. p),
     bls_G2_mul = (\<lambda>p k. p),
     bls_G1_Neg = (\<lambda>p. p),
     bls_G1_Marshal = (\<lambda>a. be_bytes 48 (g1_X a) @ be_bytes 48 (g1_Y a)),
     bls_G2_Marshal = (\<lambda>b. be_bytes 48 (X_A1 b) @ be_bytes 48 (X_A0 b) @
       be_bytes 48 (Y_A1 b) @ be_bytes 48 (Y_A0 b)),
     bls_fp_size = 48,
     bls_fp_SetBytes = be_val,
     bls_fp_PutElement = (\<lambda>e. be_bytes 48 e),
     sha256_Sum256 = (\<lambda>d. be_bytes 32 (be_val d)),
     kzg_BlobToCommitment = (\<lambda>b. Some (replicate 48 0)),
     kzg_ComputeProof = (\<lambda>b z. Some (replicate 48 0, replicate 32 0))\<rparr>"

lemma sample_lib_laws: "lib_laws sample_lib"
  by (auto simp: lib_laws_def sample_lib_def)

text \<open>
  \<open>uint32(x.Uint64())\<close> of the source: the low 32 bits of the low 64 bits (the library leaves
  \<open>Uint64\<close> open for larger values; its implementation returns the low word).
\<close>

definition bigUint32 :: "int \<Rightarrow> u32" where
  "bigUint32 x = ucast (of_int x :: u64)"

end
