(* ===== verification/BasicStrategies.thy ===== *)
theory BasicStrategies
  imports Selector Libraries
begin

text \<open>
  The contract of the \<open>Strategy\<close> interface, and the strategies of
  \<open>generator/basic_strategies.go\<close>.  The contract: under the laws of the builder (and what else
  the strategy relies on, the parameter \<open>pre\<close>) a call of \<open>Execute\<close> returns and keeps the
  environment invariant.
\<close>

locale strategy_contract =
  fixes P :: "'p program_api"
    and pre :: "'p env \<Rightarrow> bool"
    and exec :: "'p env \<Rightarrow> 'p env option"
  assumes exec_kept: "program_laws P \<Longrightarrow> pre e \<Longrightarrow> kept P e (exec e)"
begin

lemma exec_returns:
  "program_laws P \<Longrightarrow> pre e \<Longrightarrow> env_ok P e \<Longrightarrow> \<exists>e'. exec e = Some e' \<and> env_ok P e' \<and> env_le P e e'"
  using exec_kept [of e] by (auto simp: kept_def returns_iff)

lemma exec_append:
  "program_laws P \<Longrightarrow> pre e \<Longrightarrow> env_ok P e \<Longrightarrow> exec e = Some e' \<Longrightarrow>
    \<exists>code. Bytes P (env_p e') = Bytes P (env_p e) @ code"
  using exec_returns [of e] by (auto simp: env_le_def prefix_def)

end

subsection \<open>Operands\<close>

definition MaxInt32 :: int where
  "MaxInt32 = 2 ^ 31 - 1"

definition memOffset :: "'p env \<Rightarrow> (int \<times> 'p env) option" where
  "memOffset env = do {
     (v, env) \<leftarrow> liftF MemInt env;
     if \<not> (- (2 ^ 63) \<le> v \<and> v < 2 ^ 63) then Some (MaxInt32, env)
     else (let i = v in
       if i < 0 \<or> i > MaxInt32 then Some (MaxInt32, env) else Some (i, env))
   }"

lemma keptv_memOffset: "keptv P e (memOffset e) (\<lambda>i. 0 \<le> i \<and> i \<le> MaxInt32)"
  unfolding memOffset_def
  by (auto intro!: kept_intro keptv_return simp: MaxInt32_def not_less)

lemmas kept_bind_memOffset [kept_intro] = keptv_memOffset [THEN keptv_bind]

text \<open>Boundary operands (\<open>interestingOperands\<close> of \<open>generator/stack_strategies.go\<close>).\<close>

definition maxUint256 :: int where
  "maxUint256 = 1 * 2 ^ 256 - 1"

definition minInt256 :: int where
  "minInt256 = 1 * 2 ^ 255"

definition interestingOperands :: "int list" where
  "interestingOperands =
     [0, 1, 2, 31, 32, 255, 256, maxUint256, minInt256, minInt256 - 1]"

definition interestingOperand :: "'p env \<Rightarrow> (int \<times> 'p env) option" where
  "interestingOperand env = do {
     (b, env) \<leftarrow> liftF Byte env;
     if b < 64 then liftF BigInt256 env
     else do {
       let choices = interestingOperands;
       (c, env) \<leftarrow> liftF Byte env;
       v \<leftarrow> index choices (unat c mod length choices);
       Some (v, env)
     }
   }"

lemma keptv_pure_bind:
  "m = Some v \<Longrightarrow> keptv P e (k v) Q \<Longrightarrow> keptv P e (m \<bind> k) Q"
  by simp

lemma interestingOperands_range: "v \<in> set interestingOperands \<Longrightarrow> ubits 256 v"
  by (auto simp: interestingOperands_def maxUint256_def minInt256_def ubits_def)

lemma keptv_interestingOperand: "keptv P e (interestingOperand e) (ubits 256)"
proof -
  have "unat (c :: byte) mod length interestingOperands < length interestingOperands" for c
    by (simp add: interestingOperands_def)
  then show ?thesis
    unfolding interestingOperand_def
    by (auto intro!: kept_intro keptv_pure_bind [OF index_Some] keptv_return keptv_liftF_reads
        interestingOperands_range nth_mem)
qed

lemmas kept_bind_operand [kept_intro] = keptv_interestingOperand [THEN keptv_bind]

definition storeValue :: "'p env \<Rightarrow> (int \<times> 'p env) option" where
  "storeValue env = do {
     (b, env) \<leftarrow> liftF Byte env;
     if b < 32 then Some (0, env) else interestingOperand env
   }"

lemma keptv_storeValue: "keptv P e (storeValue e) (ubits 256)"
  unfolding storeValue_def by (auto intro!: kept_intro keptv_return keptv_interestingOperand)

lemmas kept_bind_storeValue [kept_intro] = keptv_storeValue [THEN keptv_bind]

subsection \<open>The strategies\<close>

definition opcodeGenerator_Execute :: "'p program_api \<Rightarrow> 'p env \<Rightarrow> 'p env option" where
  "opcodeGenerator_Execute P env = do {
     (op, env) \<leftarrow> liftF Byte env;
     emit (Op P [op]) env
   }"

definition opcodeGenerator :: "'p program_api \<Rightarrow> 'p strategy" where
  "opcodeGenerator P =
    \<lparr>dynType = OpcodeGenerator, Execute = opcodeGenerator_Execute P,
     Importance = 10, String = ''opcodeGenerator''\<rparr>"

definition opcodeDefined :: "lib \<Rightarrow> bool list" where
  "opcodeDefined X =
     map (\<lambda>i. \<not> sublist ''not defined'' (OpCode_String X (of_nat i))) [0..<256]"

definition validOpcodeGenerator_Execute :: "'p program_api \<Rightarrow> lib \<Rightarrow> 'p env \<Rightarrow> 'p env option" where
  "validOpcodeGenerator_Execute P X env = do {
     (op, env) \<leftarrow> liftF Byte env;
     d \<leftarrow> index (opcodeDefined X) (unat op);
     let op = (if \<not> d then vm_JUMPDEST else op);
     emit (Op P [op]) env
   }"

definition validOpcodeGenerator :: "'p program_api \<Rightarrow> lib \<Rightarrow> 'p strategy" where
  "validOpcodeGenerator P X =
    \<lparr>dynType = ValidOpcodeGenerator, Execute = validOpcodeGenerator_Execute P X,
     Importance = 10, String = ''validOpcodeGenerator''\<rparr>"

definition memStorageGenerator_Execute :: "'p program_api \<Rightarrow> 'p env \<Rightarrow> 'p env option" where
  "memStorageGenerator_Execute P env = do {
     (memStart, env) \<leftarrow> memOffset env;
     (memSize, env) \<leftarrow> liftF Byte env;
     (startSlot, env) \<leftarrow> memOffset env;
     emit (MemToStorage P memStart (uint memSize) startSlot) env
   }"

definition memStorageGenerator :: "'p program_api \<Rightarrow> 'p strategy" where
  "memStorageGenerator P =
    \<lparr>dynType = MemStorageGenerator, Execute = memStorageGenerator_Execute P,
     Importance = 1, String = ''memStorageGenerator''\<rparr>"

definition mstoreGenerator_Execute :: "'p program_api \<Rightarrow> 'p env \<Rightarrow> 'p env option" where
  "mstoreGenerator_Execute P env = do {
     (d, env) \<leftarrow> liftF ByteSlice256 env;
     (m, env) \<leftarrow> liftF MemInt env;
     let memStart = bigUint32 m;
     emit (Mstore P d memStart) env
   }"

definition mstoreGenerator :: "'p program_api \<Rightarrow> 'p strategy" where
  "mstoreGenerator P =
    \<lparr>dynType = MstoreGenerator, Execute = mstoreGenerator_Execute P,
     Importance = 3, String = ''mstoreGenerator''\<rparr>"

definition sstoreGenerator_Execute :: "'p program_api \<Rightarrow> 'p env \<Rightarrow> 'p env option" where
  "sstoreGenerator_Execute P env = do {
     (m, env) \<leftarrow> liftF MemInt env;
     let slot = bigUint32 m;
     (v, env) \<leftarrow> storeValue env;
     emit (Sstore P (GoUint32 slot) (GoBig v)) env
   }"

definition sstoreGenerator :: "'p program_api \<Rightarrow> 'p strategy" where
  "sstoreGenerator P =
    \<lparr>dynType = SstoreGenerator, Execute = sstoreGenerator_Execute P,
     Importance = 3, String = ''sstoreGenerator''\<rparr>"

definition tstoreGenerator_Execute :: "'p program_api \<Rightarrow> 'p env \<Rightarrow> 'p env option" where
  "tstoreGenerator_Execute P env = do {
     (m, env) \<leftarrow> liftF MemInt env;
     let slot = bigUint32 m;
     (v, env) \<leftarrow> storeValue env;
     emit (Tstore P (GoUint32 slot) (GoBig v)) env
   }"

definition tstoreGenerator :: "'p program_api \<Rightarrow> 'p strategy" where
  "tstoreGenerator P =
    \<lparr>dynType = TstoreGenerator, Execute = tstoreGenerator_Execute P,
     Importance = 3, String = ''tstoreGenerator''\<rparr>"

definition returnDataGenerator_Execute :: "'p program_api \<Rightarrow> 'p env \<Rightarrow> 'p env option" where
  "returnDataGenerator_Execute P env = do {
     (d, env) \<leftarrow> liftF ByteSlice256 env;
     emit (ReturnData P d) env
   }"

definition returnDataGenerator :: "'p program_api \<Rightarrow> 'p strategy" where
  "returnDataGenerator P =
    \<lparr>dynType = ReturnDataGenerator, Execute = returnDataGenerator_Execute P,
     Importance = 1, String = ''returnDataGenerator''\<rparr>"

definition returnGenerator_Execute :: "'p program_api \<Rightarrow> 'p env \<Rightarrow> 'p env option" where
  "returnGenerator_Execute P env = do {
     (offset, env) \<leftarrow> memOffset env;
     (len, env) \<leftarrow> memOffset env;
     emit (Return P offset len) env
   }"

definition returnGenerator :: "'p program_api \<Rightarrow> 'p strategy" where
  "returnGenerator P =
    \<lparr>dynType = ReturnGenerator, Execute = returnGenerator_Execute P,
     Importance = 1, String = ''returnGenerator''\<rparr>"

definition pushGenerator_Execute :: "'p program_api \<Rightarrow> 'p env \<Rightarrow> 'p env option" where
  "pushGenerator_Execute P env = do {
     (v, env) \<leftarrow> interestingOperand env;
     emit (Push P (GoBig v)) env
   }"

definition pushGenerator :: "'p program_api \<Rightarrow> 'p strategy" where
  "pushGenerator P =
    \<lparr>dynType = PushGenerator, Execute = pushGenerator_Execute P,
     Importance = 4, String = ''pushGenerator''\<rparr>"

definition hashAndStoreGenerator_Execute :: "'p program_api \<Rightarrow> 'p env \<Rightarrow> 'p env option" where
  "hashAndStoreGenerator_Execute P env =
     emit (chain [Op P [vm_RETURNDATASIZE], Push P (GoInt 0), Op P [vm_MSIZE],
       Op P [vm_RETURNDATACOPY], Op P [vm_MSIZE], Push P (GoInt 0), Op P [vm_KECCAK256],
       Op P [vm_DUP1], Op P [vm_SSTORE]]) env"

definition hashAndStoreGenerator :: "'p program_api \<Rightarrow> 'p strategy" where
  "hashAndStoreGenerator P =
    \<lparr>dynType = HashAndStoreGenerator, Execute = hashAndStoreGenerator_Execute P,
     Importance = 2, String = ''hashAndStoreGenerator''\<rparr>"

definition mloadGenerator_Execute :: "'p program_api \<Rightarrow> 'p env \<Rightarrow> 'p env option" where
  "mloadGenerator_Execute P env = do {
     (m, env) \<leftarrow> liftF MemInt env;
     let offset = bigUint32 m;
     env \<leftarrow> emit (Push P (GoUint32 offset)) env;
     emit (Op P [vm_MLOAD]) env
   }"

definition mloadGenerator :: "'p program_api \<Rightarrow> 'p strategy" where
  "mloadGenerator P =
    \<lparr>dynType = MloadGenerator, Execute = mloadGenerator_Execute P,
     Importance = 1, String = ''mloadGenerator''\<rparr>"

definition sloadGenerator_Execute :: "'p program_api \<Rightarrow> 'p env \<Rightarrow> 'p env option" where
  "sloadGenerator_Execute P env = do {
     (m, env) \<leftarrow> liftF MemInt env;
     let offset = bigUint32 m;
     env \<leftarrow> emit (Push P (GoUint32 offset)) env;
     emit (Op P [vm_SLOAD]) env
   }"

definition sloadGenerator :: "'p program_api \<Rightarrow> 'p strategy" where
  "sloadGenerator P =
    \<lparr>dynType = SloadGenerator, Execute = sloadGenerator_Execute P,
     Importance = 1, String = ''sloadGenerator''\<rparr>"

definition tloadGenerator_Execute :: "'p program_api \<Rightarrow> 'p env \<Rightarrow> 'p env option" where
  "tloadGenerator_Execute P env = do {
     (m, env) \<leftarrow> liftF MemInt env;
     let offset = bigUint32 m;
     env \<leftarrow> emit (Push P (GoUint32 offset)) env;
     emit (Op P [vm_TLOAD]) env
   }"

definition tloadGenerator :: "'p program_api \<Rightarrow> 'p strategy" where
  "tloadGenerator P =
    \<lparr>dynType = TloadGenerator, Execute = tloadGenerator_Execute P,
     Importance = 1, String = ''tloadGenerator''\<rparr>"

definition blobhashGenerator_Execute :: "'p program_api \<Rightarrow> 'p env \<Rightarrow> 'p env option" where
  "blobhashGenerator_Execute P env = do {
     (m, env) \<leftarrow> liftF MemInt env;
     let offset = bigUint32 m;
     env \<leftarrow> emit (Push P (GoUint32 offset)) env;
     emit (Op P [vm_BLOBHASH]) env
   }"

definition blobhashGenerator :: "'p program_api \<Rightarrow> 'p strategy" where
  "blobhashGenerator P =
    \<lparr>dynType = BlobhashGenerator, Execute = blobhashGenerator_Execute P,
     Importance = 1, String = ''blobhashGenerator''\<rparr>"

definition basicStrategies :: "'p program_api \<Rightarrow> 'p strategy list" where
  "basicStrategies P =
    [opcodeGenerator P, memStorageGenerator P, mstoreGenerator P, sstoreGenerator P,
     tstoreGenerator P, returnDataGenerator P, returnGenerator P, pushGenerator P,
     hashAndStoreGenerator P, mloadGenerator P, sloadGenerator P, tloadGenerator P,
     blobhashGenerator P]"

subsection \<open>Every basic strategy meets the contract\<close>

interpretation opcode_s: strategy_contract P "\<lambda>_. True" "opcodeGenerator_Execute P" for P
  by unfold_locales (auto simp: opcodeGenerator_Execute_def intro!: kept_intro grow_intro)

lemma index_opcodeDefined:
  "index (opcodeDefined X) (unat op) = Some (\<not> sublist ''not defined'' (OpCode_String X op))"
  using unat_byte [of op] by (simp add: opcodeDefined_def)

interpretation validOpcode_s: strategy_contract P "\<lambda>_. True" "validOpcodeGenerator_Execute P X" for P X
  by unfold_locales
    (auto simp: validOpcodeGenerator_Execute_def index_opcodeDefined intro!: kept_intro grow_intro)

interpretation memStorage_s: strategy_contract P "\<lambda>_. True" "memStorageGenerator_Execute P" for P
  by unfold_locales (auto simp: memStorageGenerator_Execute_def intro!: kept_intro grow_intro)

interpretation mstore_s: strategy_contract P "\<lambda>_. True" "mstoreGenerator_Execute P" for P
  by unfold_locales (auto simp: mstoreGenerator_Execute_def intro!: kept_intro grow_intro)

interpretation sstore_s: strategy_contract P "\<lambda>_. True" "sstoreGenerator_Execute P" for P
  by unfold_locales (auto simp: sstoreGenerator_Execute_def intro!: kept_intro grow_intro)

interpretation tstore_s: strategy_contract P "\<lambda>_. True" "tstoreGenerator_Execute P" for P
  by unfold_locales (auto simp: tstoreGenerator_Execute_def intro!: kept_intro grow_intro)

interpretation returnData_s: strategy_contract P "\<lambda>_. True" "returnDataGenerator_Execute P" for P
  by unfold_locales (auto simp: returnDataGenerator_Execute_def intro!: kept_intro grow_intro)

interpretation return_s: strategy_contract P "\<lambda>_. True" "returnGenerator_Execute P" for P
  by unfold_locales (auto simp: returnGenerator_Execute_def intro!: kept_intro grow_intro)

interpretation push_s: strategy_contract P "\<lambda>_. True" "pushGenerator_Execute P" for P
  by unfold_locales (auto simp: pushGenerator_Execute_def intro!: kept_intro grow_intro)

interpretation hashAndStore_s: strategy_contract P "\<lambda>_. True" "hashAndStoreGenerator_Execute P" for P
  by unfold_locales (auto simp: hashAndStoreGenerator_Execute_def intro!: kept_intro grow_intro)

interpretation mload_s: strategy_contract P "\<lambda>_. True" "mloadGenerator_Execute P" for P
  by unfold_locales (auto simp: mloadGenerator_Execute_def intro!: kept_intro grow_intro)

interpretation sload_s: strategy_contract P "\<lambda>_. True" "sloadGenerator_Execute P" for P
  by unfold_locales (auto simp: sloadGenerator_Execute_def intro!: kept_intro grow_intro)

interpretation tload_s: strategy_contract P "\<lambda>_. True" "tloadGenerator_Execute P" for P
  by unfold_locales (auto simp: tloadGenerator_Execute_def intro!: kept_intro grow_intro)

interpretation blobhash_s: strategy_contract P "\<lambda>_. True" "blobhashGenerator_Execute P" for P
  by unfold_locales (auto simp: blobhashGenerator_Execute_def intro!: kept_intro grow_intro)

lemma basicStrategies_kept:
  "program_laws P \<Longrightarrow> st \<in> set (basicStrategies P) \<Longrightarrow> kept P e (Execute st e)"
  unfolding basicStrategies_def
  by (auto simp: opcodeGenerator_def memStorageGenerator_def mstoreGenerator_def
      sstoreGenerator_def tstoreGenerator_def returnDataGenerator_def returnGenerator_def
      pushGenerator_def hashAndStoreGenerator_def mloadGenerator_def sloadGenerator_def
      tloadGenerator_def blobhashGenerator_def
      intro: opcode_s.exec_kept memStorage_s.exec_kept mstore_s.exec_kept sstore_s.exec_kept
      tstore_s.exec_kept returnData_s.exec_kept return_s.exec_kept push_s.exec_kept
      hashAndStore_s.exec_kept mload_s.exec_kept sload_s.exec_kept tload_s.exec_kept
      blobhash_s.exec_kept)

end
