(* ===== verification/StackStrategies.thy ===== *)
theory StackStrategies
  imports BasicStrategies EVM
begin

text \<open>
  The stack-aware strategies (\<open>generator/stack_strategies.go\<close>): operands are pushed until the
  modelled stack holds the inputs of an opcode, then the opcode is emitted.  They are verified
  against the stack effects of the EVM: whatever the real stack holds, the emitted code does not
  underflow and leaves one more item.  (The operand tables of the file are in
  \<open>BasicStrategies\<close>, whose strategies use them too.)
\<close>

definition pushOperand :: "'p program_api \<Rightarrow> 'p env \<Rightarrow> 'p env option" where
  "pushOperand P env = do {
     (v, env) \<leftarrow> interestingOperand env;
     env \<leftarrow> emit (Push P (GoBig v)) env;
     Some (env\<lparr>stackHeight := stackHeight env + 1\<rparr>)
   }"

partial_function (option) ensureStack ::
    "'p program_api \<Rightarrow> int \<Rightarrow> 'p env \<Rightarrow> 'p env option" where
  "ensureStack P n env =
     (if stackHeight env < n then do {
        env \<leftarrow> pushOperand P env;
        ensureStack P n env
      } else Some env)"

definition applyStackDelta :: "int \<Rightarrow> int \<Rightarrow> 'p env \<Rightarrow> 'p env" where
  "applyStackDelta k m env =
     (let h = stackHeight env - k + m;
          h = (if h < 0 then 0 else h)
      in env\<lparr>stackHeight := h\<rparr>)"

record stackOp =
  op :: opcode
  pop :: int
  push :: int

definition stackAwareOps :: "stackOp list" where
  "stackAwareOps =
     map (\<lambda>(b, k, m). \<lparr>op = b, pop = k, push = m\<rparr>)
      [(vm_ADD, 2, 1), (vm_MUL, 2, 1), (vm_SUB, 2, 1), (vm_DIV, 2, 1),
       (vm_SDIV, 2, 1), (vm_MOD, 2, 1), (vm_SMOD, 2, 1), (vm_EXP, 2, 1),
       (vm_SIGNEXTEND, 2, 1), (vm_LT, 2, 1), (vm_GT, 2, 1), (vm_SLT, 2, 1),
       (vm_SGT, 2, 1), (vm_EQ, 2, 1), (vm_AND, 2, 1), (vm_OR, 2, 1),
       (vm_XOR, 2, 1), (vm_BYTE, 2, 1), (vm_SHL, 2, 1), (vm_SHR, 2, 1),
       (vm_SAR, 2, 1),
       (vm_ADDMOD, 3, 1), (vm_MULMOD, 3, 1),
       (vm_ISZERO, 1, 1), (vm_NOT, 1, 1)]"

definition stackAwareGenerator_Execute :: "'p program_api \<Rightarrow> 'p env \<Rightarrow> 'p env option" where
  "stackAwareGenerator_Execute P env = do {
     let env = env\<lparr>stackHeight := 0\<rparr>;
     (b, env) \<leftarrow> liftF Byte env;
     so \<leftarrow> index stackAwareOps (unat b mod length stackAwareOps);
     env \<leftarrow> ensureStack P (pop so) env;
     env \<leftarrow> emit (Op P [op so]) env;
     Some (applyStackDelta (pop so) (push so) env)
   }"

definition stackAwareGenerator :: "'p program_api \<Rightarrow> 'p strategy" where
  "stackAwareGenerator P =
    \<lparr>dynType = StackAwareGenerator, Execute = stackAwareGenerator_Execute P,
     Importance = 12, String = ''stackAwareGenerator''\<rparr>"

text \<open>
  The chain of builder calls of each case: \<open>pushes\<close> are the operands in the order they are
  pushed and \<open>o1\<close> is the opcode.
\<close>

definition arith_case ::
    "'p program_api \<Rightarrow> int list \<Rightarrow> opcode \<Rightarrow> 'p env \<Rightarrow> 'p env option" where
  "arith_case P pushes o1 env = emit (chain (map (\<lambda>v. Push P (GoBig v)) pushes @ [Op P [o1]])) env"

definition arithEdgeGenerator_switch :: "'p program_api \<Rightarrow> 'p env \<Rightarrow> 'p env option" where
  "arithEdgeGenerator_switch P env = do {
     (b, env) \<leftarrow> liftF Byte env;
     let k = b mod 9;
     if k = 0 then arith_case P [0, maxUint256, maxUint256] vm_ADDMOD env
     else if k = 1 then arith_case P [0, maxUint256, maxUint256] vm_MULMOD env
     else if k = 2 then arith_case P [maxUint256, minInt256] vm_SDIV env
     else if k = 3 then arith_case P [maxUint256, minInt256] vm_SMOD env
     else if k = 4 then arith_case P [0, 0] vm_EXP env
     else if k = 5 then arith_case P [maxUint256, 2] vm_EXP env
     else if k = 6 then do {
       (big, env) \<leftarrow> liftF Bool env;
       let shift = (if big then 256 else 255);
       (s, env) \<leftarrow> liftF Byte env;
       let o1 = (if s mod 3 = 1 then vm_SHR else if s mod 3 = 2 then vm_SAR else vm_SHL);
       arith_case P [minInt256, shift] o1 env
     }
     else if k = 7 then arith_case P [maxUint256, 0] vm_SIGNEXTEND env
     else if k = 8 then do {
       (big, env) \<leftarrow> liftF Bool env;
       let idx = (if big then 32 else 31);
       arith_case P [maxUint256, idx] vm_BYTE env
     }
     else Some env
   }"

definition arithEdgeGenerator_Execute :: "'p program_api \<Rightarrow> 'p env \<Rightarrow> 'p env option" where
  "arithEdgeGenerator_Execute P env = do {
     env \<leftarrow> arithEdgeGenerator_switch P env;
     Some (env\<lparr>stackHeight := stackHeight env + 1\<rparr>)
   }"

definition arithEdgeGenerator :: "'p program_api \<Rightarrow> 'p strategy" where
  "arithEdgeGenerator P =
    \<lparr>dynType = ArithEdgeGenerator, Execute = arithEdgeGenerator_Execute P,
     Importance = 6, String = ''arithEdgeGenerator''\<rparr>"

definition stackStrategies :: "'p program_api \<Rightarrow> 'p strategy list" where
  "stackStrategies P = [stackAwareGenerator P, arithEdgeGenerator P]"

subsection \<open>Changing the modelled height keeps the invariant\<close>

lemma kept_applyStackDelta [kept_intro]: "kept P e (Some (applyStackDelta k m e))"
  unfolding applyStackDelta_def Let_def by (rule kept_set_height) simp

subsection \<open>Pushing operands\<close>

lemma interestingOperand_spec:
  assumes "filler_ok (env_f e)"
  shows "\<exists>v n. interestingOperand e = Some (v, e\<lparr>env_f := advance n (env_f e)\<rparr>)"
proof -
  have len: "unat (c :: byte) mod length interestingOperands < length interestingOperands" for c
    by (simp add: interestingOperands_def)
  define f1 where "f1 = advance 1 (env_f e)"
  have ok: "filler_ok f1" using assms by (simp add: f1_def)
  have 1: "liftF Byte e = Some (tape (env_f e) 0, e\<lparr>env_f := f1\<rparr>)"
    unfolding f1_def by (rule liftF_Byte [OF assms])
  have 2: "liftF Byte (e\<lparr>env_f := f1\<rparr>) = Some (tape f1 0, e\<lparr>env_f := advance 2 (env_f e)\<rparr>)"
    using liftF_spec [of Byte "e\<lparr>env_f := f1\<rparr>"] Byte_spec [OF ok] advance_advance [OF assms, of 1 1]
    by (simp add: f1_def numeral_2_eq_2)
  have 3: "liftF BigInt256 (e\<lparr>env_f := f1\<rparr>) =
      Some (int (be_val (upcoming 32 f1)), e\<lparr>env_f := advance 33 (env_f e)\<rparr>)"
    using liftF_spec [of BigInt256 "e\<lparr>env_f := f1\<rparr>"] BigInt256_spec [OF ok]
      advance_advance [OF assms, of 32 1] by (simp add: f1_def)
  show ?thesis
    unfolding interestingOperand_def using len
    by (auto simp: 1 2 3 Let_def)
qed

lemma pushOperand_spec:
  assumes "program_laws P" and "filler_ok (env_f e)"
  shows "\<exists>n p c. pushOperand P e = Some (e\<lparr>env_f := advance n (env_f e), env_p := p,
    stackHeight := stackHeight e + 1\<rparr>) \<and> is_push c \<and> Bytes P p = Bytes P (env_p e) @ c"
proof -
  obtain v n where v: "interestingOperand e = Some (v, e\<lparr>env_f := advance n (env_f e)\<rparr>)"
    using interestingOperand_spec [OF assms(2)] by blast
  obtain c where c: "is_push c" "Bytes P (Push P (GoBig v) (env_p e)) = Bytes P (env_p e) @ c"
    using Push_is_push [OF assms(1)] by blast
  show ?thesis
    using c by (intro exI [of _ n] exI [of _ "Push P (GoBig v) (env_p e)"] exI [of _ c])
      (simp add: pushOperand_def v emit_def)
qed

lemma ensureStack_spec:
  assumes "program_laws P"
  shows "filler_ok (env_f e) \<Longrightarrow> stackHeight e + int k = n \<Longrightarrow>
    \<exists>i p cs. ensureStack P n e = Some (e\<lparr>env_f := advance i (env_f e), env_p := p,
      stackHeight := n\<rparr>) \<and> list_all is_push cs \<and> length cs = k \<and>
      Bytes P p = Bytes P (env_p e) @ concat cs"
proof (induction k arbitrary: e)
  case 0
  have "e\<lparr>env_f := advance 0 (env_f e), env_p := env_p e, stackHeight := stackHeight e\<rparr> = e"
    using 0 by (simp add: advance_0)
  with 0 show ?case
    by (intro exI [of _ 0] exI [of _ "env_p e"] exI [of _ "[]"]) (simp add: ensureStack.simps)
next
  case (Suc k)
  obtain i p c where *: "pushOperand P e = Some (e\<lparr>env_f := advance i (env_f e), env_p := p,
      stackHeight := stackHeight e + 1\<rparr>)" "is_push c" "Bytes P p = Bytes P (env_p e) @ c"
    using pushOperand_spec [OF assms Suc.prems(1)] by blast
  define e1 where "e1 = e\<lparr>env_f := advance i (env_f e), env_p := p, stackHeight := stackHeight e + 1\<rparr>"
  have "filler_ok (env_f e1)" "stackHeight e1 + int k = n"
    using Suc.prems by (simp_all add: e1_def)
  from Suc.IH [OF this] obtain j q cs where IH:
    "ensureStack P n e1 = Some (e1\<lparr>env_f := advance j (env_f e1), env_p := q, stackHeight := n\<rparr>)"
    "list_all is_push cs" "length cs = k" "Bytes P q = Bytes P (env_p e1) @ concat cs" by blast
  have "stackHeight e < n" using Suc.prems(2) by simp
  then have "ensureStack P n e = ensureStack P n e1"
    by (subst ensureStack.simps) (simp add: * e1_def)
  with IH * show ?case
    by (intro exI [of _ "i + j"] exI [of _ q] exI [of _ "c # cs"])
      (simp add: e1_def advance_advance [OF Suc.prems(1)])
qed

subsection \<open>The table agrees with the EVM\<close>

lemma stackAwareOps_all:
  "list_all (\<lambda>so. pop so \<in> {1, 2, 3} \<and> push so = 1 \<and> effect (op so) = Some (nat (pop so), 1) \<and>
     push_len (op so) = 0) stackAwareOps"
  by code_simp

lemma stackAwareOps_effect:
  "so \<in> set stackAwareOps \<Longrightarrow>
    0 \<le> pop so \<and> push so = 1 \<and> effect (op so) = Some (nat (pop so), 1) \<and> push_len (op so) = 0"
  using stackAwareOps_all unfolding list_all_iff by fastforce

lemma stackAware_spec:
  assumes "program_laws P" and "filler_ok (env_f e)"
  shows "\<exists>e' code. stackAwareGenerator_Execute P e = Some e' \<and>
    Bytes P (env_p e') = Bytes P (env_p e) @ code \<and> stackHeight e' = 1 \<and>
    (\<forall>h rest. run_height (code @ rest) h = run_height rest (h + 1)) \<and>
    (\<exists>n p. e' = e\<lparr>env_f := advance n (env_f e), env_p := p, stackHeight := 1\<rparr>)"
proof -
  define b where "b = tape (env_f e) 0"
  define so where "so = stackAwareOps ! (unat b mod length stackAwareOps)"
  define e1 where "e1 = e\<lparr>stackHeight := 0, env_f := advance 1 (env_f e)\<rparr>"
  have lt: "unat b mod length stackAwareOps < length stackAwareOps"
    by (simp add: stackAwareOps_def)
  then have so: "0 \<le> pop so" "push so = 1" "effect (op so) = Some (nat (pop so), 1)"
    "push_len (op so) = 0"
    using stackAwareOps_effect [OF nth_mem [OF lt]] by (simp_all add: so_def)
  have 1: "liftF Byte (e\<lparr>stackHeight := 0\<rparr>) = Some (b, e1)"
    using liftF_Byte [of "e\<lparr>stackHeight := 0\<rparr>"] assms(2)
    by (simp add: b_def e1_def)
  have "filler_ok (env_f e1)" "stackHeight e1 + int (nat (pop so)) = pop so"
    using assms(2) so(1) by (simp_all add: e1_def)
  from ensureStack_spec [OF assms(1) this] obtain i p cs where cs:
    "ensureStack P (pop so) e1 =
       Some (e1\<lparr>env_f := advance i (env_f e1), env_p := p, stackHeight := pop so\<rparr>)"
    "list_all is_push cs" "length cs = nat (pop so)"
    "Bytes P p = Bytes P (env_p e) @ concat cs" by (auto simp: e1_def)
  define e' where "e' = e\<lparr>env_f := advance (1 + i) (env_f e), env_p := Op P [op so] p, stackHeight := 1\<rparr>"
  have "stackAwareGenerator_Execute P e = Some e'"
    using so(2) cs(1) by (simp add: stackAwareGenerator_Execute_def 1 index_Some [OF lt]
        applyStackDelta_def emit_def Let_def flip: so_def)
      (simp add: e1_def e'_def advance_advance [OF assms(2)])
  moreover have "Bytes P (env_p e') = Bytes P (env_p e) @ (concat cs @ [op so])"
    by (simp add: e'_def Bytes_Op [OF assms(1)] cs(4))
  moreover have "run_height ((concat cs @ [op so]) @ rest) h = run_height rest (h + 1)" for h rest
    using run_height_pushes [OF cs(2), of "op so # rest" h] so cs(3) by simp
  moreover have "stackHeight e' = 1"
    "\<exists>n p. e' = e\<lparr>env_f := advance n (env_f e), env_p := p, stackHeight := 1\<rparr>"
    unfolding e'_def by (simp, blast)
  ultimately show ?thesis by blast
qed

lemma kept_stackAware:
  assumes "program_laws P"
  shows "kept P e (stackAwareGenerator_Execute P e)"
  unfolding kept_def
proof
  assume ok: "env_ok P e"
  then have "filler_ok (env_f e)" by (simp add: env_ok_def)
  from stackAware_spec [OF assms this] obtain code n p where
    e': "stackAwareGenerator_Execute P e =
      Some (e\<lparr>env_f := advance n (env_f e), env_p := p, stackHeight := 1\<rparr>)"
    and code: "Bytes P p = Bytes P (env_p e) @ code" by force
  have "labels_ok (Bytes P p) (labels e)"
    using ok by (auto simp: env_ok_def code intro: labels_ok_mono)
  with ok show "returns (stackAwareGenerator_Execute P e) (\<lambda>e'. env_ok P e' \<and> env_le P e e')"
    by (simp add: e' env_ok_def env_le_def code)
qed

interpretation stackAware_s: strategy_contract P "\<lambda>_. True" "stackAwareGenerator_Execute P" for P
  by unfold_locales (rule kept_stackAware)

subsection \<open>Arithmetic edge cases\<close>

lemma kept_bind_arith_case [kept_intro]:
  "program_laws P \<Longrightarrow> (\<And>e'. kept P e' (k e')) \<Longrightarrow> kept P e (arith_case P vs o1 e \<bind> k)"
  unfolding arith_case_def by (rule kept_bind [OF kept_emit]) (auto intro!: grow_intro)

lemma kept_arith_case [kept_intro]: "program_laws P \<Longrightarrow> kept P e (arith_case P vs o1 e)"
  unfolding arith_case_def by (rule kept_emit) (auto intro!: grow_intro)

lemma kept_arithEdge_switch: "program_laws P \<Longrightarrow> kept P e (arithEdgeGenerator_switch P e)"
  unfolding arithEdgeGenerator_switch_def by (auto intro!: kept_intro)

lemmas kept_bind_arithEdge_switch [kept_intro] = kept_bind [OF kept_arithEdge_switch]

interpretation arithEdge_s: strategy_contract P "\<lambda>_. True" "arithEdgeGenerator_Execute P" for P
  by unfold_locales (auto simp: arithEdgeGenerator_Execute_def intro!: kept_intro)

lemma arith_case_spec:
  assumes "program_laws P" and "effect o1 = Some (length vs, 1)" and "push_len o1 = 0"
  shows "\<exists>p code. arith_case P vs o1 e = Some (e\<lparr>env_p := p\<rparr>) \<and>
    Bytes P p = Bytes P (env_p e) @ code \<and>
    (\<forall>h rest. run_height (code @ rest) h = run_height rest (h + 1))"
proof -
  have "\<exists>cs. list_all is_push cs \<and> length cs = length vs \<and>
      Bytes P (chain (map (\<lambda>v. Push P (GoBig v)) vs) p) = Bytes P p @ concat cs" for p
  proof (induction vs arbitrary: p)
    case (Cons v vs)
    obtain c where c: "is_push c" "Bytes P (Push P (GoBig v) p) = Bytes P p @ c"
      using Push_is_push [OF assms(1)] by blast
    from Cons.IH [of "Push P (GoBig v) p"] obtain cs where
      "list_all is_push cs" "length cs = length vs" "Bytes P (chain (map (\<lambda>v. Push P (GoBig v)) vs)
        (Push P (GoBig v) p)) = Bytes P (Push P (GoBig v) p) @ concat cs" by blast
    with c show ?case by (intro exI [of _ "c # cs"]) simp
  qed simp
  from this [of "env_p e"] obtain cs where cs: "list_all is_push cs" "length cs = length vs"
    "Bytes P (chain (map (\<lambda>v. Push P (GoBig v)) vs) (env_p e)) = Bytes P (env_p e) @ concat cs"
    by blast
  have "run_height ((concat cs @ [o1]) @ rest) h = run_height rest (h + 1)" for h rest
    using run_height_pushes [OF cs(1), of "o1 # rest" h] assms(2,3) cs(2) by simp
  then show ?thesis
    by (auto simp: arith_case_def emit_def chain_append Bytes_Op [OF assms(1)] cs(3)
        intro!: exI [of _ "concat cs @ [o1]"])
qed

lemma edge_effects:
  "effect vm_ADDMOD = Some (3, 1)" "effect vm_MULMOD = Some (3, 1)" "effect vm_SDIV = Some (2, 1)"
  "effect vm_SMOD = Some (2, 1)" "effect vm_EXP = Some (2, 1)" "effect vm_SHL = Some (2, 1)"
  "effect vm_SHR = Some (2, 1)" "effect vm_SAR = Some (2, 1)"
  "effect vm_SIGNEXTEND = Some (2, 1)" "effect vm_BYTE = Some (2, 1)"
  by (simp_all add: effect_def)

lemma edge_push_len:
  "push_len vm_ADDMOD = 0" "push_len vm_MULMOD = 0" "push_len vm_SDIV = 0" "push_len vm_SMOD = 0"
  "push_len vm_EXP = 0" "push_len vm_SHL = 0" "push_len vm_SHR = 0" "push_len vm_SAR = 0"
  "push_len vm_SIGNEXTEND = 0" "push_len vm_BYTE = 0"
  by (simp_all add: push_len_def)

text \<open>What every branch of the switch does to the environment and to a real stack.\<close>

definition pushes_one :: "'p program_api \<Rightarrow> 'p env \<Rightarrow> 'p env option \<Rightarrow> bool" where
  "pushes_one P e m \<longleftrightarrow> (\<exists>f p code. m = Some (e\<lparr>env_f := f, env_p := p\<rparr>) \<and>
     Bytes P p = Bytes P (env_p e) @ code \<and>
     (\<forall>h rest. run_height (code @ rest) h = run_height rest (h + 1)))"

lemma pushes_one_case:
  "program_laws P \<Longrightarrow> effect o1 = Some (length vs, 1) \<Longrightarrow> push_len o1 = 0 \<Longrightarrow>
    pushes_one P e (arith_case P vs o1 e)"
proof -
  assume "program_laws P" "effect o1 = Some (length vs, 1)" "push_len o1 = 0"
  from arith_case_spec [OF this, of e] obtain p code where
    "arith_case P vs o1 e = Some (e\<lparr>env_p := p\<rparr>)" "Bytes P p = Bytes P (env_p e) @ code"
    "\<forall>h rest. run_height (code @ rest) h = run_height rest (h + 1)" by blast
  moreover have "e\<lparr>env_p := p\<rparr> = e\<lparr>env_f := env_f e, env_p := p\<rparr>" by simp
  ultimately show ?thesis unfolding pushes_one_def by metis
qed

lemma pushes_one_read:
  assumes "filler_ok (env_f e)" and "fills (env_f e) (m (env_f e)) (\<lambda>_. True)"
    and "\<And>a e'. filler_ok (env_f e') \<Longrightarrow> pushes_one P e' (k a e')"
  shows "pushes_one P e (liftF m e \<bind> (\<lambda>(a, e'). k a e'))"
proof -
  from assms(1,2) obtain a n where "m (env_f e) = Some (a, advance n (env_f e))"
    by (auto simp: fills_def returns_iff)
  then show ?thesis
    using assms(3) [of "e\<lparr>env_f := advance n (env_f e)\<rparr>" a] assms(1)
    by (simp add: liftF_def pushes_one_def)
qed

lemma pushes_one_reads:
  assumes "filler_ok (env_f e)"
  shows "(\<And>a e'. filler_ok (env_f e') \<Longrightarrow> pushes_one P e' (k a e')) \<Longrightarrow>
      pushes_one P e (liftF Byte e \<bind> (\<lambda>(a, e'). k a e'))"
    and "(\<And>a e'. filler_ok (env_f e') \<Longrightarrow> pushes_one P e' (l a e')) \<Longrightarrow>
      pushes_one P e (liftF Bool e \<bind> (\<lambda>(a, e'). l a e'))"
  using pushes_one_read [of e Byte P k, OF assms fills_Byte]
    pushes_one_read [of e Bool P l, OF assms fills_Bool] by blast+

lemma mod_9_cases: "(b :: byte) mod 9 \<in> {0, 1, 2, 3, 4, 5, 6, 7, 8}"
proof -
  have "b mod 9 < 9" by (rule word_mod_less_divisor) simp
  then have "unat (b mod 9) < 9" by (simp add: word_less_nat_alt)
  then have "unat (b mod 9) \<in> {0, 1, 2, 3, 4, 5, 6, 7, 8}" by auto
  then show ?thesis by (auto simp: word_unat_eq_iff)
qed

lemma arithEdge_switch_spec:
  assumes "program_laws P" and "filler_ok (env_f e)"
  shows "pushes_one P e (arithEdgeGenerator_switch P e)"
  unfolding arithEdgeGenerator_switch_def
proof (rule pushes_one_reads(1) [OF assms(2)])
  fix b :: byte and e' :: "'a env"
  assume ok: "filler_ok (env_f e')"
  note rule = pushes_one_case [OF assms(1)]
  note effs = edge_effects edge_push_len
  have six: "pushes_one P e' (liftF Bool e' \<bind> (\<lambda>(big, env). let shift = if big then 256 else 255
      in liftF Byte env \<bind> (\<lambda>(s, env). let o1 = if s mod 3 = 1 then vm_SHR
        else if s mod 3 = 2 then vm_SAR else vm_SHL in arith_case P [minInt256, shift] o1 env)))"
    unfolding Let_def
    by (rule pushes_one_reads(2) [OF ok], rule pushes_one_reads(1))
      (auto intro!: rule simp: effs)
  have eight: "pushes_one P e' (liftF Bool e' \<bind> (\<lambda>(big, env). let idx = if big then 32 else 31
      in arith_case P [maxUint256, idx] vm_BYTE env))"
    unfolding Let_def
    by (rule pushes_one_reads(2) [OF ok]) (auto intro!: rule simp: effs)
  show "pushes_one P e' (let k = b mod 9 in
     if k = 0 then arith_case P [0, maxUint256, maxUint256] vm_ADDMOD e'
     else if k = 1 then arith_case P [0, maxUint256, maxUint256] vm_MULMOD e'
     else if k = 2 then arith_case P [maxUint256, minInt256] vm_SDIV e'
     else if k = 3 then arith_case P [maxUint256, minInt256] vm_SMOD e'
     else if k = 4 then arith_case P [0, 0] vm_EXP e'
     else if k = 5 then arith_case P [maxUint256, 2] vm_EXP e'
     else if k = 6 then liftF Bool e' \<bind> (\<lambda>(big, env). let shift = if big then 256 else 255
      in liftF Byte env \<bind> (\<lambda>(s, env). let o1 = if s mod 3 = 1 then vm_SHR
        else if s mod 3 = 2 then vm_SAR else vm_SHL in arith_case P [minInt256, shift] o1 env))
     else if k = 7 then arith_case P [maxUint256, 0] vm_SIGNEXTEND e'
     else if k = 8 then liftF Bool e' \<bind> (\<lambda>(big, env). let idx = if big then 32 else 31
      in arith_case P [maxUint256, idx] vm_BYTE env)
     else Some e')"
  proof -
    define k where "k = b mod 9"
    have "k \<in> {0, 1, 2, 3, 4, 5, 6, 7, 8}" unfolding k_def by (rule mod_9_cases)
    with six eight show ?thesis
      unfolding k_def [symmetric] unfolding Let_def by (auto intro!: rule simp: effs)
  qed
qed

lemma stackStrategies_kept:
  "program_laws P \<Longrightarrow> st \<in> set (stackStrategies P) \<Longrightarrow> kept P e (Execute st e)"
  unfolding stackStrategies_def
  by (auto simp: stackAwareGenerator_def arithEdgeGenerator_def
      intro: stackAware_s.exec_kept arithEdge_s.exec_kept)

subsection \<open>Properties\<close>

text \<open>C6. Whatever ran before and whatever the real stack holds, the code that the stack-aware strategy
  appends never underflows and leaves one more item; the modelled height ends at one.\<close>

theorem stackAware_never_underflows:
  assumes "program_laws P" and "env_ok P e"
  shows "\<exists>e' code. stackAwareGenerator_Execute P e = Some e' \<and>
    Bytes P (env_p e') = Bytes P (env_p e) @ code \<and> stackHeight e' = 1 \<and>
    (\<forall>h. run_height code h = Some (h + 1))"
proof -
  have "filler_ok (env_f e)" using assms(2) by (simp add: env_ok_def)
  from stackAware_spec [OF assms(1) this] obtain e' code where
    e': "stackAwareGenerator_Execute P e = Some e'" "Bytes P (env_p e') = Bytes P (env_p e) @ code"
    "stackHeight e' = 1" and h: "\<forall>h rest. run_height (code @ rest) h = run_height rest (h + 1)" by blast
  have "run_height code h = Some (h + 1)" for h
    using h [rule_format, of "[]" h] by simp
  with e' show ?thesis by blast
qed

theorem stackAware_never_underflows_witness:
  "\<exists>e' code. stackAwareGenerator_Execute sample_program (sample_env [21, 200, 3] (Some 100)) = Some e' \<and>
    Bytes sample_program (env_p e') = code \<and> (\<forall>h. run_height code h = Some (h + 1))"
  using stackAware_never_underflows [OF sample_program_laws sample_env_ok, of "[21, 200, 3]" "Some 100"]
  by (auto simp: sample_program_def)

text \<open>Every arithmetic edge case pushes all operands of its opcode: on any real stack the appended
  code runs without underflow and leaves one more item, which is what the model adds.\<close>

theorem arithEdge_pushes_its_operands:
  assumes "program_laws P" and "env_ok P e"
  shows "\<exists>e' code. arithEdgeGenerator_Execute P e = Some e' \<and>
    Bytes P (env_p e') = Bytes P (env_p e) @ code \<and> stackHeight e' = stackHeight e + 1 \<and>
    (\<forall>h. run_height code h = Some (h + 1))"
proof -
  have "filler_ok (env_f e)" using assms(2) by (simp add: env_ok_def)
  from arithEdge_switch_spec [OF assms(1) this] obtain f p code where
    e': "arithEdgeGenerator_switch P e = Some (e\<lparr>env_f := f, env_p := p\<rparr>)"
    "Bytes P p = Bytes P (env_p e) @ code"
    and h: "\<forall>h rest. run_height (code @ rest) h = run_height rest (h + 1)"
    by (auto simp: pushes_one_def)
  have "run_height code h = Some (h + 1)" for h
    using h [rule_format, of "[]" h] by simp
  with e' show ?thesis by (simp add: arithEdgeGenerator_Execute_def)
qed

theorem arithEdge_pushes_its_operands_witness:
  "\<exists>e' code. arithEdgeGenerator_Execute sample_program (sample_env [8, 200] None) = Some e' \<and>
    Bytes sample_program (env_p e') = code \<and> stackHeight e' = 1 \<and>
    (\<forall>h. run_height code h = Some (h + 1))"
  using arithEdge_pushes_its_operands [OF sample_program_laws sample_env_ok, of "[8, 200]" None]
  by (auto simp: sample_program_def)

end
