(* ===== verification/JumpStrategies.thy ===== *)
theory JumpStrategies
  imports BasicStrategies EVM
begin

text \<open>
  The control-flow strategies (\<open>generator/jump_strategies.go\<close>).  The bounded loop is run on the
  EVM interpreter: from any stack it ends after its iteration count and leaves the stack as it
  was.
\<close>

definition jumpdestGenerator_Execute :: "'p program_api \<Rightarrow> 'p env \<Rightarrow> 'p env option" where
  "jumpdestGenerator_Execute P env = do {
     (pc, env) \<leftarrow> addLabel P env;
     Some env
   }"

definition jumpdestGenerator :: "'p program_api \<Rightarrow> 'p strategy" where
  "jumpdestGenerator P =
    \<lparr>dynType = JumpdestGenerator, Execute = jumpdestGenerator_Execute P,
     Importance = 5, String = ''jumpdestGenerator''\<rparr>"

definition jumpGenerator_Execute :: "'p program_api \<Rightarrow> 'p env \<Rightarrow> 'p env option" where
  "jumpGenerator_Execute P env = do {
     ((dest, ok), env) \<leftarrow> randomLabel env;
     if \<not> ok then do {
       (pc, env) \<leftarrow> addLabel P env;
       Some env
     } else do {
       (b, env) \<leftarrow> liftF Bool env;
       if b then emit (Jump P (GoUint64 dest)) env
       else do {
         (c, env) \<leftarrow> liftF Bool env;
         (condition, env) \<leftarrow> (if c then liftF BigInt32 env else Some (0, env));
         emit (JumpIf P (GoUint64 dest) (GoBig condition)) env
       }
     }
   }"

definition jumpGenerator :: "'p program_api \<Rightarrow> 'p strategy" where
  "jumpGenerator P =
    \<lparr>dynType = JumpGenerator, Execute = jumpGenerator_Execute P,
     Importance = 7, String = ''jumpGenerator''\<rparr>"

definition labelJumpGenerator_Execute :: "'p program_api \<Rightarrow> 'p env \<Rightarrow> 'p env option" where
  "labelJumpGenerator_Execute P env = do {
     ((dest, ok), env) \<leftarrow> randomLabel env;
     if \<not> ok then do {
       (pc, env) \<leftarrow> addLabel P env;
       Some env
     } else do {
       (b, env) \<leftarrow> liftF Bool env;
       if b then do {
         (c, env) \<leftarrow> liftF Bool env;
         let condition = (if c then 1 else 0);
         emit (JumpIf P (GoUint64 dest) (GoBig condition)) env
       } else emit (Jump P (GoUint64 dest)) env
     }
   }"

definition labelJumpGenerator :: "'p program_api \<Rightarrow> 'p strategy" where
  "labelJumpGenerator P =
    \<lparr>dynType = LabelJumpGenerator, Execute = labelJumpGenerator_Execute P,
     Importance = 5, String = ''labelJumpGenerator''\<rparr>"

definition boundedLoopGenerator_Execute :: "'p program_api \<Rightarrow> 'p env \<Rightarrow> 'p env option" where
  "boundedLoopGenerator_Execute P env = do {
     (b, env) \<leftarrow> liftF Byte env;
     let iterations = uint (b mod 16) + 1;
     env \<leftarrow> emit (Push P (GoBig iterations)) env;
     (head, env) \<leftarrow> addLabel P env;
     env \<leftarrow> emit (Op P [vm_GAS, vm_POP]) env;
     env \<leftarrow> emit (Push P (GoBig 1)) env;
     env \<leftarrow> emit (Op P [vm_SWAP1, vm_SUB]) env;
     env \<leftarrow> emit (Op P [vm_DUP1]) env;
     env \<leftarrow> emit (Push P (GoUint64 head)) env;
     env \<leftarrow> emit (Op P [vm_JUMPI]) env;
     emit (Op P [vm_POP]) env
   }"

definition boundedLoopGenerator :: "'p program_api \<Rightarrow> 'p strategy" where
  "boundedLoopGenerator P =
    \<lparr>dynType = BoundedLoopGenerator, Execute = boundedLoopGenerator_Execute P,
     Importance = 4, String = ''boundedLoopGenerator''\<rparr>"

definition jumpStrategies :: "'p program_api \<Rightarrow> 'p strategy list" where
  "jumpStrategies P =
    [jumpdestGenerator P, jumpGenerator P, labelJumpGenerator P, boundedLoopGenerator P]"

subsection \<open>The contract\<close>

interpretation jumpdest_s: strategy_contract P "\<lambda>_. True" "jumpdestGenerator_Execute P" for P
  by unfold_locales (auto simp: jumpdestGenerator_Execute_def intro!: kept_intro)

lemma keptv_condition [kept_intro]:
  "keptv P e (if c then liftF BigInt32 e else Some (0, e)) (\<lambda>_. True)"
  by (auto intro: keptv_return keptv_liftF fills_weaken [OF fills_BigInt32])

lemmas kept_bind_condition [kept_intro] = keptv_condition [THEN keptv_bind]

interpretation jump_s: strategy_contract P "\<lambda>_. True" "jumpGenerator_Execute P" for P
  by unfold_locales (auto simp: jumpGenerator_Execute_def intro!: kept_intro grow_intro)

interpretation labelJump_s: strategy_contract P "\<lambda>_. True" "labelJumpGenerator_Execute P" for P
  by unfold_locales (auto simp: labelJumpGenerator_Execute_def intro!: kept_intro grow_intro)

interpretation boundedLoop_s: strategy_contract P "\<lambda>_. True" "boundedLoopGenerator_Execute P" for P
  by unfold_locales (auto simp: boundedLoopGenerator_Execute_def intro!: kept_intro grow_intro)

lemma jumpStrategies_kept:
  "program_laws P \<Longrightarrow> st \<in> set (jumpStrategies P) \<Longrightarrow> kept P e (Execute st e)"
  unfolding jumpStrategies_def
  by (auto simp: jumpdestGenerator_def jumpGenerator_def labelJumpGenerator_def
      boundedLoopGenerator_def
      intro: jumpdest_s.exec_kept jump_s.exec_kept labelJump_s.exec_kept boundedLoop_s.exec_kept)

subsection \<open>The code of the bounded loop\<close>

text \<open>One iteration, from the loop head: the counter \<open>c\<close> is on top.\<close>

definition loop_body :: "byte list \<Rightarrow> byte list \<Rightarrow> byte list" where
  "loop_body one head =
     [vm_JUMPDEST] @ [vm_GAS] @ [vm_POP] @ one @ [vm_SWAP1] @ [vm_SUB] @ [vm_DUP1] @ head @ [vm_JUMPI]"

lemma loop_body_at:
  assumes "code_at code pc (loop_body one head)"
  shows "code_at code pc [vm_JUMPDEST]" "code_at code (pc + 1) [vm_GAS]"
    "code_at code (pc + 2) [vm_POP]" "code_at code (pc + 3) one"
    "code_at code (pc + 3 + length one) [vm_SWAP1]" "code_at code (pc + 4 + length one) [vm_SUB]"
    "code_at code (pc + 5 + length one) [vm_DUP1]" "code_at code (pc + 6 + length one) head"
    "code_at code (pc + 6 + length one + length head) [vm_JUMPI]"
  using assms unfolding loop_body_def code_at_append
  by (simp_all add: add.assoc eval_nat_numeral)

lemma run_body:
  assumes at: "code_at code pc (loop_body one head)"
    and num: "pushes_num 1 one" "pushes_num pc head" and pc: "pc < 2 ^ 64"
    and dest: "valid_dest code pc"
  shows "evm_run g code 9 (pc, c # s) =
    Some (if c - 1 = 0 then (pc + length (loop_body one head), 0 # s) else (pc, (c - 1) # s))"
proof -
  note at = loop_body_at [OF at]
  have pc_word: "unat (of_nat pc :: u256) = pc" using pc by (simp add: unat_of_nat)
  define a where "a = pc + 3 + length one"
  define b where "b = a + 3 + length head"
  have steps:
    "evm_step g code (pc, s) = Some (pc + 1, s)"
    "evm_step g code (pc + 1, s) = Some (pc + 2, g # s)"
    "evm_step g code (pc + 2, x # s) = Some (pc + 3, s)"
    "evm_step g code (pc + 3, s) = Some (a, 1 # s)"
    "evm_step g code (a, x # y # s) = Some (a + 1, y # x # s)"
    "evm_step g code (a + 1, x # y # s) = Some (a + 2, (x - y) # s)"
    "evm_step g code (a + 2, x # s) = Some (a + 3, x # x # s)"
    "evm_step g code (a + 3, s) = Some (b, of_nat pc # s)"
    "evm_step g code (b, of_nat pc # 0 # s) = Some (b + 1, s)"
    "y \<noteq> 0 \<Longrightarrow> evm_step g code (b, of_nat pc # y # s) = Some (pc, s)" for g s x y
    using step_ops(1) [OF at(1)] step_ops(2) [OF at(2)] step_ops(3) [OF at(3)]
      step_pushes_num [OF at(4) num(1)] step_ops(5) [OF at(5)] step_ops(6) [OF at(6)]
      step_ops(4) [OF at(7)] step_pushes_num [OF at(8) num(2)] step_ops(7) [OF at(9)]
      step_ops(8) [OF at(9)] dest
    by (simp_all add: a_def b_def pc_word add.assoc add.commute add.left_commute eval_nat_numeral)
  have nine: "(9 :: nat) = Suc (Suc (Suc (Suc (Suc (Suc (Suc (Suc (Suc 0))))))))" by simp
  have "b + 1 = pc + length (loop_body one head)" by (simp add: a_def b_def loop_body_def)
  then show ?thesis
    unfolding nine by (simp only: evm_run.simps steps bind.bind_lunit) (simp add: steps)
qed

lemma run_loop:
  assumes at: "code_at code pc (loop_body one head)"
    and num: "pushes_num 1 one" "pushes_num pc head" and pc: "pc < 2 ^ 64"
    and dest: "valid_dest code pc"
  shows "0 < n \<Longrightarrow> n < 2 ^ 64 \<Longrightarrow> evm_run g code (9 * n) (pc, of_nat n # s) =
    Some (pc + length (loop_body one head), 0 # s)"
proof (induction n arbitrary: g)
  case (Suc n)
  have body: "evm_run h code 9 (pc, of_nat (Suc n) # s) =
      Some (if (of_nat n :: u256) = 0 then (pc + length (loop_body one head), 0 # s)
        else (pc, of_nat n # s))" for h
    using run_body [OF assms, of h "of_nat (Suc n)" s] by simp
  have zero: "(of_nat n :: u256) = 0 \<longleftrightarrow> n = 0"
    using Suc.prems(2) by (auto simp: word_of_nat_eq_0_iff dest: nat_dvd_not_less)
  have nine: "9 * Suc n = 9 + 9 * n" by simp
  have rest: "evm_run g code (9 * n) (if (of_nat n :: u256) = 0 then (pc + length (loop_body one head), 0 # s)
      else (pc, of_nat n # s)) = Some (pc + length (loop_body one head), 0 # s)"
  proof (cases "n = 0")
    case False
    with zero Suc.IH [of g] Suc.prems(2) show ?thesis by simp
  qed simp
  show ?case
    unfolding nine evm_run_add body by (simp only: bind.bind_lunit rest)
qed simp

text \<open>The whole fragment: initial push, loop, and the final POP.\<close>

lemma run_fragment:
  assumes code: "code = pre @ init @ loop_body one head @ [vm_POP] @ post"
    and aligned: "aligned pre"
    and num: "pushes_num n init" "pushes_num 1 one" "pushes_num (length pre + length init) head"
    and small: "length code < 2 ^ 64" and n: "0 < n" "n < 2 ^ 64"
  shows "evm_run g code (9 * n + 2) (length pre, s) =
    Some (length pre + length init + length (loop_body one head) + 1, s)"
proof -
  define pc where "pc = length pre + length init"
  define L where "L = length (loop_body one head)"
  have at: "code_at code (length pre) (init @ loop_body one head @ [vm_POP])"
    unfolding code_at_def code by (intro exI [of _ pre] exI [of _ post]) simp
  then have at1: "code_at code (length pre) init" and at2: "code_at code pc (loop_body one head)"
    and at3: "code_at code (pc + L) [vm_POP]"
    by (simp_all add: code_at_append pc_def L_def)
  have "aligned (pre @ init)"
    using aligned num(1) by (simp add: aligned_append aligned_push pushes_num_def)
  then have "valid_dest code pc"
    unfolding valid_dest_def code using dests_append [of "pre @ init" 0]
    by (simp add: loop_body_def pc_def push_len_def)
  moreover have "pc < 2 ^ 64" using small by (simp add: code pc_def loop_body_def)
  ultimately have loop: "evm_run h code (9 * n) (pc, of_nat n # s) = Some (pc + L, 0 # s)" for h
    using run_loop [OF at2 num(2)] num(3) n by (simp add: pc_def L_def)
  have "evm_run g code (1 + (9 * n + 1)) (length pre, s) = Some (pc + L + 1, s)"
  proof -
    have one: "evm_run h code 1 st = evm_step (h 0) code st" for h st
      by (cases "evm_step (h 0) code st") simp_all
    show ?thesis
      unfolding evm_run_add one step_pushes_num [OF at1 num(1)] bind.bind_lunit pc_def [symmetric] loop
      by (simp add: step_ops(3) [OF at3])
  qed
  then show ?thesis by (simp add: pc_def L_def)
qed

lemma boundedLoop_code:
  assumes laws: "program_laws P" and ok: "env_ok P e"
    and small: "length (Bytes P (env_p e)) + 33 < 2 ^ 64"
  shows "\<exists>e' init one head. boundedLoopGenerator_Execute P e = Some e' \<and>
    Bytes P (env_p e') = Bytes P (env_p e) @ init @ loop_body one head @ [vm_POP] \<and>
    pushes_num (unat (tape (env_f e) 0 mod 16) + 1) init \<and> pushes_num 1 one \<and>
    pushes_num (length (Bytes P (env_p e)) + length init) head"
proof -
  define k where "k = tape (env_f e) 0 mod 16"
  have "unat k < 16" unfolding k_def by (simp add: unat_mod)
  have num0: "goval_nat (GoBig (uint k + 1)) = unat k + 1"
    by (simp add: nat_add_distrib)
  obtain init where init: "pushes_num (unat k + 1) init"
    "Bytes P (Push P (GoBig (uint k + 1)) (env_p e)) = Bytes P (env_p e) @ init"
    using Push_num [OF laws, of "GoBig (uint k + 1)" "env_p e"] num0 \<open>unat k < 16\<close> by auto
  define p1 where "p1 = Push P (GoBig (uint k + 1)) (env_p e)"
  define pc where "pc = length (Bytes P (env_p e)) + length init"
  have "length init \<le> 33" using init(1) by (auto simp: pushes_num_def is_push_def)
  then have pc: "pc < 2 ^ 64" "snd (Jumpdest P p1) = of_nat pc"
    using small pc_Jumpdest [OF laws, of p1] by (simp_all add: pc_def p1_def init(2))
  define p2 where "p2 = Op P [vm_GAS, vm_POP] (fst (Jumpdest P p1))"
  obtain one where one: "pushes_num 1 one"
    "Bytes P (Push P (GoBig 1) p2) = Bytes P p2 @ one"
    using Push_num [OF laws, of "GoBig 1" p2] by auto
  define p3 where "p3 = Op P [vm_DUP1] (Op P [vm_SWAP1, vm_SUB] (Push P (GoBig 1) p2))"
  have "goval_nat (GoUint64 (of_nat pc)) = pc" using pc(1) by (simp add: unat_of_nat)
  then obtain head where head: "pushes_num pc head"
    "Bytes P (Push P (GoUint64 (of_nat pc)) p3) = Bytes P p3 @ head"
    using Push_num [OF laws, of "GoUint64 (of_nat pc)" p3] pc(1) by auto
  define p4 where "p4 = Op P [vm_POP] (Op P [vm_JUMPI] (Push P (GoUint64 (of_nat pc)) p3))"
  have byte: "liftF Byte e = Some (tape (env_f e) 0, e\<lparr>env_f := advance 1 (env_f e)\<rparr>)"
    using ok by (intro liftF_Byte) (simp add: env_ok_def)
  have "boundedLoopGenerator_Execute P e = Some (e\<lparr>env_f := advance 1 (env_f e), env_p := p4,
      labels := labels e @ [of_nat pc]\<rparr>)"
    by (simp add: boundedLoopGenerator_Execute_def byte emit_def addLabel_def split_beta pc(2)
        p2_def p3_def p4_def flip: k_def p1_def)
  moreover have "Bytes P p4 = Bytes P (env_p e) @ init @ loop_body one head @ [vm_POP]"
  proof -
    have "Bytes P p4 = Bytes P p3 @ head @ [vm_JUMPI, vm_POP]"
      unfolding p4_def by (simp add: Bytes_Op [OF laws] head(2))
    also have "Bytes P p3 = Bytes P p2 @ one @ [vm_SWAP1, vm_SUB, vm_DUP1]"
      unfolding p3_def by (simp add: Bytes_Op [OF laws] one(2))
    also have "Bytes P p2 = Bytes P (env_p e) @ init @ [vm_JUMPDEST, vm_GAS, vm_POP]"
      unfolding p2_def p1_def by (simp add: Bytes_Op [OF laws] Bytes_Jumpdest [OF laws] init(2))
    finally show ?thesis by (simp add: loop_body_def)
  qed
  ultimately show ?thesis
    using init(1) one(1) head(1) by (auto simp: pc_def simp flip: k_def)
qed

subsection \<open>Properties\<close>

lemma bounded_fragment_length:
  assumes "pushes_num n init" and "pushes_num 1 one" and "pushes_num m head"
  shows "length init + length (loop_body one head) + 1 \<le> 107"
  using assms by (auto simp: pushes_num_def is_push_def loop_body_def)

text \<open>C5. The bounded loop ends: on code that ends at an instruction boundary, run by the EVM from any
  stack and with any code after it, the appended fragment reaches its end after at most 16 rounds
  of 9 instructions and leaves the stack as it was.\<close>

theorem boundedLoop_terminates:
  assumes laws: "program_laws P" and ok: "env_ok P e" and aligned: "aligned (Bytes P (env_p e))"
    and small: "length (Bytes P (env_p e)) + 107 + length post < 2 ^ 64"
  shows "\<exists>e' n. boundedLoopGenerator_Execute P e = Some e' \<and> n \<le> 16 \<and>
    evm_run g (Bytes P (env_p e') @ post) (9 * n + 2) (length (Bytes P (env_p e)), s) =
      Some (length (Bytes P (env_p e')), s)"
proof -
  have "length (Bytes P (env_p e)) + 33 < 2 ^ 64" using small by simp
  from boundedLoop_code [OF laws ok this] obtain e' init one head where
    e': "boundedLoopGenerator_Execute P e = Some e'"
    "Bytes P (env_p e') = Bytes P (env_p e) @ init @ loop_body one head @ [vm_POP]" and
    num: "pushes_num (unat (tape (env_f e) 0 mod 16) + 1) init" "pushes_num 1 one"
      "pushes_num (length (Bytes P (env_p e)) + length init) head" by blast
  define n where "n = unat (tape (env_f e) 0 mod 16) + 1"
  have n: "0 < n" "n \<le> 16" "n < 2 ^ 64" by (auto simp: n_def unat_mod Suc_le_eq)
  have "length (Bytes P (env_p e') @ post) < 2 ^ 64"
    using small bounded_fragment_length [OF num] by (simp add: e'(2))
  moreover have "Bytes P (env_p e') @ post =
      Bytes P (env_p e) @ init @ loop_body one head @ [vm_POP] @ post" by (simp add: e'(2))
  ultimately have "evm_run g (Bytes P (env_p e') @ post) (9 * n + 2) (length (Bytes P (env_p e)), s) =
      Some (length (Bytes P (env_p e')), s)"
    using run_fragment [OF _ aligned num(1) [folded n_def] num(2,3) _ n(1,3)] by (simp add: e'(2))
  with e'(1) n(2) show ?thesis by blast
qed

theorem boundedLoop_terminates_witness:
  "\<exists>e' n. boundedLoopGenerator_Execute sample_program (sample_env [4] None) = Some e' \<and> n \<le> 16 \<and>
    evm_run (\<lambda>i. 7) (Bytes sample_program (env_p e') @ [0x5b]) (9 * n + 2) (0, [42]) =
      Some (length (Bytes sample_program (env_p e')), [42])"
  using boundedLoop_terminates [OF sample_program_laws sample_env_ok, of "[4]" None "[0x5b]" "\<lambda>i. 7" "[42]"]
  by (simp add: sample_program_def)

text \<open>A jump strategy with labels at hand emits one jump, to one of them; without labels it reads
  nothing and emits a label instead.\<close>

theorem jump_targets_a_label:
  assumes "program_laws P" and "env_ok P e" and "m \<in> {jumpGenerator_Execute P, labelJumpGenerator_Execute P}"
  shows "\<exists>e'. m e = Some e' \<and>
    (if labels e = [] then addLabel P e = Some (Label P (env_p e), e')
     else labels e' = labels e \<and> (\<exists>d \<in> set (labels e).
       env_p e' = Jump P (GoUint64 d) (env_p e) \<or>
       (\<exists>c. ubits 32 c \<and> env_p e' = JumpIf P (GoUint64 d) (GoBig c) (env_p e))))"
proof (cases "labels e = []")
  case True
  then show ?thesis
    using assms(3) by (auto simp: jumpGenerator_Execute_def labelJumpGenerator_Execute_def
        randomLabel_def addLabel_def split_beta Let_def pc_Jumpdest [OF assms(1)] Label_pc [OF assms(1)])
next
  case False
  have ok: "filler_ok (env_f e)" using assms(2) by (simp add: env_ok_def)
  define d where "d = labels e ! (unat (tape (env_f e) 0) mod length (labels e))"
  have d: "d \<in> set (labels e)" using False by (simp add: d_def)
  define e1 where "e1 = e\<lparr>env_f := advance 1 (env_f e)\<rparr>"
  have lbl: "randomLabel e = Some ((d, True), e1)"
    using False by (simp add: randomLabel_def liftF_def Byte_spec [OF ok] d_def e1_def)
  have 1: "ubits 32 1" by (simp add: ubits_def)
  have rd: "\<exists>b n. liftF Bool e1 = Some (b, e1\<lparr>env_f := advance n (env_f e1)\<rparr>)"
    if "filler_ok (env_f e1)" for e1 :: "'a env"
    using that by (auto simp: liftF_def Bool_def Byte_spec)
  have rd32: "\<exists>v n. liftF BigInt32 e1 = Some (v, e1\<lparr>env_f := advance n (env_f e1)\<rparr>) \<and> ubits 32 v"
    if "filler_ok (env_f e1)" for e1 :: "'a env"
    using fills_BigInt32 [of "env_f e1"] that by (auto simp: liftF_def fills_def returns_iff)
  have ok1: "filler_ok (env_f e1)" using ok by (simp add: e1_def)
  obtain b n where b: "liftF Bool e1 = Some (b, e1\<lparr>env_f := advance n (env_f e1)\<rparr>)"
    using rd [OF ok1] by blast
  define e2 where "e2 = e1\<lparr>env_f := advance n (env_f e1)\<rparr>"
  have ok2: "filler_ok (env_f e2)" using ok1 by (simp add: e2_def)
  obtain c n' where c: "liftF Bool e2 = Some (c, e2\<lparr>env_f := advance n' (env_f e2)\<rparr>)"
    using rd [OF ok2] by blast
  define e3 where "e3 = e2\<lparr>env_f := advance n' (env_f e2)\<rparr>"
  have ok3: "filler_ok (env_f e3)" using ok2 by (simp add: e3_def)
  obtain v n'' where v: "liftF BigInt32 e3 = Some (v, e3\<lparr>env_f := advance n'' (env_f e3)\<rparr>)" "ubits 32 v"
    using rd32 [OF ok3] by blast
  have same: "env_p e3 = env_p e" "labels e3 = labels e" "env_p e2 = env_p e" "labels e2 = labels e"
    by (simp_all add: e3_def e2_def e1_def)
  have "\<exists>e'. m e = Some e' \<and> labels e' = labels e \<and> (env_p e' = Jump P (GoUint64 d) (env_p e) \<or>
      (\<exists>c. ubits 32 c \<and> env_p e' = JumpIf P (GoUint64 d) (GoBig c) (env_p e)))"
    using assms(3) 1 v(2) same
    by (cases b; cases c;
      auto simp: jumpGenerator_Execute_def labelJumpGenerator_Execute_def lbl emit_def Let_def
        b [unfolded e2_def [symmetric]] c [unfolded e3_def [symmetric]] v(1);
      blast intro: ubits_0)
  with False d show ?thesis by auto
qed

theorem jump_targets_a_label_witness:
  "\<exists>e'. jumpGenerator_Execute sample_program (sample_env [255] None\<lparr>env_p := [0x5b], labels := [0]\<rparr>) =
      Some e' \<and> (\<exists>d \<in> {0}. env_p e' = Jump sample_program (GoUint64 d) [0x5b] \<or>
       (\<exists>c. ubits 32 c \<and> env_p e' = JumpIf sample_program (GoUint64 d) (GoBig c) [0x5b]))"
proof -
  have "env_ok sample_program (sample_env [255] None\<lparr>env_p := [0x5b], labels := [0]\<rparr>)"
    by (simp add: env_ok_def labels_ok_def sample_program_def)
  from jump_targets_a_label [OF sample_program_laws this, of "jumpGenerator_Execute sample_program"]
  show ?thesis by auto
qed

text \<open>A label is not always a valid destination: after a round of \<open>opcodeGenerator\<close> that emits
  a bare PUSH opcode, the JUMPDEST of the next label is data of that PUSH, and the EVM rejects a jump
  to the label.\<close>

theorem raw_push_swallows_label:
  assumes "program_laws P" and "data (env_f e) = [vm_PUSH1]" and "filler_ok (env_f e)"
    and "env_p e = New P" and "labels e = []"
  shows "\<exists>e1 e2. opcodeGenerator_Execute P e = Some e1 \<and> jumpdestGenerator_Execute P e1 = Some e2 \<and>
    labels e2 = [1] \<and> Bytes P (env_p e2) ! 1 = vm_JUMPDEST \<and> \<not> valid_dest (Bytes P (env_p e2)) 1"
proof -
  have tape: "tape (env_f e) 0 = vm_PUSH1" using assms(2,3) by (simp add: tape_def filler_ok_def)
  have "\<not> valid_dest [vm_PUSH1, vm_JUMPDEST] 1"
    by (simp add: valid_dest_def push_len_def)
  then show ?thesis
    by (simp add: opcodeGenerator_Execute_def jumpdestGenerator_Execute_def liftF_def
        Byte_spec [OF assms(3)] tape emit_def addLabel_def split_beta Let_def assms(4,5)
        Bytes_Jumpdest [OF assms(1)] pc_Jumpdest [OF assms(1)] Bytes_Op [OF assms(1)]
        Bytes_New [OF assms(1)])
qed

theorem raw_push_swallows_label_witness:
  "\<exists>e1 e2. opcodeGenerator_Execute sample_program (sample_env [vm_PUSH1] None) = Some e1 \<and>
    jumpdestGenerator_Execute sample_program e1 = Some e2 \<and> labels e2 = [1] \<and>
    \<not> valid_dest (Bytes sample_program (env_p e2)) 1"
proof -
  have "env_p (sample_env [vm_PUSH1] None) = New sample_program"
    "data (env_f (sample_env [vm_PUSH1] None)) = [vm_PUSH1]"
    by (simp_all add: sample_program_def NewFiller_def)
  from raw_push_swallows_label [OF sample_program_laws this(2) _ this(1)] show ?thesis by auto
qed

end
