(* ===== verification/Deploy.thy ===== *)
theory Deploy
  imports BasicStrategies
begin

text \<open>
  Deploying generated code (\<open>generator/deploy.go\<close>), and the interface of the recursive
  generator: the create and static-call strategies call \<open>generateCode\<close> (of \<open>generator.go\<close>,
  which in turn runs the strategies), so they take it as the argument \<open>gen\<close> from a filler, a
  recursion level and a budget to the code, the filler and the budget afterwards.  The knot is
  tied in \<open>Generator\<close>.
\<close>

type_synonym generate =
  "filler \<Rightarrow> int \<Rightarrow> int option \<Rightarrow> (byte list \<times> filler \<times> int option) option"

definition maxRecursionLevel :: int where
  "maxRecursionLevel = 10"

text \<open>What the strategies rely on: a nested generation returns and only spends budget.\<close>

definition gen_ok :: "generate \<Rightarrow> int \<Rightarrow> bool" where
  "gen_ok gen level \<longleftrightarrow>
     (\<forall>f b. filler_ok f \<longrightarrow> returns (gen f level b) (\<lambda>(code, f', b'). budget_le b' b))"

definition generate_nested :: "generate \<Rightarrow> filler \<Rightarrow> int \<Rightarrow> 'p env \<Rightarrow> (byte list \<times> 'p env) option" where
  "generate_nested gen newFiller level env = do {
     (code, _, b) \<leftarrow> gen newFiller level (budget env);
     Some (code, env\<lparr>budget := b\<rparr>)
   }"

definition deployInitCode :: "'p program_api \<Rightarrow> byte list \<Rightarrow> byte list" where
  "deployInitCode P runtime = Bytes P (ReturnViaCodeCopy P runtime (New P))"

definition makeDeployInit :: "'p program_api \<Rightarrow> byte list \<Rightarrow> 'p env \<Rightarrow> (byte list \<times> 'p env) option" where
  "makeDeployInit P runtime env = do {
     (b, env) \<leftarrow> liftF Byte env;
     if b mod 8 = 0 then
       Some (Bytes P (chain [Push P (GoInt 0), Push P (GoInt 0), Op P [vm_REVERT]] (New P)), env)
     else if b mod 8 = 1 then Some (deployInitCode P ([0xEF] @ runtime), env)
     else Some (deployInitCode P runtime, env)
   }"

definition DeployAndCall ::
    "'p program_api \<Rightarrow> byte list \<Rightarrow> bool \<Rightarrow> opcode \<Rightarrow> 'p env \<Rightarrow> 'p env option" where
  "DeployAndCall P runtime isCreate2 callOp env = do {
     (initCode, env) \<leftarrow> makeDeployInit P runtime env;
     CreateAndCall P initCode isCreate2 callOp env
   }"

text \<open>The topics of a LOG: \<open>n\<close> random 256-bit numbers.\<close>

fun pushTopics :: "'p program_api \<Rightarrow> nat \<Rightarrow> 'p \<Rightarrow> filler \<Rightarrow> ('p \<times> filler) option" where
  "pushTopics P 0 p f = Some (p, f)"
| "pushTopics P (Suc n) p f = do {
     (v, f) \<leftarrow> BigInt256 f;
     pushTopics P n (Push P (GoBig v) p) f
   }"

definition writeOp :: "'p program_api \<Rightarrow> filler \<Rightarrow> (byte list \<times> filler) option" where
  "writeOp P f = do {
     let p = New P;
     (b, f) \<leftarrow> Byte f;
     let k = b mod 6;
     if k = 0 then do {
       (s, f) \<leftarrow> BigInt256 f;
       (v, f) \<leftarrow> BigInt256 f;
       Some (Bytes P (Sstore P (GoBig s) (GoBig v) p), f)
     } else if k = 1 then do {
       (s, f) \<leftarrow> BigInt256 f;
       (v, f) \<leftarrow> BigInt256 f;
       Some (Bytes P (Tstore P (GoBig s) (GoBig v) p), f)
     } else if k = 2 then do {
       (n, f) \<leftarrow> Byte f;
       let n = n mod 5;
       (p, f) \<leftarrow> pushTopics P (unat n) p f;
       let p = chain [Push P (GoInt 0), Push P (GoInt 0)] p;
       Some (Bytes P (Op P [vm_LOG0 + n] p), f)
     } else if k = 3 then do {
       (a, f) \<leftarrow> BigInt256 f;
       Some (Bytes P (Call P GoNil (GoBig a) (GoInt 1) (GoInt 0) (GoInt 0) (GoInt 0) (GoInt 0) p), f)
     } else if k = 4 then
       Some (Bytes P (chain [Push P (GoInt 0), Push P (GoInt 0), Push P (GoInt 0),
         Op P [vm_CREATE]] p), f)
     else do {
       (a, f) \<leftarrow> BigInt256 f;
       Some (Bytes P (Selfdestruct P (GoBig a) p), f)
     }
   }"

subsection \<open>Rules\<close>

lemma keptv_makeDeployInit: "keptv P e (makeDeployInit P c e) (\<lambda>_. True)"
  unfolding makeDeployInit_def by (auto intro!: kept_intro keptv_return)

lemmas kept_bind_makeDeployInit [kept_intro] = keptv_makeDeployInit [THEN keptv_bind]

lemma kept_DeployAndCall [kept_intro]:
  "program_laws P \<Longrightarrow> kept P e (DeployAndCall P c is2 o1 e)"
  unfolding DeployAndCall_def by (auto intro!: kept_intro)

lemma fills_pushTopics: "fills f (pushTopics P n p f) (\<lambda>_. True)"
  by (induction n arbitrary: p f) (auto intro!: fill_intro fills_return)

lemmas fills_bind_pushTopics [fill_intro] = fills_bind [OF fills_pushTopics]

lemma fills_writeOp: "fills f (writeOp P f) (\<lambda>_. True)"
  unfolding writeOp_def by (auto intro!: fill_intro fills_return)

lemma keptv_writeOp: "keptv P e (liftF (writeOp P) e) (\<lambda>_. True)"
  by (rule keptv_liftF) (rule fills_writeOp)

lemmas kept_bind_writeOp [kept_intro] = keptv_writeOp [THEN keptv_bind]

lemma keptv_generate_nested:
  assumes "gen_ok gen level" and "filler_ok f"
  shows "keptv P e (generate_nested gen f level e) (\<lambda>_. True)"
proof -
  from assms obtain code f' b' where "gen f level (budget e) = Some (code, f', b')"
    and "budget_le b' (budget e)" by (fastforce simp: gen_ok_def returns_iff)
  then show ?thesis by (simp add: keptv_def generate_nested_def env_ok_def env_le_def)
qed

lemmas kept_bind_generate_nested = keptv_generate_nested [THEN keptv_bind]

end
