(* ===== verification/Precompiles.thy ===== *)
theory Precompiles
  imports Libraries
begin

text \<open>
  Calls to the precompiled contracts with inputs built from the filler: the call object, its
  randomisation, the contract of the \<open>precompile\<close> interface, and the hash, identity, modexp and
  BLAKE2 callers (\<open>generator/precompiles\<close>: \<open>precompiles.go\<close>, \<open>sha256.go\<close>, \<open>ripemd.go\<close>,
  \<open>identity.go\<close>, \<open>bigModExp.go\<close>, \<open>blake2f.go\<close>, \<open>ecdsa.go\<close>, \<open>p256.go\<close>).
  A caller takes the program and the filler and returns an optional error with both.
\<close>

datatype call_error = GenerateKeyError | SignError | CommitmentError | ProofError

type_synonym 'p call_result = "((call_error option \<times> 'p) \<times> filler) option"

subsection \<open>Rules for the judgement on fillers\<close>

definition appends :: "'p program_api \<Rightarrow> 'p \<Rightarrow> 'p \<Rightarrow> bool" where
  "appends P p p' \<longleftrightarrow> prefix (Bytes P p) (Bytes P p')"

lemma appends_refl [simp]: "appends P p p"
  by (simp add: appends_def)

lemma appends_step: "grows P g \<Longrightarrow> appends P p q \<Longrightarrow> appends P p (g q)"
  unfolding appends_def grows_def by (meson prefix_order.order_trans)

lemmas appends_api [grow_intro] = grows_methods [THEN appends_step]

lemma fills_returnI [fill_intro]: "Q a \<Longrightarrow> fills f (Some (a, f)) Q"
  by (rule fills_return)

lemma fills_case_option [fill_intro]:
  "(x = None \<Longrightarrow> fills f m Q) \<Longrightarrow> (\<And>y. x = Some y \<Longrightarrow> fills f (k y) Q) \<Longrightarrow>
    fills f (case x of None \<Rightarrow> m | Some y \<Rightarrow> k y) Q"
  by (cases x) simp_all

lemma fills_case_prod [fill_intro]:
  "(\<And>x y. a = (x, y) \<Longrightarrow> fills f (t x y f) Q) \<Longrightarrow> fills f (case_prod t a f) Q"
  by (cases a) simp

lemma fills_pure_bind: "m = Some v \<Longrightarrow> fills f (k v) Q \<Longrightarrow> fills f (m \<bind> k) Q"
  by simp

lemma fills_MustFromBig [fill_intro]:
  "lib_laws X \<Longrightarrow> ubits 256 v \<Longrightarrow> fills f (k (of_int v)) Q \<Longrightarrow> fills f (MustFromBig X v \<bind> k) Q"
  by (simp add: MustFromBig_Some)

lemma fills_index [fill_intro]:
  "i < length xs \<Longrightarrow> fills f (k (xs ! i)) Q \<Longrightarrow> fills f (index xs i \<bind> k) Q"
  by simp

lemma fills_slice [fill_intro]:
  "lo \<le> hi \<Longrightarrow> hi \<le> length xs \<Longrightarrow> fills f (k (take (hi - lo) (drop lo xs))) Q \<Longrightarrow>
    fills f (slice xs lo hi \<bind> k) Q"
  by simp

lemmas fills_bind_readers [fill_intro] =
  fills_bind [OF fills_GenerateKey] fills_bind [OF fills_ecdsa_Sign]

subsection \<open>The call object\<close>

record CallObj =
  Gas :: u256
  Address :: address
  Value :: int
  InOffset :: u32
  InSize :: u32
  OutOffset :: u32
  OutSize :: u32

definition CallRandomizer_modify :: "filler \<Rightarrow> CallObj \<Rightarrow> (CallObj \<times> filler) option" where
  "CallRandomizer_modify f c = do {
     (b, f) \<leftarrow> Byte f;
     let k = b mod 25;
     if k = 0 then do { (m, f) \<leftarrow> MemInt f; Some (c\<lparr>InOffset := bigUint32 m\<rparr>, f) }
     else if k = 1 then do { (m, f) \<leftarrow> MemInt f; Some (c\<lparr>InSize := bigUint32 m\<rparr>, f) }
     else if k = 2 then do { (m, f) \<leftarrow> MemInt f; Some (c\<lparr>OutOffset := bigUint32 m\<rparr>, f) }
     else if k = 3 then do { (m, f) \<leftarrow> MemInt f; Some (c\<lparr>OutSize := bigUint32 m\<rparr>, f) }
     else Some (c, f)
   }"

definition CallRandomizer ::
    "'p program_api \<Rightarrow> 'p \<Rightarrow> filler \<Rightarrow> CallObj \<Rightarrow> ('p \<times> filler) option" where
  "CallRandomizer P p f c = do {
     (c, f) \<leftarrow> CallRandomizer_modify f c;
     (b, f) \<leftarrow> Byte f;
     let k = b mod 3;
     if k = 0 then
       Some (Call P (GoU256 (Gas c)) (GoAddress (Address c)) (GoBig (Value c))
         (GoUint32 (InOffset c)) (GoUint32 (InSize c)) (GoUint32 (OutOffset c))
         (GoUint32 (OutSize c)) p, f)
     else if k = 1 then
       Some (CallCode P (GoU256 (Gas c)) (GoAddress (Address c)) (GoBig (Value c))
         (GoUint32 (InOffset c)) (GoUint32 (InSize c)) (GoUint32 (OutOffset c))
         (GoUint32 (OutSize c)) p, f)
     else if k = 2 then
       Some (StaticCall P (GoU256 (Gas c)) (GoAddress (Address c))
         (GoUint32 (InOffset c)) (GoUint32 (InSize c)) (GoUint32 (OutOffset c))
         (GoUint32 (OutSize c)) p, f)
     else Some (p, f)
   }"

text \<open>Randomisation changes at most one of the four memory bounds of the call.\<close>

definition same_call :: "CallObj \<Rightarrow> CallObj \<Rightarrow> bool" where
  "same_call c c' \<longleftrightarrow> Gas c' = Gas c \<and> Address c' = Address c \<and> Value c' = Value c \<and>
     length (filter id [InOffset c' \<noteq> InOffset c, InSize c' \<noteq> InSize c,
       OutOffset c' \<noteq> OutOffset c, OutSize c' \<noteq> OutSize c]) \<le> 1"

lemma fills_CallRandomizer_modify: "fills f (CallRandomizer_modify f c) (same_call c)"
  unfolding CallRandomizer_modify_def by (auto intro!: fill_intro simp: same_call_def)

lemmas fills_bind_modify [fill_intro] = fills_bind [OF fills_CallRandomizer_modify]

lemma fills_CallRandomizer:
  "program_laws P \<Longrightarrow> appends P p0 p \<Longrightarrow> fills f (CallRandomizer P p f c) (appends P p0)"
  unfolding CallRandomizer_def by (auto intro!: fill_intro grow_intro)

lemmas fills_bind_CallRandomizer [fill_intro] = fills_bind [OF fills_CallRandomizer]

text \<open>The contract of the \<open>precompile\<close> interface.\<close>

locale precompile_contract =
  fixes P :: "'p program_api"
    and X :: lib
    and caller :: "'p \<Rightarrow> filler \<Rightarrow> 'p call_result"
  assumes call_fills: "program_laws P \<Longrightarrow> lib_laws X \<Longrightarrow>
    fills f (caller p f) (\<lambda>(err, p'). appends P p p')"
begin

lemma call_returns:
  assumes "program_laws P" and "lib_laws X" and "filler_ok f"
  shows "\<exists>err p' n. caller p f = Some ((err, p'), advance n f) \<and> appends P p p'"
  using call_fills [OF assms(1,2), of f p] assms(3) by (auto simp: fills_def returns_iff)

end

subsection \<open>Hash and identity precompiles\<close>

definition sha256Addr :: "lib \<Rightarrow> address" where "sha256Addr X = HexToAddress X ''0x2''"

definition sha256Caller_call :: "'p program_api \<Rightarrow> lib \<Rightarrow> 'p \<Rightarrow> filler \<Rightarrow> 'p call_result" where
  "sha256Caller_call P X p f = do {
     (d, f) \<leftarrow> ByteSlice256 f;
     (g, f) \<leftarrow> GasInt f;
     gas \<leftarrow> MustFromBig X g;
     (v, f) \<leftarrow> BigInt32 f;
     let c = \<lparr>Gas = gas, Address = sha256Addr X, Value = v, InOffset = 0,
       InSize = of_nat (length d), OutOffset = 0, OutSize = 32\<rparr>;
     let p = Mstore P d 0 p;
     (p, f) \<leftarrow> CallRandomizer P p f c;
     Some ((None, p), f)
   }"

definition ripemdAddr :: "lib \<Rightarrow> address" where "ripemdAddr X = HexToAddress X ''0x3''"

definition ripemdCaller_call :: "'p program_api \<Rightarrow> lib \<Rightarrow> 'p \<Rightarrow> filler \<Rightarrow> 'p call_result" where
  "ripemdCaller_call P X p f = do {
     (d, f) \<leftarrow> ByteSlice256 f;
     (g, f) \<leftarrow> GasInt f;
     gas \<leftarrow> MustFromBig X g;
     (v, f) \<leftarrow> BigInt32 f;
     let c = \<lparr>Gas = gas, Address = ripemdAddr X, Value = v, InOffset = 0,
       InSize = of_nat (length d), OutOffset = 0, OutSize = 20\<rparr>;
     let p = Mstore P d 0 p;
     (p, f) \<leftarrow> CallRandomizer P p f c;
     Some ((None, p), f)
   }"

definition identityAddr :: "lib \<Rightarrow> address" where "identityAddr X = HexToAddress X ''0x4''"

definition identityCaller_call :: "'p program_api \<Rightarrow> lib \<Rightarrow> 'p \<Rightarrow> filler \<Rightarrow> 'p call_result" where
  "identityCaller_call P X p f = do {
     (d, f) \<leftarrow> ByteSlice256 f;
     (g, f) \<leftarrow> GasInt f;
     gas \<leftarrow> MustFromBig X g;
     (v, f) \<leftarrow> BigInt32 f;
     let c = \<lparr>Gas = gas, Address = identityAddr X, Value = v, InOffset = 0,
       InSize = of_nat (length d), OutOffset = 0, OutSize = of_nat (length d)\<rparr>;
     let p = Mstore P d 0 p;
     (p, f) \<leftarrow> CallRandomizer P p f c;
     Some ((None, p), f)
   }"

interpretation sha256_c: precompile_contract P X "sha256Caller_call P X" for P X
  by unfold_locales (auto simp: sha256Caller_call_def intro!: fill_intro grow_intro)

interpretation ripemd_c: precompile_contract P X "ripemdCaller_call P X" for P X
  by unfold_locales (auto simp: ripemdCaller_call_def intro!: fill_intro grow_intro)

interpretation identity_c: precompile_contract P X "identityCaller_call P X" for P X
  by unfold_locales (auto simp: identityCaller_call_def intro!: fill_intro grow_intro)

subsection \<open>Modular exponentiation\<close>

definition int32ToByte :: "nat \<Rightarrow> byte list" where
  "int32ToByte a = be_bytes 4 (unat (of_nat a :: u32))"

definition modexp_input :: "lib \<Rightarrow> byte list \<Rightarrow> byte list \<Rightarrow> byte list \<Rightarrow> byte list" where
  "modexp_input X base ex md =
     (let lBase = LeftPadBytes X (int32ToByte (length base)) 32;
          lExp = LeftPadBytes X (int32ToByte (length ex)) 32;
          lMod = LeftPadBytes X (int32ToByte (length md)) 32
      in [] @ lBase @ lExp @ lMod @ base @ ex @ md)"

definition bigModExpAddr :: "lib \<Rightarrow> address" where "bigModExpAddr X = HexToAddress X ''0x5''"

definition bigModExpCaller_call :: "'p program_api \<Rightarrow> lib \<Rightarrow> 'p \<Rightarrow> filler \<Rightarrow> 'p call_result" where
  "bigModExpCaller_call P X p f = do {
     (base, f) \<leftarrow> ByteSlice256 f;
     (ex, f) \<leftarrow> ByteSlice256 f;
     (md, f) \<leftarrow> ByteSlice256 f;
     let d = modexp_input X base ex md;
     let p = Mstore P d 0 p;
     (g, f) \<leftarrow> GasInt f;
     gas \<leftarrow> MustFromBig X g;
     (v, f) \<leftarrow> BigInt32 f;
     let c = \<lparr>Gas = gas, Address = bigModExpAddr X, Value = v, InOffset = 0,
       InSize = of_nat (length d), OutOffset = 0, OutSize = 64\<rparr>;
     (p, f) \<leftarrow> CallRandomizer P p f c;
     Some ((None, p), f)
   }"

interpretation bigModExp_c: precompile_contract P X "bigModExpCaller_call P X" for P X
  by unfold_locales (auto simp: bigModExpCaller_call_def intro!: fill_intro grow_intro)

subsection \<open>BLAKE2\<close>

text \<open>\<open>n\<close> times \<open>binary.BigEndian.PutUint64(input[offset:], f.Uint64())\<close>.\<close>

fun put_words :: "nat \<Rightarrow> nat \<Rightarrow> byte list \<Rightarrow> filler \<Rightarrow> ((nat \<times> byte list) \<times> filler) option" where
  "put_words 0 offset input f = Some ((offset, input), f)"
| "put_words (Suc n) offset input f = do {
     (u, f) \<leftarrow> Uint64 f;
     if offset + 8 \<le> length input then
       put_words n (offset + 8) (copy_range input offset (offset + 8) (be_bytes 8 (unat u))) f
     else None
   }"

definition blake2f_input :: "filler \<Rightarrow> (byte list \<times> filler) option" where
  "blake2f_input f = do {
     let input = replicate 213 0;
     let offset = 0;
     (r, f) \<leftarrow> Uint32 f;
     let input = copy_range input 0 4 (be_bytes 4 (unat r));
     let offset = offset + 4;
     ((offset, input), f) \<leftarrow> put_words 8 offset input f;
     ((offset, input), f) \<leftarrow> put_words 16 offset input f;
     ((offset, input), f) \<leftarrow> put_words 2 offset input f;
     (b, f) \<leftarrow> Bool f;
     if b then do {
       (x, f) \<leftarrow> Byte f;
       Some (input[212 := x], f)
     } else do {
       (b, f) \<leftarrow> Bool f;
       if b then Some (input[212 := 0], f) else Some (input[212 := 1], f)
     }
   }"

definition blake2fAddr :: "lib \<Rightarrow> address" where "blake2fAddr X = HexToAddress X ''0x9''"

definition blake2fCaller_call :: "'p program_api \<Rightarrow> lib \<Rightarrow> 'p \<Rightarrow> filler \<Rightarrow> 'p call_result" where
  "blake2fCaller_call P X p f = do {
     (input, f) \<leftarrow> blake2f_input f;
     (g, f) \<leftarrow> GasInt f;
     gas \<leftarrow> MustFromBig X g;
     (v, f) \<leftarrow> BigInt32 f;
     let c = \<lparr>Gas = gas, Address = blake2fAddr X, Value = v, InOffset = 0,
       InSize = 213, OutOffset = 0, OutSize = 64\<rparr>;
     let p = Mstore P input 0 p;
     (p, f) \<leftarrow> CallRandomizer P p f c;
     Some ((None, p), f)
   }"

lemma fills_put_words:
  "offset + 8 * n \<le> length input \<Longrightarrow> fills f (put_words n offset input f)
    (\<lambda>(o', i'). o' = offset + 8 * n \<and> length i' = length input)"
proof (induction n arbitrary: offset input f)
  case 0
  then show ?case by (auto intro!: fill_intro)
next
  case (Suc n)
  define i' where "i' u = copy_range input offset (offset + 8) (be_bytes 8 (unat (u :: u64)))" for u
  have "length (i' u) = length input" for u using Suc.prems by (simp add: i'_def)
  then have "fills f' (put_words n (offset + 8) (i' u) f')
      (\<lambda>(o', i'). o' = offset + 8 * Suc n \<and> length i' = length input)" for u f'
    using Suc.IH [of "offset + 8" "i' u" f'] Suc.prems by (simp add: add.assoc)
  with Suc.prems show ?case by (auto intro!: fill_intro simp: add.assoc simp flip: i'_def)
qed

lemmas fills_bind_put_words = fills_put_words [THEN fills_bind]

lemma fills_blake2f_input: "fills f (blake2f_input f) (\<lambda>i. length i = 213)"
  unfolding blake2f_input_def
  by (auto intro!: fill_intro fills_bind_put_words)

lemmas fills_bind_blake2f [fill_intro] = fills_bind [OF fills_blake2f_input]

interpretation blake2f_c: precompile_contract P X "blake2fCaller_call P X" for P X
  by unfold_locales (auto simp: blake2fCaller_call_def intro!: fill_intro grow_intro)

subsection \<open>Signatures\<close>

definition ecrecover_input :: "byte list \<Rightarrow> byte list \<Rightarrow> byte list option" where
  "ecrecover_input hash sig = do {
     let input = replicate 128 0;
     let input = copy_range input 0 32 hash;
     v \<leftarrow> index sig 64;
     let input = input[63 := v + 27];
     r \<leftarrow> slice sig 0 32;
     let input = copy_range input 64 96 r;
     s \<leftarrow> slice sig 32 64;
     let input = copy_range input 96 128 s;
     Some input
   }"

definition ecdsaAddr :: "lib \<Rightarrow> address" where "ecdsaAddr X = HexToAddress X ''0x1''"

definition ecdsaCaller_call :: "'p program_api \<Rightarrow> lib \<Rightarrow> 'p \<Rightarrow> filler \<Rightarrow> 'p call_result" where
  "ecdsaCaller_call P X p f = do {
     (sk, f) \<leftarrow> read_via (ecdsa_GenerateKey X S256) f;
     case sk of
       None \<Rightarrow> Some ((Some GenerateKeyError, p), f)
     | Some sk \<Rightarrow> do {
         (hash, f) \<leftarrow> ByteSlice 32 f;
         case crypto_Sign X hash sk of
           None \<Rightarrow> Some ((Some SignError, p), f)
         | Some sig \<Rightarrow> do {
             input \<leftarrow> ecrecover_input hash sig;
             (g, f) \<leftarrow> GasInt f;
             gas \<leftarrow> MustFromBig X g;
             (v, f) \<leftarrow> BigInt32 f;
             let c = \<lparr>Gas = gas, Address = ecdsaAddr X, Value = v, InOffset = 0,
               InSize = of_nat (length input), OutOffset = 0, OutSize = 32\<rparr>;
             let p = Mstore P input 0 p;
             (p, f) \<leftarrow> CallRandomizer P p f c;
             Some ((None, p), f)
           }
       }
   }"

lemma ecrecover_input_Some:
  "length sig = 65 \<Longrightarrow> length hash = 32 \<Longrightarrow>
    ecrecover_input hash sig = Some (hash @ replicate 31 0 @ [sig ! 64 + 27] @
      take 32 sig @ take 32 (drop 32 sig))"
  by (simp add: ecrecover_input_def copy_range_def list_update_append numeral_eq_Suc
      list_update_append1 Let_def)

lemma fills_ecrecover_input [fill_intro]:
  "length sig = 65 \<Longrightarrow> length hash = 32 \<Longrightarrow> (\<And>input. fills f (k input) Q) \<Longrightarrow>
    fills f (ecrecover_input hash sig \<bind> k) Q"
  by (simp add: ecrecover_input_Some)

interpretation ecdsa_c: precompile_contract P X "ecdsaCaller_call P X" for P X
  by unfold_locales
    (auto simp: ecdsaCaller_call_def intro!: fill_intro grow_intro dest: crypto_Sign_length)

definition leftPad32 :: "byte list \<Rightarrow> byte list" where
  "leftPad32 b =
     (if length b \<ge> 32 then drop (length b - 32) b
      else let out = replicate 32 0
           in snd (copy_at out (32 - length b) b))"

definition validP256Input :: "lib \<Rightarrow> filler \<Rightarrow> (byte list option \<times> filler) option" where
  "validP256Input X f = do {
     (sk, f) \<leftarrow> read_via (ecdsa_GenerateKey X P256) f;
     case sk of
       None \<Rightarrow> Some (None, f)
     | Some sk \<Rightarrow> do {
         (hash, f) \<leftarrow> ByteSlice 32 f;
         (rs, f) \<leftarrow> read_via (\<lambda>f. ecdsa_Sign X f sk hash) f;
         case rs of
           None \<Rightarrow> Some (None, f)
         | Some (r, s) \<Rightarrow> do {
             let input = replicate 160 0;
             let input = copy_range input 0 32 hash;
             let input = copy_range input 32 64 (leftPad32 (big_bytes r));
             let input = copy_range input 64 96 (leftPad32 (big_bytes s));
             let input = copy_range input 96 128 (leftPad32 (big_bytes (key_X sk)));
             let input = copy_range input 128 160 (leftPad32 (big_bytes (key_Y sk)));
             Some (Some input, f)
           }
       }
   }"

lemma length_leftPad32 [simp]: "length (leftPad32 b) = 32"
  by (simp add: leftPad32_def)

text \<open>The padding keeps the number (modulo the 256 bits that fit).\<close>

lemma be_val_leftPad32: "be_val (leftPad32 b) = be_val b mod 256 ^ 32"
proof (cases "32 \<le> length b")
  case True
  have "be_val b = be_val (take (length b - 32) b) * 256 ^ 32 + be_val (drop (length b - 32) b)"
    using be_val_append [of "take (length b - 32) b" "drop (length b - 32) b"] True by simp
  then show ?thesis
    using be_val_bound [of "drop (length b - 32) b"] True by (simp add: leftPad32_def)
next
  case False
  then have "leftPad32 b = replicate (32 - length b) 0 @ b"
    by (simp add: leftPad32_def copy_at_def Let_def min_def)
  moreover have "(256 :: nat) ^ length b \<le> 256 ^ 32"
    by (rule power_increasing) (use False in simp_all)
  then have "be_val b < 256 ^ 32"
    using be_val_bound [of b] by (rule less_le_trans [rotated])
  ultimately show ?thesis by simp
qed

lemma fills_validP256Input:
  "lib_laws X \<Longrightarrow> fills f (validP256Input X f)
    (\<lambda>i. case i of None \<Rightarrow> True | Some input \<Rightarrow> length input = 160)"
  unfolding validP256Input_def
  by (auto intro!: fill_intro split: prod.splits)

lemmas fills_bind_validP256 [fill_intro] = fills_bind [OF fills_validP256Input]

definition p256_input :: "lib \<Rightarrow> bool \<Rightarrow> filler \<Rightarrow> (byte list \<times> filler) option" where
  "p256_input X b f =
     (if b then do {
        (inp, f) \<leftarrow> validP256Input X f;
        (case inp of Some inp \<Rightarrow> Some (inp, f) | None \<Rightarrow> ByteSlice 160 f)
      } else ByteSlice 160 f)"

lemma fills_p256_input: "lib_laws X \<Longrightarrow> fills f (p256_input X b f) (\<lambda>i. length i = 160)"
  unfolding p256_input_def
  by (auto intro!: fill_intro fills_ByteSlice split: option.splits)

lemmas fills_bind_p256_input [fill_intro] = fills_bind [OF fills_p256_input]

definition p256VerifyAddr :: "lib \<Rightarrow> address" where "p256VerifyAddr X = HexToAddress X ''0x0100''"

definition p256Caller_call :: "'p program_api \<Rightarrow> lib \<Rightarrow> 'p \<Rightarrow> filler \<Rightarrow> 'p call_result" where
  "p256Caller_call P X p f = do {
     (b, f) \<leftarrow> Bool f;
     (input, f) \<leftarrow> p256_input X b f;
     (g, f) \<leftarrow> GasInt f;
     gas \<leftarrow> MustFromBig X g;
     (v, f) \<leftarrow> BigInt32 f;
     let c = \<lparr>Gas = gas, Address = p256VerifyAddr X, Value = v, InOffset = 0,
       InSize = 160, OutOffset = 0, OutSize = 32\<rparr>;
     let p = Mstore P input 0 p;
     (p, f) \<leftarrow> CallRandomizer P p f c;
     Some ((None, p), f)
   }"

interpretation p256_c: precompile_contract P X "p256Caller_call P X" for P X
  by unfold_locales (auto simp: p256Caller_call_def intro!: fill_intro grow_intro)

subsection \<open>Properties\<close>

text \<open>\<open>CallRandomizer\<close> returns and emits exactly one call of the object: gas, address, value (where
  the opcode takes one) and three of the four memory bounds are as the caller set them, and at most one
  bound is replaced by a drawn one.\<close>

theorem CallRandomizer_one_call:
  assumes "filler_ok f"
  shows "\<exists>c' q n. CallRandomizer P p f c = Some (q, advance n f) \<and> same_call c c' \<and>
    q \<in> {Call P (GoU256 (Gas c)) (GoAddress (Address c)) (GoBig (Value c)) (GoUint32 (InOffset c'))
            (GoUint32 (InSize c')) (GoUint32 (OutOffset c')) (GoUint32 (OutSize c')) p,
          CallCode P (GoU256 (Gas c)) (GoAddress (Address c)) (GoBig (Value c)) (GoUint32 (InOffset c'))
            (GoUint32 (InSize c')) (GoUint32 (OutOffset c')) (GoUint32 (OutSize c')) p,
          StaticCall P (GoU256 (Gas c)) (GoAddress (Address c)) (GoUint32 (InOffset c'))
            (GoUint32 (InSize c')) (GoUint32 (OutOffset c')) (GoUint32 (OutSize c')) p}"
proof -
  obtain c' n where c': "CallRandomizer_modify f c = Some (c', advance n f)" "same_call c c'"
    using fills_CallRandomizer_modify [of f c] assms by (auto simp: fills_def returns_iff)
  define b where "b = tape (advance n f) 0"
  have byte: "Byte (advance n f) = Some (b, advance (n + 1) f)"
    using Byte_spec [of "advance n f"] assms by (simp add: b_def advance_advance)
  have same: "Gas c' = Gas c" "Address c' = Address c" "Value c' = Value c"
    using c'(2) by (simp_all add: same_call_def)
  have "b mod 3 = 0 \<or> b mod 3 = 1 \<or> b mod 3 = 2"
  proof -
    have "unat (b mod 3) < 3" by (simp add: unat_mod)
    then have "unat (b mod 3) = 0 \<or> unat (b mod 3) = 1 \<or> unat (b mod 3) = 2" by linarith
    then show ?thesis by (auto simp: word_unat_eq_iff)
  qed
  then show ?thesis
    using c' same
    by (elim disjE; intro exI [of _ c'] exI [of _ "n + 1"])
      (simp_all add: CallRandomizer_def c'(1) byte same Let_def, blast+)
qed

theorem CallRandomizer_one_call_witness:
  "\<exists>c' q n. CallRandomizer sample_program [] (NewFiller [0, 7, 4])
      \<lparr>Gas = 1, Address = [2], Value = 3, InOffset = 4, InSize = 5, OutOffset = 6, OutSize = 7\<rparr> =
      Some (q, advance n (NewFiller [0, 7, 4])) \<and>
    same_call \<lparr>Gas = 1, Address = [2], Value = 3, InOffset = 4, InSize = 5, OutOffset = 6,
      OutSize = 7\<rparr> c'"
  using CallRandomizer_one_call [OF filler_ok_NewFiller, of sample_program "[]" "[0, 7, 4]"] by blast

text \<open>The ECRECOVER input is the hash, the recovery byte as a 32-byte number shifted to 27 or 28
  as Ethereum wants it, and the two halves of the signature.\<close>

theorem ecrecover_input_layout:
  assumes "length hash = 32" and "length sig = 65" and "sig ! 64 \<le> 1"
  shows "\<exists>v. ecrecover_input hash sig = Some (hash @ v @ take 64 sig) \<and> length v = 32 \<and>
    be_val v = 27 + unat (sig ! 64)"
proof -
  have "take 64 sig = take 32 sig @ take 32 (drop 32 sig)"
    using take_add [of 32 32 sig] by simp
  moreover have "unat (sig ! 64 + 27) = 27 + unat (sig ! 64)"
    using assms(3) by (simp add: word_le_nat_alt unat_word_ariths)
  ultimately show ?thesis
    by (intro exI [of _ "replicate 31 0 @ [sig ! 64 + 27]"])
      (use be_val_replicate_0 [of 31 "[]"] in
        \<open>simp add: ecrecover_input_Some [OF assms(2,1)] del: be_val_replicate_0\<close>)
qed

theorem ecrecover_input_layout_witness:
  "\<exists>v. ecrecover_input (replicate 32 9) (replicate 64 7 @ [1]) = Some (replicate 32 9 @ v @ replicate 64 7) \<and>
    be_val v = 28"
  using ecrecover_input_layout [of "replicate 32 9" "replicate 64 7 @ [1]"]
  by (auto simp: nth_append)

text \<open>\<open>leftPad32\<close> returns 32 bytes with the same number, for numbers up to 256 bits, and the low
  256 bits of larger ones.\<close>

theorem leftPad32_number:
  "length (leftPad32 b) = 32 \<and> be_val (leftPad32 b) = be_val b mod 256 ^ 32"
  by (simp only: length_leftPad32 be_val_leftPad32)

text \<open>The MODEXP input has the three lengths as 32-byte big-endian numbers in front of the three
  operands, so its length is the one the precompile expects.\<close>

theorem modexp_input_layout:
  assumes "lib_laws X" and "length base < 2 ^ 32" and "length ex < 2 ^ 32" and "length md < 2 ^ 32"
  shows "\<exists>lb le lm. modexp_input X base ex md = lb @ le @ lm @ base @ ex @ md \<and>
    length lb = 32 \<and> length le = 32 \<and> length lm = 32 \<and>
    be_val lb = length base \<and> be_val le = length ex \<and> be_val lm = length md"
proof -
  have "be_val (LeftPadBytes X (int32ToByte n) 32) = n \<and> length (LeftPadBytes X (int32ToByte n) 32) = 32"
    if "n < 2 ^ 32" for n
    using that by (simp add: LeftPadBytes_eq [OF assms(1)] int32ToByte_def be_val_be_bytes unat_of_nat)
  then show ?thesis using assms(2-4) by (auto simp: modexp_input_def)
qed

theorem modexp_input_layout_witness:
  "\<exists>lb le lm. modexp_input sample_lib [1, 2] [3] [] = lb @ le @ lm @ [1, 2] @ [3] @ [] \<and>
    be_val lb = 2 \<and> be_val le = 1 \<and> be_val lm = 0"
proof -
  obtain lb le lm where "modexp_input sample_lib [1, 2] [3] [] = lb @ le @ lm @ [1, 2] @ [3] @ []"
    "be_val lb = length [1 :: byte, 2]" "be_val le = length [3 :: byte]"
    "be_val lm = length ([] :: byte list)"
    using modexp_input_layout [OF sample_lib_laws, of "[1, 2]" "[3]" "[]"] by fastforce
  then show ?thesis by (intro exI [of _ lb] exI [of _ le] exI [of _ lm]) simp
qed

lemma be_bytes_u64: "length bs = 8 \<Longrightarrow> be_bytes 8 (unat (of_nat (be_val bs) :: u64)) = bs"
  using be_val_bound [of bs] be_bytes_be_val [of bs] by (simp add: unat_of_nat)

lemma be_bytes_u32: "length bs = 4 \<Longrightarrow> be_bytes 4 (unat (of_nat (be_val bs) :: u32)) = bs"
  using be_val_bound [of bs] be_bytes_be_val [of bs] by (simp add: unat_of_nat)

lemma put_words_spec:
  "filler_ok f \<Longrightarrow> offset + 8 * n \<le> length input \<Longrightarrow> put_words n offset input f =
    Some ((offset + 8 * n, take offset input @ upcoming (8 * n) f @ drop (offset + 8 * n) input),
      advance (8 * n) f)"
proof (induction n arbitrary: offset input f)
  case 0
  then show ?case by (simp add: advance_0 upcoming_def)
next
  case (Suc n)
  define i' where "i' = take offset input @ upcoming 8 f @ drop (offset + 8) input"
  have len: "length i' = length input" using Suc.prems(2) by (simp add: i'_def)
  have "copy_range input offset (offset + 8) (be_bytes 8 (unat (of_nat (be_val (upcoming 8 f)) :: u64))) = i'"
    by (simp add: be_bytes_u64 copy_range_def i'_def Let_def)
  then have "put_words (Suc n) offset input f = put_words n (offset + 8) i' (advance 8 f)"
    using Suc.prems by (simp add: Uint64_spec)
  also have "\<dots> = Some ((offset + 8 + 8 * n, take (offset + 8) i' @ upcoming (8 * n) (advance 8 f) @
      drop (offset + 8 + 8 * n) i'), advance (8 * n) (advance 8 f))"
    using Suc.prems len by (intro Suc.IH) simp_all
  also have "take (offset + 8) i' = take offset input @ upcoming 8 f"
    using Suc.prems(2) by (simp add: i'_def)
  also have "drop (offset + 8 + 8 * n) i' = drop (offset + 8 + 8 * n) input"
    using Suc.prems(2) by (simp add: i'_def add.commute)
  finally show ?case
    using upcoming_add [OF Suc.prems(1), of 8 "8 * n"] advance_advance [OF Suc.prems(1), of "8 * n" 8]
    by (simp add: add.assoc)
qed

text \<open>The BLAKE2 input is made of the next 212 bytes of the filler in order, rounds, state,
  message and offsets, and a final flag, which is drawn when the next coin says so and 0 or 1
  otherwise.\<close>

theorem blake2f_input_layout:
  assumes "filler_ok f"
  shows "\<exists>flag n. blake2f_input f = Some (upcoming 212 f @ [flag], advance n f) \<and>
    (tape f 212 > 127 \<or> flag \<in> {0, 1})"
proof -
  have ok: "filler_ok (advance m f)" for m using assms by simp
  define i4 where "i4 = upcoming 4 f @ replicate 209 0"
  have len4: "length i4 = 213" by (simp add: i4_def)
  have 1: "copy_range (replicate 213 0) 0 4 (be_bytes 4 (unat (of_nat (be_val (upcoming 4 f)) :: u32))) = i4"
    by (simp add: be_bytes_u32 copy_range_def i4_def)
  have up: "upcoming (m + k) f = upcoming m f @ upcoming k (advance m f)" for m k
    by (rule upcoming_add [OF assms])
  have 2: "put_words 8 4 i4 (advance 4 f) = Some ((68, upcoming 68 f @ replicate 145 0), advance 68 f)"
    using put_words_spec [OF ok [of 4], of 4 8 i4] up [of 4 64]
    by (simp add: len4 advance_advance [OF assms]) (simp add: i4_def)
  have 3: "put_words 16 68 (upcoming 68 f @ replicate 145 0) (advance 68 f) =
      Some ((196, upcoming 196 f @ replicate 17 0), advance 196 f)"
    using put_words_spec [OF ok [of 68], of 68 16 "upcoming 68 f @ replicate 145 0"] up [of 68 128]
    by (simp add: advance_advance [OF assms])
  have 4: "put_words 2 196 (upcoming 196 f @ replicate 17 0) (advance 196 f) =
      Some ((212, upcoming 212 f @ [0]), advance 212 f)"
    using put_words_spec [OF ok [of 196], of 196 2 "upcoming 196 f @ replicate 17 0"] up [of 196 16]
    by (simp add: advance_advance [OF assms])
  have flag: "(upcoming 212 f @ [0])[212 := x] = upcoming 212 f @ [x]" for x
    by (simp add: list_update_append)
  show ?thesis
    by (auto simp: blake2f_input_def Uint32_spec [OF assms] 1 2 3 4 Let_def Bool_def
        Byte_spec [OF ok] advance_advance [OF assms] tape_advance [OF assms] flag)
qed

theorem blake2f_input_layout_witness:
  "\<exists>flag n. blake2f_input (NewFiller [5]) =
    Some (upcoming 212 (NewFiller [5]) @ [flag], advance n (NewFiller [5])) \<and> flag \<in> {0, 1}"
  using blake2f_input_layout [OF filler_ok_NewFiller, of "[5]"]
  by (simp add: tape_def NewFiller_def)

end
