(* ===== verification/PrecompilesCurves.thy ===== *)
theory PrecompilesCurves
  imports Precompiles
begin

text \<open>
  The callers of the BN254 precompiles of \<open>generator/precompiles\<close> (\<open>bn256util.go\<close>, \<open>bn256add.go\<close>,
  \<open>bn256ScalarMul.go\<close>, \<open>bn256pairing.go\<close>).  The curve arithmetic is a parameter; what is modelled
  is how its results are laid out in memory and how the filler is read.
\<close>

subsection \<open>BN254\<close>

definition bn256EncodeG1 :: "lib \<Rightarrow> g1 \<Rightarrow> byte list" where
  "bn256EncodeG1 X pt =
     (let out = replicate 64 0;
          xb = bn254_fp_Bytes X (g1_X pt);
          yb = bn254_fp_Bytes X (g1_Y pt);
          out = copy_range out 0 32 xb
      in copy_range out 32 64 yb)"

definition bn256EncodeG2 :: "lib \<Rightarrow> g2 \<Rightarrow> byte list" where
  "bn256EncodeG2 X pt =
     (let out = replicate 128 0;
          xa1 = bn254_fp_Bytes X (X_A1 pt);
          xa0 = bn254_fp_Bytes X (X_A0 pt);
          ya1 = bn254_fp_Bytes X (Y_A1 pt);
          ya0 = bn254_fp_Bytes X (Y_A0 pt);
          out = copy_range out 0 32 xa1;
          out = copy_range out 32 64 xa0;
          out = copy_range out 64 96 ya1
      in copy_range out 96 128 ya0)"

definition bn256G1ScalarBaseMult :: "lib \<Rightarrow> int \<Rightarrow> byte list" where
  "bn256G1ScalarBaseMult X k = bn256EncodeG1 X (bn254_G1_mulBase X k)"

definition bn256addAddr :: "lib \<Rightarrow> address" where "bn256addAddr X = HexToAddress X ''0x6''"

definition bn256Caller_call :: "'p program_api \<Rightarrow> lib \<Rightarrow> 'p \<Rightarrow> filler \<Rightarrow> 'p call_result" where
  "bn256Caller_call P X p f = do {
     (k, f) \<leftarrow> BigInt32 f;
     let point = bn256G1ScalarBaseMult X k;
     (k2, f) \<leftarrow> BigInt32 f;
     let point2 = bn256G1ScalarBaseMult X k2;
     (g, f) \<leftarrow> GasInt f;
     gas \<leftarrow> MustFromBig X g;
     (v, f) \<leftarrow> BigInt32 f;
     let c = \<lparr>Gas = gas, Address = bn256addAddr X, Value = v, InOffset = 0,
       InSize = 128, OutOffset = 0, OutSize = 64\<rparr>;
     let p = Mstore P point 0 p;
     let p = Mstore P point2 64 p;
     (p, f) \<leftarrow> CallRandomizer P p f c;
     Some ((None, p), f)
   }"

definition bn256mulAddr :: "lib \<Rightarrow> address" where "bn256mulAddr X = HexToAddress X ''0x7''"

definition bn256MulCaller_call :: "'p program_api \<Rightarrow> lib \<Rightarrow> 'p \<Rightarrow> filler \<Rightarrow> 'p call_result" where
  "bn256MulCaller_call P X p f = do {
     (k, f) \<leftarrow> BigInt32 f;
     let point = bn256G1ScalarBaseMult X k;
     (scalar, f) \<leftarrow> BigInt32 f;
     (g, f) \<leftarrow> GasInt f;
     gas \<leftarrow> MustFromBig X g;
     (v, f) \<leftarrow> BigInt32 f;
     let c = \<lparr>Gas = gas, Address = bn256mulAddr X, Value = v, InOffset = 0,
       InSize = 96, OutOffset = 0, OutSize = 64\<rparr>;
     let p = Mstore P point 0 p;
     let bytes = replicate 32 0;
     let bytes = snd (copy_at bytes 0 (big_bytes (nat scalar)));
     let p = Mstore P bytes 64 p;
     (p, f) \<leftarrow> CallRandomizer P p f c;
     Some ((None, p), f)
   }"

text \<open>
  The pairing input: \<open>rounds\<close> pairs of multiples of the generators, and a last pair that
  balances the sum of the products.
\<close>

fun pairing_loop ::
    "lib \<Rightarrow> nat \<Rightarrow> g1 list \<Rightarrow> g2 list \<Rightarrow> int \<Rightarrow> filler \<Rightarrow> ((g1 list \<times> g2 list \<times> int) \<times> filler) option"
where
  "pairing_loop X 0 cs ts target f = Some ((cs, ts, target), f)"
| "pairing_loop X (Suc n) cs ts target f = do {
     (aMul, f) \<leftarrow> BigInt32 f;
     let pointG1 = bn254_G1_mulBase X aMul;
     (bMul, f) \<leftarrow> BigInt32 f;
     let pointG2 = bn254_G2_mulBase X bMul;
     pairing_loop X n (cs @ [pointG1]) (ts @ [pointG2]) (target + aMul * bMul) f
   }"

definition pairing :: "lib \<Rightarrow> nat \<Rightarrow> filler \<Rightarrow> ((g1 list \<times> g2 list) \<times> filler) option" where
  "pairing X rounds f = do {
     ((cs, ts, target), f) \<leftarrow> pairing_loop X rounds [] [] 0 f;
     let pointG1 = bn254_G1_mulBase X target;
     let pointG1 = bn254_G1_Neg X pointG1;
     let pointG2 = bn254_G2_mulBase X 1;
     Some ((cs @ [pointG1], ts @ [pointG2]), f)
   }"

text \<open>\<open>slices.Insert\<close> of one element.\<close>

definition insert_at :: "'a list \<Rightarrow> nat \<Rightarrow> 'a \<Rightarrow> 'a list" where
  "insert_at xs i x = take i xs @ [x] @ drop i xs"

text \<open>
  The loop of \<open>bloatPairing\<close>; its bound is a byte drawn again for every test of the loop
  condition, so it stops at the latest when the counter reaches 255.
\<close>

function bloat_loop ::
    "lib \<Rightarrow> nat \<Rightarrow> g1 list \<Rightarrow> g2 list \<Rightarrow> filler \<Rightarrow> ((g1 list \<times> g2 list) \<times> filler) option"
where
  "bloat_loop X i a b f = do {
     (n, f) \<leftarrow> Byte f;
     if i < unat n then do {
       (index, f) \<leftarrow> Byte f;
       let k = unat index;
       ((a, b), f) \<leftarrow>
         (if k < length a \<and> k < length b then do {
            let a = insert_at a k (a ! k);
            let b = insert_at b k (b ! k);
            (inf, f) \<leftarrow> Bool f;
            if inf then do {
              let a = a[k := bn254_G1_mulBase X 0];
              (mul, f) \<leftarrow> BigInt32 f;
              Some ((a, b[k := bn254_G2_mulBase X mul]), f)
            } else do {
              (mul, f) \<leftarrow> BigInt32 f;
              Some ((a[k := bn254_G1_mulBase X mul], b[k := bn254_G2_mulBase X 0]), f)
            }
          } else Some ((a, b), f));
       bloat_loop X (Suc i) a b f
     } else Some ((a, b), f)
   }"
  by pat_completeness auto
termination
proof (relation "measure (\<lambda>(X, i, a, b, f). 256 - i)")
  fix i :: nat and n :: byte
  assume "i < unat n"
  then have "i < 256" using unat_byte [of n] by (rule less_trans)
  then show "((X :: lib, Suc i, a :: g1 list, b :: g2 list, f :: filler), X', i, a', b', f')
      \<in> measure (\<lambda>(X, i, a, b, f). 256 - i)" for X a b f X' a' b' f'
    by simp
qed simp

declare bloat_loop.simps [simp del]

definition bloatPairing :: "lib \<Rightarrow> g1 list \<Rightarrow> g2 list \<Rightarrow> filler \<Rightarrow> ((g1 list \<times> g2 list) \<times> filler) option" where
  "bloatPairing X a b f = bloat_loop X 0 a b f"

fun store_pairs ::
    "'p program_api \<Rightarrow> lib \<Rightarrow> g1 list \<Rightarrow> g2 list \<Rightarrow> u32 \<Rightarrow> 'p \<Rightarrow> 'p option"
where
  "store_pairs P X [] ts offset p = Some p"
| "store_pairs P X (c # cs) [] offset p = None"
| "store_pairs P X (c # cs) (t # ts) offset p =
     (let p = Mstore P (bn256EncodeG1 X c) offset p;
          offset = offset + 64;
          p = Mstore P (bn256EncodeG2 X t) offset p;
          offset = offset + 128
      in store_pairs P X cs ts offset p)"

definition bn256pairingAddr :: "lib \<Rightarrow> address" where "bn256pairingAddr X = HexToAddress X ''0x8''"

definition bn256PairingCaller_call ::
    "'p program_api \<Rightarrow> lib \<Rightarrow> 'p \<Rightarrow> filler \<Rightarrow> 'p call_result" where
  "bn256PairingCaller_call P X p f = do {
     (rounds, f) \<leftarrow> Byte f;
     ((cs, ts), f) \<leftarrow> pairing X (unat rounds) f;
     (bloat, f) \<leftarrow> Bool f;
     ((cs, ts), f) \<leftarrow> (if bloat then bloatPairing X cs ts f else Some ((cs, ts), f));
     let inSize = of_nat (length cs * 192);
     (g, f) \<leftarrow> GasInt f;
     gas \<leftarrow> MustFromBig X g;
     (v, f) \<leftarrow> BigInt32 f;
     let c = \<lparr>Gas = gas, Address = bn256pairingAddr X, Value = v, InOffset = 0,
       InSize = inSize, OutOffset = 0, OutSize = 64\<rparr>;
     p \<leftarrow> store_pairs P X cs ts 0 p;
     (p, f) \<leftarrow> CallRandomizer P p f c;
     Some ((None, p), f)
   }"

interpretation bn256_c: precompile_contract P X "bn256Caller_call P X" for P X
  by unfold_locales (auto simp: bn256Caller_call_def intro!: fill_intro grow_intro)

interpretation bn256Mul_c: precompile_contract P X "bn256MulCaller_call P X" for P X
  by unfold_locales (auto simp: bn256MulCaller_call_def intro!: fill_intro grow_intro)

lemma fills_pairing_loop:
  "length cs = length ts \<Longrightarrow> fills f (pairing_loop X n cs ts target f)
    (\<lambda>(cs', ts', t). length cs' = length cs + n \<and> length ts' = length ts + n)"
proof (induction n arbitrary: cs ts target f)
  case (Suc n)
  have "fills f' (pairing_loop X n (cs @ [a]) (ts @ [b]) t f')
      (\<lambda>(cs', ts', t). length cs' = length cs + Suc n \<and> length ts' = length ts + Suc n)" for a b t f'
    using Suc.IH [of "cs @ [a]" "ts @ [b]"] Suc.prems by simp
  then show ?case by (auto intro!: fill_intro)
qed (auto intro!: fill_intro)

lemmas fills_bind_pairing_loop = fills_pairing_loop [THEN fills_bind]

lemma fills_pairing:
  "fills f (pairing X n f) (\<lambda>(cs, ts). length cs = Suc n \<and> length ts = Suc n)"
  unfolding pairing_def by (auto intro!: fill_intro fills_bind_pairing_loop)

lemmas fills_bind_pairing [fill_intro] = fills_bind [OF fills_pairing]

lemma length_insert_at [simp]: "i \<le> length xs \<Longrightarrow> length (insert_at xs i x) = Suc (length xs)"
  by (simp add: insert_at_def)

lemma fills_bloat_loop:
  "length a = length b \<Longrightarrow> m \<le> length a \<Longrightarrow> fills f (bloat_loop X i a b f)
    (\<lambda>(a', b'). length a' = length b' \<and> m \<le> length a')"
proof (induction "256 - i" arbitrary: i a b f rule: less_induct)
  case less
  have IH: "fills f' (bloat_loop X (Suc i) a' b' f') (\<lambda>(a'', b''). length a'' = length b'' \<and> m \<le> length a'')"
    if "length a' = length b'" "m \<le> length a'" "i < unat n" for a' b' f' and n :: byte
  proof -
    have "i < 256" using that(3) unat_byte [of n] by (rule less_trans)
    then show ?thesis using less.hyps that(1,2) by simp
  qed
  have R: "fills f' (if k < length a \<and> k < length b then do {
            let a = insert_at a k (a ! k);
            let b = insert_at b k (b ! k);
            (inf, f) \<leftarrow> Bool f';
            if inf then do {
              let a = a[k := bn254_G1_mulBase X 0];
              (mul, f) \<leftarrow> BigInt32 f;
              Some ((a, b[k := bn254_G2_mulBase X mul]), f)
            } else do {
              (mul, f) \<leftarrow> BigInt32 f;
              Some ((a[k := bn254_G1_mulBase X mul], b[k := bn254_G2_mulBase X 0]), f)
            }
          } else Some ((a, b), f'))
        (\<lambda>(a', b'). length a' = length b' \<and> m \<le> length a')" for k f'
    using less.prems by (auto intro!: fill_intro)
  show ?case
    using less.prems
    by (subst bloat_loop.simps) (auto intro!: fill_intro fills_bind [OF R] intro: IH)
qed

lemma fills_bloatPairing:
  "length a = length b \<Longrightarrow> fills f (bloatPairing X a b f)
    (\<lambda>(a', b'). length a' = length b' \<and> length a \<le> length a')"
  unfolding bloatPairing_def by (rule fills_bloat_loop) simp_all

lemma store_pairs_Some:
  "program_laws P \<Longrightarrow> length cs \<le> length ts \<Longrightarrow>
    \<exists>p'. store_pairs P X cs ts offset p = Some p' \<and> appends P p p'"
proof (induction P X cs ts offset p rule: store_pairs.induct)
  case (3 P X c cs t ts offset p)
  define q where "q = Mstore P (bn256EncodeG2 X t) (offset + 64) (Mstore P (bn256EncodeG1 X c) offset p)"
  have "\<exists>p'. store_pairs P X cs ts (offset + 64 + 128) q = Some p' \<and> appends P q p'"
    using "3.IH" [OF refl refl refl refl] "3.prems" by (simp add: q_def)
  moreover have "appends P p q"
    unfolding q_def by (intro grow_intro appends_refl "3.prems")
  ultimately show ?case
    by (auto simp: q_def appends_def Let_def intro: prefix_order.order_trans)
qed auto

interpretation bn256Pairing_c: precompile_contract P X "bn256PairingCaller_call P X" for P X
proof unfold_locales
  fix f p
  assume laws: "program_laws P" "lib_laws X"
  have B: "fills f' (if bloat then bloatPairing X cs ts f' else Some ((cs, ts), f'))
      (\<lambda>(cs', ts'). length cs' = length ts')" if "length cs = length ts" for cs ts bloat f'
    using fills_bloatPairing [OF that, of f' X] that
    by (auto intro!: fill_intro elim!: fills_weaken)
  have S: "fills f' (store_pairs P X cs ts 0 p \<bind> k) Q"
    if "length cs = length ts" "\<And>p'. appends P p p' \<Longrightarrow> fills f' (k p') Q" for cs ts f' k Q
    using store_pairs_Some [OF laws(1), of cs ts X 0 p] that by auto
  show "fills f (bn256PairingCaller_call P X p f) (\<lambda>(err, p'). appends P p p')"
    unfolding bn256PairingCaller_call_def
    using laws by (auto intro!: fill_intro grow_intro fills_bind [OF B] S)
qed

subsection \<open>Properties\<close>

text \<open>A pair that contributes to the pairing product: no component is the point at infinity.\<close>

definition counts :: "lib \<Rightarrow> g1 \<times> g2 \<Rightarrow> bool" where
  "counts X q \<longleftrightarrow> fst q \<noteq> bn254_G1_mulBase X 0 \<and> snd q \<noteq> bn254_G2_mulBase X 0"

lemma zip_insert:
  assumes "k < length a" and "length a = length b"
  shows "zip ((insert_at a k x)[k := u]) ((insert_at b k y)[k := v]) =
    take k (zip a b) @ (u, v) # drop k (zip a b)"
  using assms by (simp add: insert_at_def list_update_append take_zip drop_zip)

lemma filter_take_drop: "filter Q (take k zs) @ filter Q (drop k zs) = filter Q zs"
  using filter_append [of Q "take k zs" "drop k zs"] by simp

lemma bloat_loop_product:
  assumes "length a = length b"
  shows "fills f (bloat_loop X i a b f)
    (\<lambda>(a', b'). length a' = length b' \<and> filter (counts X) (zip a' b') = filter (counts X) (zip a b))"
  using assms
proof (induction "256 - i" arbitrary: i a b f rule: less_induct)
  case less
  have IH: "fills f' (bloat_loop X (Suc i) a' b' f') (\<lambda>(a'', b''). length a'' = length b'' \<and>
      filter (counts X) (zip a'' b'') = filter (counts X) (zip a b))"
    if "length a' = length b'" "filter (counts X) (zip a' b') = filter (counts X) (zip a b)" "i < unat n"
    for a' b' f' and n :: byte
  proof -
    have "i < 256" using that(3) unat_byte [of n] by (rule less_trans)
    then show ?thesis using less.hyps [of "Suc i" a' b' f'] that(1,2) by simp
  qed
  have R: "fills f' (if k < length a \<and> k < length b then do {
            let a = insert_at a k (a ! k);
            let b = insert_at b k (b ! k);
            (inf, f) \<leftarrow> Bool f';
            if inf then do {
              let a = a[k := bn254_G1_mulBase X 0];
              (mul, f) \<leftarrow> BigInt32 f;
              Some ((a, b[k := bn254_G2_mulBase X mul]), f)
            } else do {
              (mul, f) \<leftarrow> BigInt32 f;
              Some ((a[k := bn254_G1_mulBase X mul], b[k := bn254_G2_mulBase X 0]), f)
            }
          } else Some ((a, b), f'))
        (\<lambda>(a', b'). length a' = length b' \<and> filter (counts X) (zip a' b') = filter (counts X) (zip a b))"
    for k f'
    using less.prems by (auto intro!: fill_intro simp: zip_insert counts_def filter_take_drop)
  show ?case
    using less.prems
    by (subst bloat_loop.simps) (auto intro!: fill_intro fills_bind [OF R] intro: IH)
qed

text \<open>C24. \<open>bloatPairing\<close> returns, keeps the two point lists of equal length, and does not change the
  pairing: the pairs without a point at infinity are the same, in the same order.\<close>

theorem bloatPairing_keeps_pairing:
  assumes "filler_ok f" and "length a = length b"
  shows "\<exists>a' b' n. bloatPairing X a b f = Some ((a', b'), advance n f) \<and> length a' = length b' \<and>
    filter (counts X) (zip a' b') = filter (counts X) (zip a b)"
  using bloat_loop_product [OF assms(2), of f X 0] assms(1)
  by (auto simp: bloatPairing_def fills_def returns_iff)

theorem bloatPairing_keeps_pairing_witness:
  "\<exists>a' b' n. bloatPairing sample_lib [\<lparr>g1_X = 1, g1_Y = 1\<rparr>] [\<lparr>X_A0 = 1, X_A1 = 0, Y_A0 = 0, Y_A1 = 0\<rparr>]
      (NewFiller [1, 0, 200, 0, 0, 0, 5, 0]) =
      Some ((a', b'), advance n (NewFiller [1, 0, 200, 0, 0, 0, 5, 0])) \<and> length a' = length b'"
  using bloatPairing_keeps_pairing [OF filler_ok_NewFiller, of "[\<lparr>g1_X = 1, g1_Y = 1\<rparr>]"
      "[\<lparr>X_A0 = 1, X_A1 = 0, Y_A0 = 0, Y_A1 = 0\<rparr>]" sample_lib "[1, 0, 200, 0, 0, 0, 5, 0]"]
  by auto

lemma pairing_loop_spec:
  "filler_ok f \<Longrightarrow> \<exists>as bs m. pairing_loop X n cs ts t f =
      Some ((cs @ map (bn254_G1_mulBase X) as, ts @ map (bn254_G2_mulBase X) bs,
        t + sum_list (map2 (*) as bs)), advance m f) \<and> length as = n \<and> length bs = n"
proof (induction n arbitrary: cs ts t f)
  case 0
  then show ?case by (intro exI [of _ "[]"] exI [of _ 0]) (simp add: advance_0)
next
  case (Suc n)
  define a where "a = int (be_val (upcoming 4 f))"
  define b where "b = int (be_val (upcoming 4 (advance 4 f)))"
  have ok: "filler_ok (advance 4 f)" "filler_ok (advance 8 f)" using Suc.prems by simp_all
  from Suc.IH [OF ok(2), of "cs @ [bn254_G1_mulBase X a]" "ts @ [bn254_G2_mulBase X b]" "t + a * b"]
  obtain as bs m where "pairing_loop X n (cs @ [bn254_G1_mulBase X a]) (ts @ [bn254_G2_mulBase X b])
      (t + a * b) (advance 8 f) =
    Some (((cs @ [bn254_G1_mulBase X a]) @ map (bn254_G1_mulBase X) as,
      (ts @ [bn254_G2_mulBase X b]) @ map (bn254_G2_mulBase X) bs,
      t + a * b + sum_list (map2 (*) as bs)), advance m (advance 8 f))"
    "length as = n" "length bs = n" by blast
  moreover have "pairing_loop X (Suc n) cs ts t f =
      pairing_loop X n (cs @ [bn254_G1_mulBase X a]) (ts @ [bn254_G2_mulBase X b]) (t + a * b) (advance 8 f)"
    using BigInt32_spec [OF Suc.prems] BigInt32_spec [OF ok(1)] advance_advance [OF Suc.prems, of 4 4]
    by (simp add: a_def b_def)
  ultimately show ?case
    by (intro exI [of _ "a # as"] exI [of _ "b # bs"] exI [of _ "8 + m"])
      (simp add: advance_advance [OF Suc.prems])
qed

text \<open>The pairing input is balanced: its pairs are multiples \<open>a\<^sub>i\<close>, \<open>b\<^sub>i\<close> of the generators, and a last
  pair that negates the generator multiple of the sum of the products, so the product of the pairings
  is one on a valid curve.\<close>

theorem pairing_is_balanced:
  assumes "filler_ok f"
  shows "\<exists>as bs m. pairing X n f = Some ((map (bn254_G1_mulBase X) as @
        [bn254_G1_Neg X (bn254_G1_mulBase X (sum_list (map2 (*) as bs)))],
      map (bn254_G2_mulBase X) bs @ [bn254_G2_mulBase X 1]), advance m f) \<and>
    length as = n \<and> length bs = n"
proof -
  obtain as bs m where "pairing_loop X n [] [] 0 f = Some ((map (bn254_G1_mulBase X) as,
      map (bn254_G2_mulBase X) bs, sum_list (map2 (*) as bs)), advance m f)"
    "length as = n" "length bs = n"
    using pairing_loop_spec [OF assms, of X n "[]" "[]" 0] by auto
  then show ?thesis
    by (intro exI [of _ as] exI [of _ bs] exI [of _ m]) (simp add: pairing_def)
qed

theorem pairing_is_balanced_witness:
  "\<exists>as bs m. pairing sample_lib 2 (NewFiller [1, 2, 3]) = Some ((map (bn254_G1_mulBase sample_lib) as @
        [bn254_G1_Neg sample_lib (bn254_G1_mulBase sample_lib (sum_list (map2 (*) as bs)))],
      map (bn254_G2_mulBase sample_lib) bs @ [bn254_G2_mulBase sample_lib 1]),
      advance m (NewFiller [1, 2, 3])) \<and> length as = 2"
  using pairing_is_balanced [OF filler_ok_NewFiller, of sample_lib 2 "[1, 2, 3]"] by blast

end
