(* ===== verification/PrecompilesBLS.thy ===== *)
theory PrecompilesBLS
  imports PrecompilesCurves
begin

text \<open>
  The callers of the BLS12-381 precompiles of EIP-2537 (\<open>generator/precompiles/bls.go\<close>).
  A field element is laid out in 64 bytes of which the upper 16 are zero.
\<close>

definition blsG1AddAddr :: "lib \<Rightarrow> address" where "blsG1AddAddr X = HexToAddress X ''0x0b''"
definition blsG1MSMAddr :: "lib \<Rightarrow> address" where "blsG1MSMAddr X = HexToAddress X ''0x0c''"
definition blsG2AddAddr :: "lib \<Rightarrow> address" where "blsG2AddAddr X = HexToAddress X ''0x0d''"
definition blsG2MSMAddr :: "lib \<Rightarrow> address" where "blsG2MSMAddr X = HexToAddress X ''0x0e''"
definition blsPairingAddr :: "lib \<Rightarrow> address" where "blsPairingAddr X = HexToAddress X ''0x0f''"
definition blsMapG1Addr :: "lib \<Rightarrow> address" where "blsMapG1Addr X = HexToAddress X ''0x10''"
definition blsMapG2Addr :: "lib \<Rightarrow> address" where "blsMapG2Addr X = HexToAddress X ''0x11''"

definition blsG1Size :: nat where "blsG1Size = 128"
definition blsG2Size :: nat where "blsG2Size = 256"
definition blsScalarSize :: nat where "blsScalarSize = 32"
definition blsG1MSMItem :: nat where "blsG1MSMItem = blsG1Size + blsScalarSize"
definition blsG2MSMItem :: nat where "blsG2MSMItem = blsG2Size + blsScalarSize"
definition blsPairItem :: nat where "blsPairItem = blsG1Size + blsG2Size"

lemmas bls_sizes =
  blsG1Size_def blsG2Size_def blsScalarSize_def blsG1MSMItem_def blsG2MSMItem_def blsPairItem_def

subsection \<open>Encodings and random operands\<close>

text \<open>
  \<open>fp.BigEndian.PutElement((*[fp.Bytes]byte)(out[lo:hi]), e)\<close>; the conversion to an array
  pointer panics when the slice is too short.
\<close>

definition put_element :: "lib \<Rightarrow> byte list \<Rightarrow> nat \<Rightarrow> nat \<Rightarrow> nat \<Rightarrow> byte list option" where
  "put_element X out lo hi e =
     (if hi - lo < bls_fp_size X then None
      else Some (copy_range out lo hi (bls_fp_PutElement X e)))"

definition encodeBLSG1 :: "lib \<Rightarrow> g1 \<Rightarrow> byte list option" where
  "encodeBLSG1 X pt = do {
     let out = replicate blsG1Size 0;
     out \<leftarrow> put_element X out 16 64 (g1_X pt);
     out \<leftarrow> put_element X out 80 128 (g1_Y pt);
     Some out
   }"

definition encodeBLSG2 :: "lib \<Rightarrow> g2 \<Rightarrow> byte list option" where
  "encodeBLSG2 X pt = do {
     let out = replicate blsG2Size 0;
     out \<leftarrow> put_element X out 16 64 (X_A0 pt);
     out \<leftarrow> put_element X out 80 128 (X_A1 pt);
     out \<leftarrow> put_element X out 144 192 (Y_A0 pt);
     out \<leftarrow> put_element X out 208 256 (Y_A1 pt);
     Some out
   }"

definition randG1 :: "lib \<Rightarrow> filler \<Rightarrow> (g1 \<times> filler) option" where
  "randG1 X f = do {
     (b, f) \<leftarrow> ByteSlice (bls_fp_size X) f;
     let s = int (be_val b);
     Some (bls_G1_mul X (bls_G1_gen X) s, f)
   }"

definition randG2 :: "lib \<Rightarrow> filler \<Rightarrow> (g2 \<times> filler) option" where
  "randG2 X f = do {
     (b, f) \<leftarrow> ByteSlice (bls_fp_size X) f;
     let s = int (be_val b);
     Some (bls_G2_mul X (bls_G2_gen X) s, f)
   }"

definition encodeBLSFp :: "lib \<Rightarrow> filler \<Rightarrow> (byte list \<times> filler) option" where
  "encodeBLSFp X f = do {
     (b, f) \<leftarrow> ByteSlice (bls_fp_size X) f;
     let e = bls_fp_SetBytes X b;
     let out = replicate 64 0;
     out \<leftarrow> put_element X out 16 64 e;
     Some (out, f)
   }"

definition scalar32 :: "filler \<Rightarrow> (byte list \<times> filler) option" where
  "scalar32 f = do {
     let b = replicate blsScalarSize 0;
     (s, f) \<leftarrow> ByteSlice blsScalarSize f;
     Some (snd (copy_at b 0 s), f)
   }"

definition blsRounds :: "filler \<Rightarrow> nat \<Rightarrow> (nat \<times> filler) option" where
  "blsRounds f maxRounds = do {
     (b, f) \<leftarrow> Byte f;
     if b < 32 then do {
       (b, f) \<leftarrow> Byte f;
       Some (unat b mod maxRounds + 1, f)
     } else Some (1, f)
   }"

definition callBLS ::
    "'p program_api \<Rightarrow> lib \<Rightarrow> 'p \<Rightarrow> filler \<Rightarrow> address \<Rightarrow> u32 \<Rightarrow> u32 \<Rightarrow> ('p \<times> filler) option"
where
  "callBLS P X p f addr inSize outSize = do {
     (g, f) \<leftarrow> GasInt f;
     gas \<leftarrow> MustFromBig X g;
     (v, f) \<leftarrow> BigInt32 f;
     let c = \<lparr>Gas = gas, Address = addr, Value = v, InOffset = 0, InSize = inSize,
       OutOffset = 0, OutSize = outSize\<rparr>;
     CallRandomizer P p f c
   }"

lemma put_element_Some:
  "lib_laws X \<Longrightarrow> hi = lo + 48 \<Longrightarrow> hi \<le> length out \<Longrightarrow>
    put_element X out lo hi e = Some (take lo out @ bls_fp_PutElement X e @ drop hi out)"
  by (simp add: put_element_def bls_fp_size_48 length_bls_fp_PutElement copy_range_def Let_def)

lemma encodeBLSG1_Some:
  "lib_laws X \<Longrightarrow> encodeBLSG1 X pt = Some (replicate 16 0 @ bls_fp_PutElement X (g1_X pt) @
     replicate 16 0 @ bls_fp_PutElement X (g1_Y pt))"
  by (simp add: encodeBLSG1_def put_element_Some bls_sizes length_bls_fp_PutElement)

lemma encodeBLSG2_Some:
  "lib_laws X \<Longrightarrow> encodeBLSG2 X pt = Some (replicate 16 0 @ bls_fp_PutElement X (X_A0 pt) @
     replicate 16 0 @ bls_fp_PutElement X (X_A1 pt) @ replicate 16 0 @
     bls_fp_PutElement X (Y_A0 pt) @ replicate 16 0 @ bls_fp_PutElement X (Y_A1 pt))"
  by (simp add: encodeBLSG2_def put_element_Some bls_sizes length_bls_fp_PutElement)

lemma fills_encodeBLSG1 [fill_intro]:
  "lib_laws X \<Longrightarrow> (\<And>b. fills f (k b) Q) \<Longrightarrow> fills f (encodeBLSG1 X pt \<bind> k) Q"
  by (simp add: encodeBLSG1_Some)

lemma fills_encodeBLSG2 [fill_intro]:
  "lib_laws X \<Longrightarrow> (\<And>b. fills f (k b) Q) \<Longrightarrow> fills f (encodeBLSG2 X pt \<bind> k) Q"
  by (simp add: encodeBLSG2_Some)

lemma fills_put_element [fill_intro]:
  "lib_laws X \<Longrightarrow> hi = lo + 48 \<Longrightarrow> (\<And>b. fills f (k b) Q) \<Longrightarrow>
    fills f (put_element X out lo hi e \<bind> k) Q"
  by (simp add: put_element_def bls_fp_size_48)

lemma fills_randoms:
  "fills f (randG1 X f) (\<lambda>_. True)" "fills f (randG2 X f) (\<lambda>_. True)"
  "lib_laws X \<Longrightarrow> fills f (encodeBLSFp X f) (\<lambda>_. True)"
  "fills f (scalar32 f) (\<lambda>b. length b = 32)"
  "0 < m \<Longrightarrow> fills f (blsRounds f m) (\<lambda>n. 0 < n \<and> n \<le> m)"
  unfolding randG1_def randG2_def encodeBLSFp_def scalar32_def blsRounds_def
  by (auto intro!: fill_intro simp: blsScalarSize_def Suc_le_eq)

lemmas fills_bind_randoms [fill_intro] = fills_randoms [THEN fills_bind]

lemma fills_callBLS:
  "program_laws P \<Longrightarrow> lib_laws X \<Longrightarrow> appends P p0 p \<Longrightarrow>
    fills f (callBLS P X p f a i j) (appends P p0)"
  unfolding callBLS_def by (auto intro!: fill_intro fills_CallRandomizer)

lemmas fills_bind_callBLS [fill_intro] = fills_bind [OF fills_callBLS]

subsection \<open>Addition, multi-scalar multiplication and map-to-curve\<close>

definition blsG1AddCaller_call :: "'p program_api \<Rightarrow> lib \<Rightarrow> 'p \<Rightarrow> filler \<Rightarrow> 'p call_result" where
  "blsG1AddCaller_call P X p f = do {
     (a, f) \<leftarrow> randG1 X f;
     ea \<leftarrow> encodeBLSG1 X a;
     let p = Mstore P ea 0 p;
     (b, f) \<leftarrow> randG1 X f;
     eb \<leftarrow> encodeBLSG1 X b;
     let p = Mstore P eb (of_nat blsG1Size) p;
     (p, f) \<leftarrow> callBLS P X p f (blsG1AddAddr X) (of_nat (2 * blsG1Size)) (of_nat blsG1Size);
     Some ((None, p), f)
   }"

definition blsG2AddCaller_call :: "'p program_api \<Rightarrow> lib \<Rightarrow> 'p \<Rightarrow> filler \<Rightarrow> 'p call_result" where
  "blsG2AddCaller_call P X p f = do {
     (a, f) \<leftarrow> randG2 X f;
     ea \<leftarrow> encodeBLSG2 X a;
     let p = Mstore P ea 0 p;
     (b, f) \<leftarrow> randG2 X f;
     eb \<leftarrow> encodeBLSG2 X b;
     let p = Mstore P eb (of_nat blsG2Size) p;
     (p, f) \<leftarrow> callBLS P X p f (blsG2AddAddr X) (of_nat (2 * blsG2Size)) (of_nat blsG2Size);
     Some ((None, p), f)
   }"

text \<open>The loops over (point, scalar) pairs; \<open>i\<close> counts up and \<open>n\<close> rounds are left.\<close>

fun g1msm_loop :: "'p program_api \<Rightarrow> lib \<Rightarrow> nat \<Rightarrow> nat \<Rightarrow> 'p \<Rightarrow> filler \<Rightarrow> ('p \<times> filler) option" where
  "g1msm_loop P X 0 i p f = Some (p, f)"
| "g1msm_loop P X (Suc n) i p f = do {
     (a, f) \<leftarrow> randG1 X f;
     ea \<leftarrow> encodeBLSG1 X a;
     let p = Mstore P ea (of_nat (i * blsG1MSMItem)) p;
     (s, f) \<leftarrow> scalar32 f;
     let p = Mstore P s (of_nat (i * blsG1MSMItem + blsG1Size)) p;
     g1msm_loop P X n (Suc i) p f
   }"

definition blsG1MSMCaller_call :: "'p program_api \<Rightarrow> lib \<Rightarrow> 'p \<Rightarrow> filler \<Rightarrow> 'p call_result" where
  "blsG1MSMCaller_call P X p f = do {
     (rounds, f) \<leftarrow> blsRounds f 8;
     (p, f) \<leftarrow> g1msm_loop P X rounds 0 p f;
     (p, f) \<leftarrow> callBLS P X p f (blsG1MSMAddr X) (of_nat (rounds * blsG1MSMItem)) (of_nat blsG1Size);
     Some ((None, p), f)
   }"

fun g2msm_loop :: "'p program_api \<Rightarrow> lib \<Rightarrow> nat \<Rightarrow> nat \<Rightarrow> 'p \<Rightarrow> filler \<Rightarrow> ('p \<times> filler) option" where
  "g2msm_loop P X 0 i p f = Some (p, f)"
| "g2msm_loop P X (Suc n) i p f = do {
     (a, f) \<leftarrow> randG2 X f;
     ea \<leftarrow> encodeBLSG2 X a;
     let p = Mstore P ea (of_nat (i * blsG2MSMItem)) p;
     (s, f) \<leftarrow> scalar32 f;
     let p = Mstore P s (of_nat (i * blsG2MSMItem + blsG2Size)) p;
     g2msm_loop P X n (Suc i) p f
   }"

definition blsG2MSMCaller_call :: "'p program_api \<Rightarrow> lib \<Rightarrow> 'p \<Rightarrow> filler \<Rightarrow> 'p call_result" where
  "blsG2MSMCaller_call P X p f = do {
     (rounds, f) \<leftarrow> blsRounds f 8;
     (p, f) \<leftarrow> g2msm_loop P X rounds 0 p f;
     (p, f) \<leftarrow> callBLS P X p f (blsG2MSMAddr X) (of_nat (rounds * blsG2MSMItem)) (of_nat blsG2Size);
     Some ((None, p), f)
   }"

definition blsMapG1Caller_call :: "'p program_api \<Rightarrow> lib \<Rightarrow> 'p \<Rightarrow> filler \<Rightarrow> 'p call_result" where
  "blsMapG1Caller_call P X p f = do {
     (e, f) \<leftarrow> encodeBLSFp X f;
     let p = Mstore P e 0 p;
     (p, f) \<leftarrow> callBLS P X p f (blsMapG1Addr X) 64 (of_nat blsG1Size);
     Some ((None, p), f)
   }"

definition blsMapG2Caller_call :: "'p program_api \<Rightarrow> lib \<Rightarrow> 'p \<Rightarrow> filler \<Rightarrow> 'p call_result" where
  "blsMapG2Caller_call P X p f = do {
     (e, f) \<leftarrow> encodeBLSFp X f;
     let p = Mstore P e 0 p;
     (e, f) \<leftarrow> encodeBLSFp X f;
     let p = Mstore P e 64 p;
     (p, f) \<leftarrow> callBLS P X p f (blsMapG2Addr X) 128 (of_nat blsG2Size);
     Some ((None, p), f)
   }"

interpretation blsG1Add_c: precompile_contract P X "blsG1AddCaller_call P X" for P X
  by unfold_locales (auto simp: blsG1AddCaller_call_def intro!: fill_intro grow_intro)

interpretation blsG2Add_c: precompile_contract P X "blsG2AddCaller_call P X" for P X
  by unfold_locales (auto simp: blsG2AddCaller_call_def intro!: fill_intro grow_intro)

lemma fills_g1msm_loop:
  "program_laws P \<Longrightarrow> lib_laws X \<Longrightarrow> appends P p0 p \<Longrightarrow>
    fills f (g1msm_loop P X n i p f) (appends P p0)"
proof (induction n arbitrary: i p f)
  case (Suc n)
  then show ?case by (auto intro!: fill_intro grow_intro Suc.IH)
qed (auto intro!: fill_intro)

lemma fills_g2msm_loop:
  "program_laws P \<Longrightarrow> lib_laws X \<Longrightarrow> appends P p0 p \<Longrightarrow>
    fills f (g2msm_loop P X n i p f) (appends P p0)"
proof (induction n arbitrary: i p f)
  case (Suc n)
  then show ?case by (auto intro!: fill_intro grow_intro Suc.IH)
qed (auto intro!: fill_intro)

lemmas fills_bind_msm [fill_intro] =
  fills_g1msm_loop [THEN fills_bind] fills_g2msm_loop [THEN fills_bind]

interpretation blsG1MSM_c: precompile_contract P X "blsG1MSMCaller_call P X" for P X
  by unfold_locales (auto simp: blsG1MSMCaller_call_def intro!: fill_intro grow_intro)

interpretation blsG2MSM_c: precompile_contract P X "blsG2MSMCaller_call P X" for P X
  by unfold_locales (auto simp: blsG2MSMCaller_call_def intro!: fill_intro grow_intro)

interpretation blsMapG1_c: precompile_contract P X "blsMapG1Caller_call P X" for P X
  by unfold_locales (auto simp: blsMapG1Caller_call_def intro!: fill_intro grow_intro)

interpretation blsMapG2_c: precompile_contract P X "blsMapG2Caller_call P X" for P X
  by unfold_locales (auto simp: blsMapG2Caller_call_def intro!: fill_intro grow_intro)

subsection \<open>Pairing and subgroup checks\<close>

fun blsPairing_loop ::
    "lib \<Rightarrow> nat \<Rightarrow> g1 list \<Rightarrow> g2 list \<Rightarrow> int \<Rightarrow> filler \<Rightarrow> ((g1 list \<times> g2 list \<times> int) \<times> filler) option"
where
  "blsPairing_loop X 0 g1s g2s target f = Some ((g1s, g2s, target), f)"
| "blsPairing_loop X (Suc n) g1s g2s target f = do {
     (aMul, f) \<leftarrow> BigInt32 f;
     let g1s = g1s @ [bls_G1_mul X (bls_G1_gen X) aMul];
     (bMul, f) \<leftarrow> BigInt32 f;
     let g2s = g2s @ [bls_G2_mul X (bls_G2_gen X) bMul];
     blsPairing_loop X n g1s g2s (target + aMul * bMul) f
   }"

definition blsPairing :: "lib \<Rightarrow> nat \<Rightarrow> filler \<Rightarrow> ((g1 list \<times> g2 list) \<times> filler) option" where
  "blsPairing X rounds f = do {
     ((g1s, g2s, target), f) \<leftarrow> blsPairing_loop X rounds [] [] 0 f;
     let a = bls_G1_mul X (bls_G1_gen X) target;
     let a = bls_G1_Neg X a;
     let b = bls_G2_gen X;
     Some ((g1s @ [a], g2s @ [b]), f)
   }"

fun bls_store_pairs ::
    "'p program_api \<Rightarrow> lib \<Rightarrow> g1 list \<Rightarrow> g2 list \<Rightarrow> u32 \<Rightarrow> 'p \<Rightarrow> 'p option"
where
  "bls_store_pairs P X [] g2s offset p = Some p"
| "bls_store_pairs P X (a # g1s) [] offset p = None"
| "bls_store_pairs P X (a # g1s) (b # g2s) offset p = do {
     ea \<leftarrow> encodeBLSG1 X a;
     let p = Mstore P ea offset p;
     let offset = offset + of_nat blsG1Size;
     eb \<leftarrow> encodeBLSG2 X b;
     let p = Mstore P eb offset p;
     let offset = offset + of_nat blsG2Size;
     bls_store_pairs P X g1s g2s offset p
   }"

definition blsPairingCaller_call :: "'p program_api \<Rightarrow> lib \<Rightarrow> 'p \<Rightarrow> filler \<Rightarrow> 'p call_result" where
  "blsPairingCaller_call P X p f = do {
     (rounds, f) \<leftarrow> blsRounds f 4;
     ((g1s, g2s), f) \<leftarrow> blsPairing X rounds f;
     p \<leftarrow> bls_store_pairs P X g1s g2s 0 p;
     (p, f) \<leftarrow> callBLS P X p f (blsPairingAddr X) (of_nat (length g1s * blsPairItem)) 32;
     Some ((None, p), f)
   }"

definition blsG1NotInSubgroup :: "lib \<Rightarrow> byte list" where
  "blsG1NotInSubgroup X = Hex2Bytes X ''000000000000000000000000000000000123456789abcdef0123456789abcdef0123456789abcdef0123456789abcdef0123456789abcdef0123456789abcdef00000000000000000000000000000000193fb7cedb32b2c3adc06ec11a96bc0d661869316f5e4a577a9f7c179593987beb4fb2ee424dbb2f5dd891e228b46c4a''"

definition blsG2NotInSubgroup :: "lib \<Rightarrow> byte list" where
  "blsG2NotInSubgroup X = Hex2Bytes X ''00000000000000000000000000000000197bfd0342bbc8bee2beced2f173e1a87be576379b343e93232d6cef98d84b1d696e5612ff283ce2cfdccb2cfb65fa0c00000000000000000000000000000000184e811f55e6f9d84d77d2f79102fd7ea7422f4759df5bf7f6331d550245e3f1bcf6a30e3b29110d85e0ca16f9f6ae7a000000000000000000000000000000000f10e1eb3c1e53d2ad9cf2d398b2dc22c5842fab0a74b174f691a7e914975da3564d835cd7d2982815b8ac57f507348f000000000000000000000000000000000767d1c453890f1b9110fda82f5815c27281aba3f026ee868e4176a0654feea41a96575e0c4d58a14dbfbcc05b5010b1''"

definition blsSubgroupCaller_call :: "'p program_api \<Rightarrow> lib \<Rightarrow> 'p \<Rightarrow> filler \<Rightarrow> 'p call_result" where
  "blsSubgroupCaller_call P X p f = do {
     (b, f) \<leftarrow> Byte f;
     let k = b mod 4;
     if k = 0 then do {
       let p = Mstore P (blsG1NotInSubgroup X) 0 p;
       (s, f) \<leftarrow> scalar32 f;
       let p = Mstore P s (of_nat blsG1Size) p;
       (p, f) \<leftarrow> callBLS P X p f (blsG1MSMAddr X) (of_nat blsG1MSMItem) (of_nat blsG1Size);
       Some ((None, p), f)
     } else if k = 1 then do {
       let p = Mstore P (blsG2NotInSubgroup X) 0 p;
       (s, f) \<leftarrow> scalar32 f;
       let p = Mstore P s (of_nat blsG2Size) p;
       (p, f) \<leftarrow> callBLS P X p f (blsG2MSMAddr X) (of_nat blsG2MSMItem) (of_nat blsG2Size);
       Some ((None, p), f)
     } else if k = 2 then do {
       let p = Mstore P (blsG1NotInSubgroup X) 0 p;
       (b, f) \<leftarrow> randG2 X f;
       eb \<leftarrow> encodeBLSG2 X b;
       let p = Mstore P eb (of_nat blsG1Size) p;
       (p, f) \<leftarrow> callBLS P X p f (blsPairingAddr X) (of_nat blsPairItem) 32;
       Some ((None, p), f)
     } else do {
       (a, f) \<leftarrow> randG1 X f;
       ea \<leftarrow> encodeBLSG1 X a;
       let p = Mstore P ea 0 p;
       let p = Mstore P (blsG2NotInSubgroup X) (of_nat blsG1Size) p;
       (p, f) \<leftarrow> callBLS P X p f (blsPairingAddr X) (of_nat blsPairItem) 32;
       Some ((None, p), f)
     }
   }"

lemma fills_blsPairing_loop:
  "length g1s = length g2s \<Longrightarrow> fills f (blsPairing_loop X n g1s g2s target f)
    (\<lambda>(g1s', g2s', t). length g1s' = length g1s + n \<and> length g2s' = length g2s + n)"
proof (induction n arbitrary: g1s g2s target f)
  case (Suc n)
  have "fills f' (blsPairing_loop X n (g1s @ [a]) (g2s @ [b]) t f')
      (\<lambda>(g1s', g2s', t). length g1s' = length g1s + Suc n \<and> length g2s' = length g2s + Suc n)"
    for a b t f'
    using Suc.IH [of "g1s @ [a]" "g2s @ [b]"] Suc.prems by simp
  then show ?case by (auto intro!: fill_intro)
qed (auto intro!: fill_intro)

lemmas fills_bind_blsPairing_loop = fills_blsPairing_loop [THEN fills_bind]

lemma fills_blsPairing:
  "fills f (blsPairing X n f) (\<lambda>(g1s, g2s). length g1s = Suc n \<and> length g2s = Suc n)"
  unfolding blsPairing_def by (auto intro!: fill_intro fills_bind_blsPairing_loop)

lemmas fills_bind_blsPairing [fill_intro] = fills_bind [OF fills_blsPairing]

lemma bls_store_pairs_Some:
  "program_laws P \<Longrightarrow> lib_laws X \<Longrightarrow> appends P p0 p \<Longrightarrow> length g1s \<le> length g2s \<Longrightarrow>
    \<exists>p'. bls_store_pairs P X g1s g2s offset p = Some p' \<and> appends P p0 p'"
proof (induction g1s arbitrary: g2s offset p)
  case (Cons a g1s)
  then obtain b bs where "g2s = b # bs" by (cases g2s) auto
  with Cons.prems show ?case
    by (auto simp: encodeBLSG1_Some encodeBLSG2_Some Let_def intro!: Cons.IH grow_intro)
qed simp

lemma fills_bls_store_pairs [fill_intro]:
  "program_laws P \<Longrightarrow> lib_laws X \<Longrightarrow> length g1s \<le> length g2s \<Longrightarrow>
    (\<And>p'. appends P p p' \<Longrightarrow> fills f (k p') Q) \<Longrightarrow>
    fills f (bls_store_pairs P X g1s g2s offset p \<bind> k) Q"
  using bls_store_pairs_Some [of P X p p g1s g2s offset] by auto

interpretation blsPairing_c: precompile_contract P X "blsPairingCaller_call P X" for P X
  by unfold_locales (auto simp: blsPairingCaller_call_def intro!: fill_intro grow_intro)

interpretation blsSubgroup_c: precompile_contract P X "blsSubgroupCaller_call P X" for P X
  by unfold_locales (auto simp: blsSubgroupCaller_call_def intro!: fill_intro grow_intro)

subsection \<open>Properties\<close>

text \<open>The BLS encoders never panic and use the layout of EIP-2537: every coordinate takes 64 bytes,
  16 zero bytes and the 48 bytes of the field element, so a G1 point has 128 and a G2 point 256 bytes.\<close>

theorem encodeBLS_layout:
  assumes "lib_laws X"
  defines "fp \<equiv> \<lambda>e. replicate 16 0 @ bls_fp_PutElement X e"
  shows "encodeBLSG1 X a = Some (fp (g1_X a) @ fp (g1_Y a)) \<and>
    encodeBLSG2 X b = Some (fp (X_A0 b) @ fp (X_A1 b) @ fp (Y_A0 b) @ fp (Y_A1 b)) \<and>
    length (fp e) = 64"
  by (simp add: encodeBLSG1_Some [OF assms(1)] encodeBLSG2_Some [OF assms(1)] fp_def
      length_bls_fp_PutElement [OF assms(1)])

theorem encodeBLS_layout_witness:
  "encodeBLSG1 sample_lib \<lparr>g1_X = 3, g1_Y = 4\<rparr> =
    Some ((replicate 16 0 @ be_bytes 48 3) @ replicate 16 0 @ be_bytes 48 4)"
  using encodeBLS_layout [OF sample_lib_laws, of "\<lparr>g1_X = 3, g1_Y = 4\<rparr>"]
  by (simp add: sample_lib_def)

end
