(* ===== verification/PrecompilesKZG.thy ===== *)
theory PrecompilesKZG
  imports PrecompilesBLS
begin

text \<open>
  The caller of the KZG point-evaluation precompile of EIP-4844
  (\<open>generator/precompiles/kzg.go\<close>) and the dispatch over all precompiles
  (\<open>CallPrecompile\<close> in \<open>generator/precompiles/precompiles.go\<close>).  A blob is an array of
  131072 bytes, 4096 field elements of 32 bytes.
\<close>

subsection \<open>Building a valid input\<close>

text \<open>The chaining loop of \<open>expandKZGSeed\<close>; it ends because a digest is not empty.\<close>

partial_function (option) expandKZGSeed_loop ::
    "lib \<Rightarrow> nat \<Rightarrow> byte list \<Rightarrow> byte list \<Rightarrow> byte list option" where
  "expandKZGSeed_loop X n block out =
     (if length out < n
      then expandKZGSeed_loop X n (sha256_Sum256 X block) (out @ block)
      else Some out)"

definition expandKZGSeed :: "lib \<Rightarrow> byte list \<Rightarrow> nat \<Rightarrow> byte list option" where
  "expandKZGSeed X seed n = do {
     let block = sha256_Sum256 X seed;
     out \<leftarrow> expandKZGSeed_loop X n block [];
     slice out 0 n
   }"

definition blobSize :: nat where "blobSize = 131072"

function encodeKZGBlob_loop ::
    "lib \<Rightarrow> byte list \<Rightarrow> nat \<Rightarrow> nat \<Rightarrow> byte list \<Rightarrow> byte list option" where
  "encodeKZGBlob_loop X d i fieldIndex blob =
     (if i < length d \<and> fieldIndex < BlobTxFieldElementsPerBlob X then
        (let hi = i + 31;
             hi = (if hi > length d then length d else hi)
         in if fieldIndex * 32 + 1 > length blob then None
            else encodeKZGBlob_loop X d (i + 31) (fieldIndex + 1)
              (snd (copy_at blob (fieldIndex * 32 + 1) (take (hi - i) (drop i d)))))
      else Some blob)"
  by pat_completeness auto
termination
  by (relation "measure (\<lambda>(X, d, i, fieldIndex, blob). length d - i)") auto

declare encodeKZGBlob_loop.simps [simp del]

definition encodeKZGBlob :: "lib \<Rightarrow> byte list \<Rightarrow> byte list option" where
  "encodeKZGBlob X d = encodeKZGBlob_loop X d 0 0 (replicate blobSize 0)"

definition kzgToVersionedHash :: "lib \<Rightarrow> byte list \<Rightarrow> byte list" where
  "kzgToVersionedHash X commitment = (sha256_Sum256 X commitment)[0 := 0x01]"

definition validKZGInput ::
    "lib \<Rightarrow> filler \<Rightarrow> ((call_error + byte list) \<times> filler) option" where
  "validKZGInput X f = do {
     (seed, f) \<leftarrow> ByteSlice 64 f;
     random \<leftarrow> expandKZGSeed X seed 131072;
     blob \<leftarrow> encodeKZGBlob X random;
     case kzg_BlobToCommitment X blob of
       None \<Rightarrow> Some (Inl CommitmentError, f)
     | Some commitment \<Rightarrow>
         (let point = snd (copy_at (replicate 32 0) 0 random);
              point = point[0 := 0]
          in case kzg_ComputeProof X blob point of
               None \<Rightarrow> Some (Inl ProofError, f)
             | Some (proof_, claim) \<Rightarrow>
                 (let versionedHash = kzgToVersionedHash X commitment;
                      input = replicate 192 0;
                      input = copy_range input 0 32 versionedHash;
                      input = copy_range input 32 64 point;
                      input = copy_range input 64 96 claim;
                      input = copy_range input 96 144 commitment;
                      input = copy_range input 144 192 proof_
                  in Some (Inr input, f)))
   }"

text \<open>The result is ignored: the call only forces the library to initialise itself.\<close>

definition WarmupKZG :: "lib \<Rightarrow> unit option" where
  "WarmupKZG X = do {
     _ \<leftarrow> validKZGInput X (NewFiller [1, 2, 3, 4, 5, 6, 7, 8]);
     Some ()
   }"

definition kzg_input :: "lib \<Rightarrow> filler \<Rightarrow> (byte list \<times> filler) option" where
  "kzg_input X f = do {
     (b, f) \<leftarrow> Byte f;
     if b < 32 then do {
       (r, f) \<leftarrow> validKZGInput X f;
       case r of Inr i \<Rightarrow> Some (i, f) | Inl err \<Rightarrow> ByteSlice 192 f
     } else ByteSlice 192 f
   }"

definition kzgPointEvaluationAddr :: "lib \<Rightarrow> address" where "kzgPointEvaluationAddr X = HexToAddress X ''0x0a''"

definition kzgCaller_call :: "'p program_api \<Rightarrow> lib \<Rightarrow> 'p \<Rightarrow> filler \<Rightarrow> 'p call_result" where
  "kzgCaller_call P X p f = do {
     (input, f) \<leftarrow> kzg_input X f;
     (g, f) \<leftarrow> GasInt f;
     gas \<leftarrow> MustFromBig X g;
     (v, f) \<leftarrow> BigInt32 f;
     let c = \<lparr>Gas = gas, Address = kzgPointEvaluationAddr X, Value = v, InOffset = 0,
       InSize = 192, OutOffset = 0, OutSize = 64\<rparr>;
     let p = Mstore P input 0 p;
     (p, f) \<leftarrow> CallRandomizer P p f c;
     Some ((None, p), f)
   }"

subsection \<open>The seed is expanded to the length asked for\<close>

lemma expandKZGSeed_loop_returns:
  assumes "lib_laws X" and "length block = 32"
  shows "\<exists>r. expandKZGSeed_loop X n block out = Some (out @ r) \<and> n \<le> length (out @ r)"
  using assms(2)
proof (induction "n - length out" arbitrary: block out rule: less_induct)
  case less
  show ?case
  proof (cases "length out < n")
    case True
    with less.prems have "n - length (out @ block) < n - length out" by simp
    from less.hyps [OF this length_sha256 [OF assms(1)], of block] obtain r where
      "expandKZGSeed_loop X n (sha256_Sum256 X block) (out @ block) = Some ((out @ block) @ r)"
      "n \<le> length ((out @ block) @ r)" by blast
    with True show ?thesis by (subst expandKZGSeed_loop.simps) auto
  qed (simp add: expandKZGSeed_loop.simps)
qed

lemma expandKZGSeed_Some:
  assumes "lib_laws X"
  shows "\<exists>r. expandKZGSeed X seed n = Some r \<and> length r = n"
  using expandKZGSeed_loop_returns [OF assms length_sha256 [OF assms], of n seed "[]"]
  by (auto simp: expandKZGSeed_def)

subsection \<open>Packing into field elements\<close>

text \<open>
  The first \<open>m\<close> field elements hold their share of the data behind a zero byte, the others are
  zero.
\<close>

definition packed :: "byte list \<Rightarrow> nat \<Rightarrow> byte list \<Rightarrow> bool" where
  "packed d m blob \<longleftrightarrow> length blob = blobSize \<and>
     (\<forall>k < 4096. blob ! (32 * k) = 0 \<and>
       (\<forall>j < 31. blob ! (32 * k + 1 + j) =
          (if k < m \<and> 31 * k + j < length d then d ! (31 * k + j) else 0)))"

lemma nth_copy_at:
  "q < length b \<Longrightarrow> snd (copy_at b off s) ! q =
     (if off \<le> q \<and> q - off < length s \<and> off \<le> length b then s ! (q - off) else b ! q)"
  by (auto simp: copy_at_def Let_def nth_append min_def)

lemma packed_0: "packed d 0 (replicate blobSize 0)"
  by (auto simp: packed_def blobSize_def)

text \<open>Copying up to 31 bytes into a field element leaves the other field elements and all first bytes.\<close>

lemma copy_field_other:
  assumes "length (s :: byte list) \<le> 31" and "q < length blob" and "q = 32 * k \<or> q = 32 * k + 1 + j \<and> j < 31 \<and> k \<noteq> m"
  shows "snd (copy_at blob (m * 32 + 1) s) ! q = blob ! q"
proof -
  have "\<not> (m * 32 + 1 \<le> q \<and> q - (m * 32 + 1) < length s)"
  proof (cases "k \<le> m")
    case True
    then consider "k = m" | "32 * Suc k \<le> 32 * m" by (cases "k = m") (auto intro: mult_le_mono)
    then show ?thesis using assms(3) by cases auto
  next
    case False
    then have "32 * Suc m \<le> 32 * k" by (intro mult_le_mono) auto
    then show ?thesis using assms(1,3) by auto
  qed
  with assms(2) show ?thesis by (subst nth_copy_at) auto
qed

lemma packed_step:
  assumes "packed d m blob" and "m < 4096" and "31 * m < length d"
  shows "packed d (Suc m) (snd (copy_at blob (m * 32 + 1)
    (take ((if 31 * m + 31 > length d then length d else 31 * m + 31) - 31 * m) (drop (31 * m) d))))"
    (is "packed d _ ?blob")
proof -
  define s where "s = take (min (length d) (31 * m + 31) - 31 * m) (drop (31 * m) d)"
  have blob: "?blob = snd (copy_at blob (m * 32 + 1) s)"
    by (simp add: s_def min_def not_less)
  have len: "length blob = blobSize" using assms(1) by (simp add: packed_def)
  have len_s: "length s = min (length d) (31 * m + 31) - 31 * m" by (simp add: s_def)
  then have len_31: "length s \<le> 31" by linarith
  have s_nth: "s ! j = d ! (31 * m + j)" if "j < length s" for j
    using that by (simp add: s_def)
  note other = copy_field_other [OF len_31, of _ blob]
  have "?blob ! (32 * k) = 0" if "k < 4096" for k
    unfolding blob using other [of "32 * k" k 0 m] that assms(1) by (simp add: len blobSize_def packed_def)
  moreover have "?blob ! (32 * k + 1 + j) =
      (if k < Suc m \<and> 31 * k + j < length d then d ! (31 * k + j) else 0)"
    if "k < 4096" "j < 31" for k j
  proof -
    have old: "blob ! (32 * k + 1 + j) = (if k < m \<and> 31 * k + j < length d then d ! (31 * k + j) else 0)"
      using assms(1) that by (simp add: packed_def)
    have q: "32 * k + 1 + j < length blob" using that by (simp add: len blobSize_def)
    show ?thesis
    proof (cases "k = m")
      case True
      have "j < length s \<longleftrightarrow> 31 * m + j < length d" using that(2) by (auto simp: len_s)
      with True old q assms(2) s_nth [of j] that(2) show ?thesis
        by (auto simp: blob nth_copy_at)
    next
      case False
      then have "?blob ! (32 * k + 1 + j) = blob ! (32 * k + 1 + j)"
        unfolding blob using q that(2) by (intro other [of _ k j]) simp_all
      with False old show ?thesis by auto
    qed
  qed
  moreover have "length ?blob = blobSize" using len assms(2) by (simp add: blobSize_def)
  ultimately show ?thesis by (simp add: packed_def)
qed

lemma encodeKZGBlob_loop_packed:
  assumes "BlobTxFieldElementsPerBlob X = 4096"
  shows "packed d m blob \<Longrightarrow> m \<le> 4096 \<Longrightarrow>
    \<exists>b m'. encodeKZGBlob_loop X d (31 * m) m blob = Some b \<and> packed d m' b \<and> m' \<le> 4096 \<and>
      (length d \<le> 31 * m' \<or> m' = 4096)"
proof (induction "4096 - m" arbitrary: m blob)
  case 0
  then show ?case by (auto simp: encodeKZGBlob_loop.simps assms)
next
  case (Suc n)
  show ?case
  proof (cases "31 * m < length d")
    case True
    have "m < 4096" using Suc.hyps(2) by simp
    then have "n = 4096 - Suc m" "Suc m \<le> 4096" using Suc.hyps(2) by simp_all
    from Suc.hyps(1) [OF this(1) packed_step [OF Suc.prems(1) \<open>m < 4096\<close> True] this(2)]
    obtain b m' where "encodeKZGBlob_loop X d (31 * Suc m) (Suc m) (snd (copy_at blob (m * 32 + 1)
        (take ((if 31 * m + 31 > length d then length d else 31 * m + 31) - 31 * m)
          (drop (31 * m) d)))) = Some b"
      and "packed d m' b" "m' \<le> 4096" "length d \<le> 31 * m' \<or> m' = 4096"
      by blast
    moreover have "\<not> m * 32 + 1 > length blob"
      using Suc.prems(1) \<open>m < 4096\<close> by (simp add: packed_def blobSize_def)
    ultimately show ?thesis using True \<open>m < 4096\<close>
      by (subst encodeKZGBlob_loop.simps) (auto simp: assms Let_def add.commute)
  next
    case False
    with Suc.prems show ?thesis by (subst encodeKZGBlob_loop.simps) auto
  qed
qed

lemma encodeKZGBlob_Some:
  assumes "BlobTxFieldElementsPerBlob X = 4096"
  shows "\<exists>b m. encodeKZGBlob X d = Some b \<and> packed d m b \<and> (length d \<le> 31 * m \<or> m = 4096)"
  using encodeKZGBlob_loop_packed [OF assms packed_0, of d] by (auto simp: encodeKZGBlob_def)

subsection \<open>The caller meets the contract\<close>

lemma fills_expandKZGSeed [fill_intro]:
  "lib_laws X \<Longrightarrow> (\<And>r. length r = n \<Longrightarrow> fills f (k r) Q) \<Longrightarrow> fills f (expandKZGSeed X s n \<bind> k) Q"
  using expandKZGSeed_Some [of X s n] by auto

lemma fills_encodeKZGBlob [fill_intro]:
  "lib_laws X \<Longrightarrow> (\<And>b. fills f (k b) Q) \<Longrightarrow> fills f (encodeKZGBlob X d \<bind> k) Q"
  using encodeKZGBlob_Some [of X d] field_elements by fastforce

lemma fills_case_sum [fill_intro]:
  "(\<And>e. x = Inl e \<Longrightarrow> fills f (l e) Q) \<Longrightarrow> (\<And>y. x = Inr y \<Longrightarrow> fills f (r y) Q) \<Longrightarrow>
    fills f (case x of Inl e \<Rightarrow> l e | Inr y \<Rightarrow> r y) Q"
  by (cases x) simp_all

lemma fills_case_pair [fill_intro]:
  "(\<And>x y. a = (x, y) \<Longrightarrow> fills f (t x y) Q) \<Longrightarrow> fills f (case a of (x, y) \<Rightarrow> t x y) Q"
  by (cases a) simp

lemma fills_validKZGInput: "lib_laws X \<Longrightarrow> fills f (validKZGInput X f) (\<lambda>_. True)"
  unfolding validKZGInput_def by (auto intro!: fill_intro)

lemma WarmupKZG_returns: "lib_laws X \<Longrightarrow> WarmupKZG X = Some ()"
  using fills_validKZGInput [of X "NewFiller [1, 2, 3, 4, 5, 6, 7, 8]"]
  by (auto simp: fills_def filler_ok_NewFiller returns_def WarmupKZG_def split: option.splits)

lemma fills_kzg_input: "lib_laws X \<Longrightarrow> fills f (kzg_input X f) (\<lambda>_. True)"
  unfolding kzg_input_def
  by (auto intro!: fill_intro fills_bind [OF fills_validKZGInput] fills_weaken [OF fills_ByteSlice])

lemmas fills_bind_kzg_input [fill_intro] = fills_bind [OF fills_kzg_input]

interpretation kzg_c: precompile_contract P X "kzgCaller_call P X" for P X
  by unfold_locales (auto simp: kzgCaller_call_def intro!: fill_intro grow_intro)

subsection \<open>Calling one of the precompiles\<close>

definition precompiles :: "'p program_api \<Rightarrow> lib \<Rightarrow> ('p \<Rightarrow> filler \<Rightarrow> 'p call_result) list" where
  "precompiles P X =
    [ecdsaCaller_call P X, sha256Caller_call P X, ripemdCaller_call P X, identityCaller_call P X,
     bigModExpCaller_call P X, bn256Caller_call P X, bn256MulCaller_call P X,
     bn256PairingCaller_call P X, blake2fCaller_call P X, kzgCaller_call P X,
     blsG1AddCaller_call P X, blsG2AddCaller_call P X, blsG1MSMCaller_call P X,
     blsG2MSMCaller_call P X, blsMapG1Caller_call P X, blsMapG2Caller_call P X,
     blsPairingCaller_call P X, blsSubgroupCaller_call P X, p256Caller_call P X]"

definition CallPrecompile :: "'p program_api \<Rightarrow> lib \<Rightarrow> 'p \<Rightarrow> filler \<Rightarrow> 'p call_result" where
  "CallPrecompile P X p f = do {
     (b, f) \<leftarrow> Byte f;
     let idx = unat b mod length (precompiles P X);
     prec \<leftarrow> index (precompiles P X) idx;
     prec p f
   }"

lemma precompiles_fills:
  assumes "program_laws P" and "lib_laws X" and "c \<in> set (precompiles P X)"
  shows "fills f (c p f) (\<lambda>(err, p'). appends P p p')"
  using assms(3) unfolding precompiles_def
  by (auto intro: assms(1,2) ecdsa_c.call_fills sha256_c.call_fills ripemd_c.call_fills
      identity_c.call_fills bigModExp_c.call_fills bn256_c.call_fills bn256Mul_c.call_fills
      bn256Pairing_c.call_fills blake2f_c.call_fills kzg_c.call_fills blsG1Add_c.call_fills
      blsG2Add_c.call_fills blsG1MSM_c.call_fills blsG2MSM_c.call_fills blsMapG1_c.call_fills
      blsMapG2_c.call_fills blsPairing_c.call_fills blsSubgroup_c.call_fills p256_c.call_fills)

lemma length_precompiles [simp]: "length (precompiles P X) = 19"
  by (simp add: precompiles_def)

lemma fills_CallPrecompile:
  fixes p :: 'p
  assumes "program_laws P" and "lib_laws X"
  shows "fills f (CallPrecompile P X p f) (\<lambda>(err, p'). appends P p p')"
proof -
  have "precompiles P X ! (n mod 19) \<in> set (precompiles P X)" for n
    by (rule nth_mem) simp
  then have "fills f ((precompiles P X ! (n mod 19)) p f) (\<lambda>(err, p'). appends P p p')" for n f
    using precompiles_fills [OF assms] by blast
  then show ?thesis
    unfolding CallPrecompile_def by (auto intro!: fill_intro)
qed

interpretation CallPrecompile_c: precompile_contract P X "CallPrecompile P X" for P X
  by unfold_locales (rule fills_CallPrecompile)

subsection \<open>Properties\<close>

text \<open>Packing data into a blob never panics and loses nothing that fits: the blob has its fixed
  size, the high byte of each 32-byte field element is zero, so that every element is below the field
  modulus, and the other 31 bytes hold the data in order, with zeros after its end.\<close>

theorem encodeKZGBlob_packs:
  assumes "BlobTxFieldElementsPerBlob X = 4096"
  shows "\<exists>blob. encodeKZGBlob X d = Some blob \<and> length blob = 131072 \<and>
    (\<forall>k < 4096. blob ! (32 * k) = 0 \<and>
      (\<forall>j < 31. blob ! (32 * k + 1 + j) = (if 31 * k + j < length d then d ! (31 * k + j) else 0)))"
proof -
  obtain b m where b: "encodeKZGBlob X d = Some b" "packed d m b" "length d \<le> 31 * m \<or> m = 4096"
    using encodeKZGBlob_Some [OF assms] by blast
  have "k < m" if "31 * k + j < length d" "k < 4096" for k j
  proof (rule ccontr)
    assume "\<not> k < m"
    with b(3) that(2) have "length d \<le> 31 * m" "31 * m \<le> 31 * k" by auto
    with that(1) show False by linarith
  qed
  then show ?thesis using b(1,2) by (auto simp: packed_def blobSize_def)
qed

theorem encodeKZGBlob_packs_witness:
  "\<exists>blob. encodeKZGBlob sample_lib [7, 8] = Some blob \<and> length blob = 131072 \<and> blob ! 1 = 7"
proof -
  have "BlobTxFieldElementsPerBlob sample_lib = 4096" by (simp add: sample_lib_def)
  from encodeKZGBlob_packs [OF this, of "[7, 8]"] obtain blob where
    blob: "encodeKZGBlob sample_lib [7, 8] = Some blob" "length blob = 131072"
    "\<forall>k < 4096. blob ! (32 * k) = 0 \<and> (\<forall>j < 31. blob ! (32 * k + 1 + j) =
       (if 31 * k + j < length [7 :: byte, 8] then [7, 8] ! (31 * k + j) else 0))" by blast
  from blob(3) [rule_format, of 0] have "blob ! 1 = 7" by auto
  with blob(1,2) show ?thesis by blast
qed

text \<open>Five fields copied one behind the other into 192 zero bytes.\<close>

lemma kzg_fields:
  assumes h: "length h = 32" and z: "length z = 32" and y: "length y = 32"
    and c: "length c = 48" and p: "length p = 48"
  shows "copy_range (copy_range (copy_range (copy_range (copy_range (replicate 192 (0 :: byte))
    0 32 h) 32 64 z) 64 96 y) 96 144 c) 144 192 p = h @ z @ y @ c @ p"
proof -
  have 1: "copy_range (replicate 192 0) 0 32 h = h @ replicate 160 0"
    using copy_range_fill [of "[]" 0 32 h 192 0] h by simp
  have 2: "copy_range (h @ replicate 160 0) 32 64 z = (h @ z) @ replicate 128 0"
    using copy_range_fill [of h 32 64 z 160 0] h z by simp
  have 3: "copy_range ((h @ z) @ replicate 128 0) 64 96 y = (h @ z @ y) @ replicate 96 0"
    using copy_range_fill [of "h @ z" 64 96 y 128 0] h z y by simp
  have 4: "copy_range ((h @ z @ y) @ replicate 96 0) 96 144 c = (h @ z @ y @ c) @ replicate 48 0"
    using copy_range_fill [of "h @ z @ y" 96 144 c 96 0] h z y c by simp
  have 5: "copy_range ((h @ z @ y @ c) @ replicate 48 0) 144 192 p = h @ z @ y @ c @ p"
    using copy_range_fill [of "h @ z @ y @ c" 144 192 p 48 0] h z y c p by simp
  show ?thesis unfolding 1 2 3 4 5 ..
qed

text \<open>A valid point-evaluation input has the 192 bytes of EIP-4844: a versioned hash that starts
  with the version byte, an evaluation point whose high byte is zero, the claim, the commitment and the
  proof; building it always returns, with an input or an error, and draws 64 bytes only.\<close>

theorem validKZGInput_layout:
  assumes "lib_laws X" and "filler_ok f"
  shows "\<exists>r. validKZGInput X f = Some (r, advance 64 f) \<and>
    (case r of
       Inl err \<Rightarrow> True
     | Inr input \<Rightarrow> \<exists>h z y c p. input = h @ z @ y @ c @ p \<and>
         length h = 32 \<and> length z = 32 \<and> length y = 32 \<and> length c = 48 \<and> length p = 48 \<and>
         h ! 0 = 1 \<and> z ! 0 = 0)"
proof -
  obtain random where random: "expandKZGSeed X (upcoming 64 f) 131072 = Some random" "length random = 131072"
    using expandKZGSeed_Some [OF assms(1)] by blast
  obtain blob where blob: "encodeKZGBlob X random = Some blob"
    using encodeKZGBlob_Some field_elements [OF assms(1)] by blast
  note start = ByteSlice_spec [OF assms(2)] random(1) blob
  show ?thesis
  proof (cases "kzg_BlobToCommitment X blob")
    case None
    then show ?thesis by (simp add: validKZGInput_def start)
  next
    case (Some c)
    define z where "z = (snd (copy_at (replicate 32 0) 0 random))[0 := 0 :: byte]"
    have z: "length z = 32" "z ! 0 = 0" by (simp_all add: z_def copy_at_def random(2))
    show ?thesis
    proof (cases "kzg_ComputeProof X blob z")
      case None
      then show ?thesis
        by (simp add: validKZGInput_def start Some Let_def z_def)
    next
      case pr: (Some py)
      obtain p y where py: "kzg_ComputeProof X blob z = Some (p, y)" using pr by (cases py) auto
      define h where "h = kzgToVersionedHash X c"
      have h: "length h = 32" "h ! 0 = 1"
        by (simp_all add: h_def kzgToVersionedHash_def length_sha256 [OF assms(1)])
      have lens: "length c = 48" "length p = 48" "length y = 32"
        using assms(1) Some py unfolding lib_laws_def by blast+
      note input = kzg_fields [OF h(1) z(1) lens(3,1,2)]
      have "validKZGInput X f = Some (Inr (h @ z @ y @ c @ p), advance 64 f)"
        unfolding validKZGInput_def
        by (simp add: start Some Let_def py [unfolded z_def] input [unfolded z_def] flip: h_def)
          (simp add: z_def)
      with z h lens show ?thesis by (intro exI [of _ "Inr (h @ z @ y @ c @ p)"]) (simp, blast)
    qed
  qed
qed

theorem validKZGInput_layout_witness:
  "\<exists>r. validKZGInput sample_lib (NewFiller [1, 2, 3]) = Some (r, advance 64 (NewFiller [1, 2, 3]))"
  using validKZGInput_layout [OF sample_lib_laws filler_ok_NewFiller, of "[1, 2, 3]"] by blast

text \<open>C23. Calling a random precompile always returns, whatever the filler holds: no conversion, slice
  or index of the 19 callers panics, the filler is only read on, and the program is only appended to.\<close>

theorem CallPrecompile_returns:
  assumes "program_laws P" and "lib_laws X" and "filler_ok f"
  shows "\<exists>err p' n code. CallPrecompile P X p f = Some ((err, p'), advance n f) \<and>
    Bytes P p' = Bytes P p @ code"
  using CallPrecompile_c.call_returns [OF assms, of p] by (auto simp: appends_def prefix_def)

theorem CallPrecompile_returns_witness:
  "\<exists>err p' n. CallPrecompile sample_program sample_lib [] (NewFiller [7, 3]) =
    Some ((err, p'), advance n (NewFiller [7, 3]))"
  using CallPrecompile_returns [OF sample_program_laws sample_lib_laws filler_ok_NewFiller, of "[]" "[7, 3]"]
  by blast

end
