(* ===== verification/CallStrategies.thy ===== *)
theory CallStrategies
  imports Deploy PrecompilesKZG
begin

text \<open>
  The strategies that call other contracts (\<open>generator/call_strategies.go\<close>).
\<close>

definition callOps :: "opcode list" where
  "callOps = [vm_CALL, vm_CALLCODE, vm_DELEGATECALL, vm_STATICCALL]"

definition randomCallOp :: "'p env \<Rightarrow> (opcode \<times> 'p env) option" where
  "randomCallOp env = do {
     (b, env) \<leftarrow> liftF Byte env;
     if b < 8 then liftF Byte env
     else do {
       (b, env) \<leftarrow> liftF Byte env;
       o1 \<leftarrow> index callOps (unat b mod length callOps);
       Some (o1, env)
     }
   }"

definition createCallRNGGenerator_Execute :: "'p program_api \<Rightarrow> 'p env \<Rightarrow> 'p env option" where
  "createCallRNGGenerator_Execute P env = do {
     (code, env) \<leftarrow> liftF ByteSlice256 env;
     (isCreate2, env) \<leftarrow> liftF Bool env;
     (callOp, env) \<leftarrow> randomCallOp env;
     CreateAndCall P code isCreate2 callOp env
   }"

definition createCallRNGGenerator :: "'p program_api \<Rightarrow> 'p strategy" where
  "createCallRNGGenerator P =
    \<lparr>dynType = CreateCallRNGGenerator, Execute = createCallRNGGenerator_Execute P,
     Importance = 4, String = ''createCallRNGGenerator''\<rparr>"

definition createCallGenerator_Execute ::
    "'p program_api \<Rightarrow> generate \<Rightarrow> 'p env \<Rightarrow> 'p env option" where
  "createCallGenerator_Execute P gen env =
     (let level = recursionLevel env in
      if level \<ge> maxRecursionLevel then Some env
      else do {
        (seedLen, env) \<leftarrow> liftF Uint16 env;
        (seed, env) \<leftarrow> liftF (ByteSlice (unat seedLen)) env;
        let newFiller = NewFiller seed;
        (code, env) \<leftarrow> generate_nested gen newFiller (level + 1) env;
        (isCreate2, env) \<leftarrow> liftF Bool env;
        (callOp, env) \<leftarrow> randomCallOp env;
        DeployAndCall P code isCreate2 callOp env
      })"

definition createCallGenerator :: "'p program_api \<Rightarrow> generate \<Rightarrow> 'p strategy" where
  "createCallGenerator P gen =
    \<lparr>dynType = CreateCallGenerator, Execute = createCallGenerator_Execute P gen,
     Importance = 5, String = ''createCallGenerator''\<rparr>"

definition precompileAddrs :: "lib \<Rightarrow> address list" where
  "precompileAddrs X = map (HexToAddress X)
    [''0x01'', ''0x02'', ''0x03'', ''0x04'', ''0x05'', ''0x06'', ''0x07'', ''0x08'',
     ''0x09'', ''0x0a'', ''0x0b'', ''0x0c'', ''0x0d'', ''0x0e'', ''0x0f'', ''0x10'',
     ''0x11'', ''0x0100'']"

definition randomCallObj :: "lib \<Rightarrow> filler \<Rightarrow> (CallObj \<times> filler) option" where
  "randomCallObj X f = do {
     (b, f) \<leftarrow> Bool f;
     (addr, f) \<leftarrow> (if b then do {
         (i, f) \<leftarrow> Byte f;
         a \<leftarrow> index (precompileAddrs X) (unat i mod length (precompileAddrs X));
         Some (a, f)
       } else do {
         (bs, f) \<leftarrow> ByteSlice 20 f;
         Some (BytesToAddress X bs, f)
       });
     (g, f) \<leftarrow> GasInt f;
     gas \<leftarrow> MustFromBig X g;
     (b, f) \<leftarrow> Byte f;
     (gas, f) \<leftarrow> (if b < 8 then do {
         (s, f) \<leftarrow> Byte f;
         Some (u256_Lsh X (u256_NewInt X 1) (64 + unat s mod 192), f)
       } else Some (gas, f));
     (v, f) \<leftarrow> BigInt16 f;
     (inOff, f) \<leftarrow> MemInt f;
     (inSize, f) \<leftarrow> MemInt f;
     (outOff, f) \<leftarrow> MemInt f;
     (outSize, f) \<leftarrow> MemInt f;
     Some (\<lparr>Gas = gas, Address = addr, Value = v, InOffset = bigUint32 inOff,
       InSize = bigUint32 inSize, OutOffset = bigUint32 outOff, OutSize = bigUint32 outSize\<rparr>, f)
   }"

text \<open>Code that is handed the program and the filler of the environment.\<close>

definition liftFP :: "('p \<Rightarrow> filler \<Rightarrow> ('p \<times> filler) option) \<Rightarrow> 'p env \<Rightarrow> 'p env option" where
  "liftFP m env = do {
     (p, f) \<leftarrow> m (env_p env) (env_f env);
     Some (env\<lparr>env_p := p, env_f := f\<rparr>)
   }"

definition randomCallGenerator_Execute :: "'p program_api \<Rightarrow> lib \<Rightarrow> 'p env \<Rightarrow> 'p env option" where
  "randomCallGenerator_Execute P X env = do {
     (c, env) \<leftarrow> liftF (randomCallObj X) env;
     liftFP (\<lambda>p f. CallRandomizer P p f c) env
   }"

definition randomCallGenerator :: "'p program_api \<Rightarrow> lib \<Rightarrow> 'p strategy" where
  "randomCallGenerator P X =
    \<lparr>dynType = RandomCallGenerator, Execute = randomCallGenerator_Execute P X,
     Importance = 4, String = ''randomCallGenerator''\<rparr>"

text \<open>The error of \<open>CallPrecompile\<close> is ignored.\<close>

definition callPrecompileGenerator_Execute :: "'p program_api \<Rightarrow> lib \<Rightarrow> 'p env \<Rightarrow> 'p env option" where
  "callPrecompileGenerator_Execute P X env =
     liftFP (\<lambda>p f. do {
       ((_, p), f) \<leftarrow> CallPrecompile P X p f;
       Some (p, f)
     }) env"

definition callPrecompileGenerator :: "'p program_api \<Rightarrow> lib \<Rightarrow> 'p strategy" where
  "callPrecompileGenerator P X =
    \<lparr>dynType = CallPrecompileGenerator, Execute = callPrecompileGenerator_Execute P X,
     Importance = 8, String = ''callPrecompileGenerator''\<rparr>"

definition callStrategies :: "'p program_api \<Rightarrow> lib \<Rightarrow> generate \<Rightarrow> 'p strategy list" where
  "callStrategies P X gen =
    [createCallRNGGenerator P, createCallGenerator P gen, randomCallGenerator P X,
     callPrecompileGenerator P X]"

subsection \<open>The contract\<close>

lemma keptv_randomCallOp: "keptv P e (randomCallOp e) (\<lambda>_. True)"
proof -
  have "unat (b :: byte) mod length callOps < length callOps" for b
    by (simp add: callOps_def)
  then show ?thesis
    unfolding randomCallOp_def
    by (auto intro!: kept_intro keptv_pure_bind [OF index_Some] keptv_return keptv_liftF_reads)
qed

lemmas kept_bind_randomCallOp [kept_intro] = keptv_randomCallOp [THEN keptv_bind]

interpretation createCallRNG_s: strategy_contract P "\<lambda>_. True" "createCallRNGGenerator_Execute P"
  for P
  by unfold_locales (auto simp: createCallRNGGenerator_Execute_def intro!: kept_intro grow_intro)

text \<open>The precondition of a strategy that generates a nested program.\<close>

definition nests :: "generate \<Rightarrow> 'p env \<Rightarrow> bool" where
  "nests gen e \<longleftrightarrow>
     (recursionLevel e < maxRecursionLevel \<longrightarrow> gen_ok gen (recursionLevel e + 1))"

interpretation createCall_s: strategy_contract P "nests gen" "createCallGenerator_Execute P gen"
  for P gen
  by unfold_locales
    (auto simp: createCallGenerator_Execute_def nests_def
      intro!: kept_intro grow_intro kept_bind_generate_nested)

lemma length_precompileAddrs: "length (precompileAddrs X) = 18"
  by (simp add: precompileAddrs_def)

lemma fills_address:
  "fills f (if b then Byte f \<bind> (\<lambda>(i, f). index (precompileAddrs X)
       (unat i mod length (precompileAddrs X)) \<bind> (\<lambda>a. Some (a, f)))
     else ByteSlice 20 f \<bind> (\<lambda>(bs, f). Some (BytesToAddress X bs, f))) (\<lambda>_. True)"
  by (auto intro!: fill_intro simp: length_precompileAddrs)

lemma fills_gas:
  "fills f (if (b :: byte) < 8 then Byte f \<bind> (\<lambda>(s, f).
       Some (u256_Lsh X (u256_NewInt X 1) (64 + unat s mod 192), f))
     else Some (gas, f)) (\<lambda>_. True)"
  by (auto intro!: fill_intro)

lemma fills_randomCallObj: "lib_laws X \<Longrightarrow> fills f (randomCallObj X f) (\<lambda>_. True)"
  unfolding randomCallObj_def
  by (auto intro!: fill_intro fills_bind [OF fills_address] fills_bind [OF fills_gas])

lemma keptv_randomCallObj: "lib_laws X \<Longrightarrow> keptv P e (liftF (randomCallObj X) e) (\<lambda>_. True)"
  by (rule keptv_liftF) (rule fills_randomCallObj)

lemmas kept_bind_randomCallObj [kept_intro] = keptv_randomCallObj [THEN keptv_bind]

lemma kept_liftFP:
  assumes "fills (env_f e) (m (env_p e) (env_f e)) (appends P (env_p e))"
  shows "kept P e (liftFP m e)"
  using assms
  by (fastforce simp: kept_def fills_def liftFP_def env_ok_def env_le_def returns_iff appends_def
      intro: labels_ok_mono split: prod.splits)

interpretation randomCall_s: strategy_contract P "\<lambda>_. lib_laws X" "randomCallGenerator_Execute P X"
  for P X
  by unfold_locales
    (auto simp: randomCallGenerator_Execute_def
      intro!: kept_intro kept_liftFP fills_CallRandomizer)

interpretation callPrecompile_s:
  strategy_contract P "\<lambda>_. lib_laws X" "callPrecompileGenerator_Execute P X" for P X
  by unfold_locales
    (auto simp: callPrecompileGenerator_Execute_def
      intro!: kept_liftFP fill_intro fills_bind [OF fills_CallPrecompile])

lemma callStrategies_kept:
  "program_laws P \<Longrightarrow> lib_laws X \<Longrightarrow> nests gen e \<Longrightarrow> st \<in> set (callStrategies P X gen) \<Longrightarrow>
    kept P e (Execute st e)"
  unfolding callStrategies_def
  by (auto simp: createCallRNGGenerator_def createCallGenerator_def randomCallGenerator_def
      callPrecompileGenerator_def
      intro: createCallRNG_s.exec_kept createCall_s.exec_kept randomCall_s.exec_kept
      callPrecompile_s.exec_kept)

end
