(* ===== verification/CoverageStrategies.thy ===== *)
theory CoverageStrategies
  imports CallStrategies EVM
begin

text \<open>
  The strategies that aim at particular paths of the interpreter
  (\<open>generator/coverage_strategies.go\<close>).
\<close>

definition staticContextGenerator_Execute ::
    "'p program_api \<Rightarrow> generate \<Rightarrow> 'p env \<Rightarrow> 'p env option" where
  "staticContextGenerator_Execute P gen env =
     (let level = recursionLevel env in
      if level \<ge> maxRecursionLevel then Some env
      else do {
        (w, env) \<leftarrow> liftF (writeOp P) env;
        (n, env) \<leftarrow> liftF Uint16 env;
        (seed, env) \<leftarrow> liftF (ByteSlice (unat n)) env;
        (code, env) \<leftarrow> generate_nested gen (NewFiller seed) (level + 1) env;
        let child = w @ code;
        CreateAndCall P (deployInitCode P child) False vm_STATICCALL env
      })"

definition staticContextGenerator :: "'p program_api \<Rightarrow> generate \<Rightarrow> 'p strategy" where
  "staticContextGenerator P gen =
    \<lparr>dynType = StaticContextGenerator, Execute = staticContextGenerator_Execute P gen,
     Importance = 3, String = ''staticContextGenerator''\<rparr>"

definition warmColdGenerator_Execute :: "'p program_api \<Rightarrow> 'p env \<Rightarrow> 'p env option" where
  "warmColdGenerator_Execute P env = do {
     (b, env) \<leftarrow> liftF Byte env;
     o1 \<leftarrow> index [vm_SLOAD, vm_BALANCE, vm_EXTCODESIZE, vm_EXTCODEHASH] (unat b mod 4);
     (key, env) \<leftarrow> liftF BigInt256 env;
     emit (chain (concat (replicate 2 [Push P (GoBig key), Op P [o1], Op P [vm_POP]]))) env
   }"

definition warmColdGenerator :: "'p program_api \<Rightarrow> 'p strategy" where
  "warmColdGenerator P =
    \<lparr>dynType = WarmColdGenerator, Execute = warmColdGenerator_Execute P,
     Importance = 2, String = ''warmColdGenerator''\<rparr>"

definition sstoreWalkGenerator_Execute :: "'p program_api \<Rightarrow> 'p env \<Rightarrow> 'p env option" where
  "sstoreWalkGenerator_Execute P env = do {
     (s, env) \<leftarrow> liftF Uint16 env;
     let slot = (ucast s :: u32);
     emit (chain (map (\<lambda>v. Sstore P (GoUint32 slot) (GoBytes v)) [[0x01], [0x02], [], [0x03], []])) env
   }"

definition sstoreWalkGenerator :: "'p program_api \<Rightarrow> 'p strategy" where
  "sstoreWalkGenerator P =
    \<lparr>dynType = SstoreWalkGenerator, Execute = sstoreWalkGenerator_Execute P,
     Importance = 2, String = ''sstoreWalkGenerator''\<rparr>"

definition valueCallGenerator_Execute :: "'p program_api \<Rightarrow> lib \<Rightarrow> 'p env \<Rightarrow> 'p env option" where
  "valueCallGenerator_Execute P X env = do {
     (g, env) \<leftarrow> liftF Uint16 env;
     let gas = u256_NewInt X (ucast g + 2300);
     (bs, env) \<leftarrow> liftF (ByteSlice 20) env;
     let addr = BytesToAddress X bs;
     (v, env) \<leftarrow> liftF Uint16 env;
     let val = uint v;
     emit (chain (concat (replicate 2
       [Call P (GoU256 gas) (GoAddress addr) (GoBig val) (GoInt 0) (GoInt 0) (GoInt 0) (GoInt 0),
        Op P [vm_POP]]))) env
   }"

definition valueCallGenerator :: "'p program_api \<Rightarrow> lib \<Rightarrow> 'p strategy" where
  "valueCallGenerator P X =
    \<lparr>dynType = ValueCallGenerator, Execute = valueCallGenerator_Execute P X,
     Importance = 2, String = ''valueCallGenerator''\<rparr>"

definition deepCallGenerator_Execute :: "'p program_api \<Rightarrow> 'p env \<Rightarrow> 'p env option" where
  "deepCallGenerator_Execute P env = do {
     env \<leftarrow> emit (chain (replicate 5 (Push P (GoInt 0)))) env;
     emit (Op P [vm_ADDRESS, vm_GAS, vm_CALL, vm_POP]) env
   }"

definition deepCallGenerator :: "'p program_api \<Rightarrow> 'p strategy" where
  "deepCallGenerator P =
    \<lparr>dynType = DeepCallGenerator, Execute = deepCallGenerator_Execute P,
     Importance = 1, String = ''deepCallGenerator''\<rparr>"

definition returnDataCopyGenerator_Execute :: "'p program_api \<Rightarrow> 'p env \<Rightarrow> 'p env option" where
  "returnDataCopyGenerator_Execute P env = do {
     let childRuntime = Bytes P (Return P 0 32 (New P));
     env \<leftarrow> CreateAndCall P (deployInitCode P childRuntime) False vm_STATICCALL env;
     (b, env) \<leftarrow> liftF Byte env;
     let len = uint b;
     emit (chain [Push P (GoInt len), Push P (GoInt 0), Push P (GoInt 0), Op P [vm_RETURNDATACOPY]]) env
   }"

definition returnDataCopyGenerator :: "'p program_api \<Rightarrow> 'p strategy" where
  "returnDataCopyGenerator P =
    \<lparr>dynType = ReturnDataCopyGenerator, Execute = returnDataCopyGenerator_Execute P,
     Importance = 2, String = ''returnDataCopyGenerator''\<rparr>"

definition mcopyGenerator_Execute :: "'p program_api \<Rightarrow> 'p env \<Rightarrow> 'p env option" where
  "mcopyGenerator_Execute P env = do {
     (d, env) \<leftarrow> liftF ByteSlice256 env;
     env \<leftarrow> emit (Mstore P d 0) env;
     (b, env) \<leftarrow> liftF Byte env;
     let dst = uint b mod 64;
     (b, env) \<leftarrow> liftF Byte env;
     let src = uint b mod 64;
     (b, env) \<leftarrow> liftF Byte env;
     let len = uint b;
     emit (chain [Push P (GoInt len), Push P (GoInt src), Push P (GoInt dst), Op P [vm_MCOPY]]) env
   }"

definition mcopyGenerator :: "'p program_api \<Rightarrow> 'p strategy" where
  "mcopyGenerator P =
    \<lparr>dynType = McopyGenerator, Execute = mcopyGenerator_Execute P,
     Importance = 2, String = ''mcopyGenerator''\<rparr>"

definition logGenerator_Execute :: "'p program_api \<Rightarrow> 'p env \<Rightarrow> 'p env option" where
  "logGenerator_Execute P env = do {
     (d, env) \<leftarrow> liftF ByteSlice256 env;
     env \<leftarrow> emit (Mstore P d 0) env;
     (b, env) \<leftarrow> liftF Byte env;
     let n = unat (b mod 5);
     env \<leftarrow> liftFP (pushTopics P n) env;
     (b, env) \<leftarrow> liftF Byte env;
     env \<leftarrow> emit (Push P (GoInt (uint b))) env;
     env \<leftarrow> emit (Push P (GoInt 0)) env;
     emit (Op P [vm_LOG0 + of_nat n]) env
   }"

definition logGenerator :: "'p program_api \<Rightarrow> 'p strategy" where
  "logGenerator P =
    \<lparr>dynType = LogGenerator, Execute = logGenerator_Execute P,
     Importance = 2, String = ''logGenerator''\<rparr>"

definition selfdestructGenerator_Execute :: "'p program_api \<Rightarrow> 'p env \<Rightarrow> 'p env option" where
  "selfdestructGenerator_Execute P env = do {
     let child = New P;
     (v, env) \<leftarrow> liftF BigInt256 env;
     let child = Push P (GoBig v) child;
     let child = Op P [vm_SELFDESTRUCT] child;
     CreateAndCall P (Bytes P child) False vm_CALL env
   }"

definition selfdestructGenerator :: "'p program_api \<Rightarrow> 'p strategy" where
  "selfdestructGenerator P =
    \<lparr>dynType = SelfdestructGenerator, Execute = selfdestructGenerator_Execute P,
     Importance = 1, String = ''selfdestructGenerator''\<rparr>"

definition invalidJumpGenerator_Execute :: "'p program_api \<Rightarrow> 'p env \<Rightarrow> 'p env option" where
  "invalidJumpGenerator_Execute P env = do {
     let at = Label P (env_p env);
     env \<leftarrow> emit (Push P (GoBytes [0x5b])) env;
     env \<leftarrow> emit (Op P [vm_POP]) env;
     emit (Jump P (GoUint64 (at + 1))) env
   }"

definition invalidJumpGenerator :: "'p program_api \<Rightarrow> 'p strategy" where
  "invalidJumpGenerator P =
    \<lparr>dynType = InvalidJumpGenerator, Execute = invalidJumpGenerator_Execute P,
     Importance = 1, String = ''invalidJumpGenerator''\<rparr>"

text \<open>The depth of the stack fill: drawn from the filler, then cut to the budget.\<close>

definition stackFill_depth :: "int option \<Rightarrow> int \<Rightarrow> int" where
  "stackFill_depth b depth =
     (case b of
        None \<Rightarrow> depth
      | Some bud \<Rightarrow> (let maxDepth = (bud - 8) sdiv 2 in if depth > maxDepth then maxDepth else depth))"

definition stackFillGenerator_Execute :: "'p program_api \<Rightarrow> 'p env \<Rightarrow> 'p env option" where
  "stackFillGenerator_Execute P env = do {
     (b, env) \<leftarrow> liftF Byte env;
     let overflow = b < 32;
     (b, env) \<leftarrow> liftF Byte env;
     let depth = 1000 + uint b mod 22;
     (depth, env) \<leftarrow> (if overflow then do {
         (b, env) \<leftarrow> liftF Byte env;
         Some (1024 + uint b mod 16, env)
       } else Some (depth, env));
     let depth = stackFill_depth (budget env) depth;
     if depth \<le> 0 then Some env
     else do {
       env \<leftarrow> emit (Push0 P) env;
       env \<leftarrow> emit (chain (replicate (nat depth) (Op P [vm_DUP1]))) env;
       if overflow then Some env
       else do {
         env \<leftarrow> emit (chain (replicate (nat depth) (Op P [vm_POP]))) env;
         Some (env\<lparr>stackHeight := 1\<rparr>)
       }
     }
   }"

definition stackFillGenerator :: "'p program_api \<Rightarrow> 'p strategy" where
  "stackFillGenerator P =
    \<lparr>dynType = StackFillGenerator, Execute = stackFillGenerator_Execute P,
     Importance = 1, String = ''stackFillGenerator''\<rparr>"

definition coverageStrategies :: "'p program_api \<Rightarrow> lib \<Rightarrow> generate \<Rightarrow> 'p strategy list" where
  "coverageStrategies P X gen =
    [staticContextGenerator P gen, warmColdGenerator P, sstoreWalkGenerator P,
     valueCallGenerator P X, deepCallGenerator P, returnDataCopyGenerator P, mcopyGenerator P,
     logGenerator P, selfdestructGenerator P, invalidJumpGenerator P, stackFillGenerator P]"

subsection \<open>The contract\<close>

interpretation staticContext_s: strategy_contract P "nests gen" "staticContextGenerator_Execute P gen"
  for P gen
  by unfold_locales
    (auto simp: staticContextGenerator_Execute_def nests_def
      intro!: kept_intro kept_bind_generate_nested)

lemma kept_index [kept_intro]:
  "i < length xs \<Longrightarrow> kept P e (k (xs ! i)) \<Longrightarrow> kept P e (index xs i \<bind> k)"
  by simp

interpretation warmCold_s: strategy_contract P "\<lambda>_. True" "warmColdGenerator_Execute P" for P
  by unfold_locales
    (auto simp: warmColdGenerator_Execute_def numeral_2_eq_2 intro!: kept_intro kept_emit grow_intro)

interpretation sstoreWalk_s: strategy_contract P "\<lambda>_. True" "sstoreWalkGenerator_Execute P" for P
  by unfold_locales (auto simp: sstoreWalkGenerator_Execute_def intro!: kept_intro kept_emit grow_intro)

interpretation valueCall_s: strategy_contract P "\<lambda>_. True" "valueCallGenerator_Execute P X" for P X
  by unfold_locales
    (auto simp: valueCallGenerator_Execute_def intro!: kept_intro kept_emit grow_intro)

interpretation deepCall_s: strategy_contract P "\<lambda>_. True" "deepCallGenerator_Execute P" for P
  by unfold_locales (auto simp: deepCallGenerator_Execute_def intro!: kept_intro grow_intro)

lemmas kept_bind_CreateAndCall [kept_intro] = kept_bind [OF kept_CreateAndCall]

interpretation returnDataCopy_s: strategy_contract P "\<lambda>_. True" "returnDataCopyGenerator_Execute P"
  for P
  by unfold_locales (auto simp: returnDataCopyGenerator_Execute_def intro!: kept_intro grow_intro)

interpretation mcopy_s: strategy_contract P "\<lambda>_. True" "mcopyGenerator_Execute P" for P
  by unfold_locales (auto simp: mcopyGenerator_Execute_def intro!: kept_intro grow_intro)

lemma fills_pushTopics_appends:
  "program_laws P \<Longrightarrow> appends P p0 p \<Longrightarrow> fills f (pushTopics P n p f) (appends P p0)"
proof (induction n arbitrary: p f)
  case (Suc n)
  then show ?case by (auto intro!: fill_intro grow_intro Suc.IH)
qed (auto intro!: fill_intro)

lemma kept_bind_pushTopics [kept_intro]:
  "program_laws P \<Longrightarrow> (\<And>e'. kept P e' (k e')) \<Longrightarrow> kept P e (liftFP (pushTopics P n) e \<bind> k)"
  by (rule kept_bind [OF kept_liftFP]) (auto intro: fills_pushTopics_appends)

interpretation log_s: strategy_contract P "\<lambda>_. True" "logGenerator_Execute P" for P
  by unfold_locales (auto simp: logGenerator_Execute_def intro!: kept_intro grow_intro)

interpretation selfdestruct_s: strategy_contract P "\<lambda>_. True" "selfdestructGenerator_Execute P" for P
  by unfold_locales (auto simp: selfdestructGenerator_Execute_def intro!: kept_intro)

interpretation invalidJump_s: strategy_contract P "\<lambda>_. True" "invalidJumpGenerator_Execute P" for P
  by unfold_locales (auto simp: invalidJumpGenerator_Execute_def intro!: kept_intro grow_intro)

lemma keptv_overflow_depth:
  "keptv P e (if ov then liftF Byte e \<bind> (\<lambda>(b, e). Some (1024 + uint b mod 16, e))
     else Some (d, e)) (\<lambda>_. True)"
  by (auto intro!: kept_intro keptv_return)

lemmas kept_bind_overflow_depth [kept_intro] = keptv_overflow_depth [THEN keptv_bind]

interpretation stackFill_s: strategy_contract P "\<lambda>_. True" "stackFillGenerator_Execute P" for P
  by unfold_locales
    (auto simp: stackFillGenerator_Execute_def intro!: kept_intro grow_intro)

lemma coverageStrategies_kept:
  "program_laws P \<Longrightarrow> nests gen e \<Longrightarrow> st \<in> set (coverageStrategies P X gen) \<Longrightarrow>
    kept P e (Execute st e)"
  unfolding coverageStrategies_def
  by (auto simp: staticContextGenerator_def warmColdGenerator_def sstoreWalkGenerator_def
      valueCallGenerator_def deepCallGenerator_def returnDataCopyGenerator_def mcopyGenerator_def
      logGenerator_def selfdestructGenerator_def invalidJumpGenerator_def stackFillGenerator_def
      intro: staticContext_s.exec_kept warmCold_s.exec_kept sstoreWalk_s.exec_kept
      valueCall_s.exec_kept deepCall_s.exec_kept returnDataCopy_s.exec_kept mcopy_s.exec_kept
      log_s.exec_kept selfdestruct_s.exec_kept invalidJump_s.exec_kept stackFill_s.exec_kept)

subsection \<open>Properties\<close>

lemma Bytes_repeat:
  "program_laws P \<Longrightarrow> Bytes P (chain (replicate n (Op P [b])) p) = Bytes P p @ replicate n b"
  by (induction n arbitrary: p) (simp_all add: Bytes_Op replicate_app_Cons_same)

lemma run_height_dups:
  "0 < h \<Longrightarrow> run_height (replicate n vm_DUP1 @ rest) h = run_height rest (h + n)"
  by (induction n arbitrary: h) (simp_all add: push_len_def effect_def)

lemma run_height_pops: "run_height (replicate n vm_POP) (h + n) = Some h"
  by (induction n) (simp_all add: push_len_def effect_def)

lemma stackFill_shape:
  assumes "program_laws P" and "filler_ok (env_f e)" and "budget e = Some b"
  shows "\<exists>e' d. stackFillGenerator_Execute P e = Some e' \<and> d \<le> (b - 8) sdiv 2 \<and> d \<le> 1039 \<and>
    Bytes P (env_p e') = Bytes P (env_p e) @ (if d \<le> 0 then [] else vm_PUSH0 # replicate (nat d) vm_DUP1 @
      (if tape (env_f e) 0 < 32 then [] else replicate (nat d) vm_POP)) \<and>
    (tape (env_f e) 0 < 32 \<or> d \<le> 0 \<or> stackHeight e' = 1 \<and> d \<le> 1021)"
proof -
  define ov where "ov = (tape (env_f e) 0 < 32)"
  define d0 where "d0 = (if ov then 1024 + uint (tape (env_f e) 2) mod 16
    else 1000 + uint (tape (env_f e) 1) mod 22)"
  define d where "d = stackFill_depth (budget e) d0"
  have 1: "liftF Byte (e\<lparr>env_f := advance 1 (env_f e)\<rparr>) =
      Some (tape (env_f e) 1, e\<lparr>env_f := advance 2 (env_f e)\<rparr>)"
    using liftF_Byte_at [OF assms(2), of 1 e] by (simp add: numeral_2_eq_2)
  note read = liftF_Byte [OF assms(2)] 1 [simplified] liftF_Byte_at [OF assms(2), of 2 e, simplified]
  define e1 where "e1 = e\<lparr>env_f := advance (if ov then 3 else 2) (env_f e)\<rparr>"
  define p where "p = chain (replicate (nat d) (Op P [vm_DUP1])) (Push0 P (env_p e))"
  define e' where "e' = (if d \<le> 0 then e1 else if ov then e1\<lparr>env_p := p\<rparr>
    else e1\<lparr>env_p := chain (replicate (nat d) (Op P [vm_POP])) p, stackHeight := 1\<rparr>)"
  have "stackFillGenerator_Execute P e = Some e'"
  proof (cases ov)
    case True
    then have t: "tape (env_f e) 0 < 32" by (simp add: ov_def)
    have "d = stackFill_depth (budget e) (1024 + uint (tape (env_f e) 2) mod 16)"
      using True by (simp add: d_def d0_def)
    with True show ?thesis
      unfolding stackFillGenerator_Execute_def
      by (simp add: read t emit_def Let_def e'_def e1_def p_def)
  next
    case False
    then have t: "\<not> tape (env_f e) 0 < 32" by (simp add: ov_def)
    have "d = stackFill_depth (budget e) (1000 + uint (tape (env_f e) 1) mod 22)"
      using False by (simp add: d_def d0_def)
    with False show ?thesis
      unfolding stackFillGenerator_Execute_def
      by (simp add: read t emit_def Let_def e'_def e1_def p_def)
  qed
  moreover have "d \<le> d0" "d \<le> (b - 8) sdiv 2"
    by (auto simp: d_def stackFill_depth_def assms(3) Let_def)
  moreover have "d0 \<le> 1039" "\<not> ov \<longrightarrow> d0 \<le> 1021"
    using pos_mod_bound [of 16 "uint (tape (env_f e) 2)"] pos_mod_bound [of 22 "uint (tape (env_f e) 1)"]
    by (auto simp: d0_def)
  moreover have "Bytes P (env_p e') = Bytes P (env_p e) @ (if d \<le> 0 then [] else vm_PUSH0 #
      replicate (nat d) vm_DUP1 @ (if ov then [] else replicate (nat d) vm_POP))"
    by (simp add: e'_def e1_def p_def Bytes_repeat [OF assms(1)] Bytes_Push0 [OF assms(1)])
  ultimately show ?thesis
    unfolding ov_def [symmetric]
    by (intro exI [of _ e'] exI [of _ d]) (auto simp: e'_def)
qed



text \<open>The invalid-jump strategy does what its name says: on code that ends at an instruction
  boundary, it appends a jump to the byte after the PUSH opcode it emitted, and no later code makes
  that position a valid destination.\<close>

theorem invalidJump_target_is_invalid:
  assumes "program_laws P" and "aligned (Bytes P (env_p e))"
  defines "target \<equiv> length (Bytes P (env_p e)) + 1"
  shows "\<exists>e' p. invalidJumpGenerator_Execute P e = Some e' \<and>
    env_p e' = Jump P (GoUint64 (of_nat target)) p \<and>
    (\<forall>post. \<not> valid_dest (Bytes P (env_p e') @ post) target)"
proof -
  obtain c where c: "is_push c"
    "Bytes P (Push P (GoBytes [0x5b]) (env_p e)) = Bytes P (env_p e) @ c"
    using Push_is_push [OF assms(1)] by blast
  define p where "p = Op P [vm_POP] (Push P (GoBytes [0x5b]) (env_p e))"
  define e' where "e' = e\<lparr>env_p := Jump P (GoUint64 (of_nat target)) p\<rparr>"
  have "invalidJumpGenerator_Execute P e = Some e'"
    by (simp add: invalidJumpGenerator_Execute_def emit_def e'_def p_def target_def
        Label_pc [OF assms(1)] add.commute)
  moreover have "\<not> valid_dest (Bytes P (env_p e') @ post) target" for post
  proof -
    obtain rest where rest: "Bytes P (env_p e') @ post = (Bytes P (env_p e) @ c) @ rest"
      by (simp add: e'_def Bytes_Jump [OF assms(1)])
        (metis (no_types, lifting) Bytes_Op Bytes_Push append.assoc assms(1) c(2) p_def)
    have "length c \<ge> 2" using c(1) by (auto simp: is_push_def Suc_le_eq)
    moreover have "dests (length (Bytes P (env_p e))) c = []"
      using c(1) by (rule dests_push)
    ultimately show ?thesis
      unfolding valid_dest_def rest using assms(2) aligned_push [OF c(1)]
        dests_range [of target 0 "Bytes P (env_p e)"]
        dests_range [of target "length (Bytes P (env_p e)) + length c" rest]
      by (auto simp: aligned_append dests_append target_def)
  qed
  ultimately show ?thesis by (auto simp: e'_def)
qed

theorem invalidJump_target_is_invalid_witness:
  "\<exists>e' p. invalidJumpGenerator_Execute sample_program (sample_env [] None) = Some e' \<and>
    env_p e' = Jump sample_program (GoUint64 1) p \<and>
    (\<forall>post. \<not> valid_dest (Bytes sample_program (env_p e') @ post) 1)"
  using invalidJump_target_is_invalid [OF sample_program_laws, of "sample_env [] None"]
  by (simp add: sample_program_def)

end
