(* ===== verification/StateTest.thy ===== *)
theory StateTest
  imports Libraries
begin

text \<open>
  The state test around a program (\<open>CreateGstMaker\<close>, \<open>gasLimit\<close> and \<open>randHex\<close> of
  \<open>generator/generator.go\<close>).  What goevmlab makes of a test is not modelled: a
  test maker is the sequence of the calls the code makes on it.
\<close>

subsection \<open>Accounts and transactions\<close>

record GenesisAccount =
  ga_Code :: "byte list"
  ga_Storage :: "byte list \<rightharpoonup> byte list"
  ga_Balance :: int
  ga_Nonce :: u64

record StTransaction =
  tx_GasLimit :: "u64 list"
  tx_Nonce :: u64
  tx_Value :: "string list"
  tx_Data :: "string list"
  tx_GasPrice :: int
  tx_To :: string
  tx_PrivateKey :: "byte list"
  tx_Sender :: address

text \<open>A test maker is the sequence of the calls made on it.\<close>

datatype maker_call =
    CallEnableFork string
  | CallAddAccount address GenesisAccount
  | CallSetTx StTransaction

type_synonym gst = "maker_call list"

definition NewGstMaker :: gst where
  "NewGstMaker = []"

definition EnableFork :: "string \<Rightarrow> gst \<Rightarrow> gst" where
  "EnableFork name gst = gst @ [CallEnableFork name]"

definition AddAccount :: "address \<Rightarrow> GenesisAccount \<Rightarrow> gst \<Rightarrow> gst" where
  "AddAccount addr acc gst = gst @ [CallAddAccount addr acc]"

definition SetTx :: "StTransaction \<Rightarrow> gst \<Rightarrow> gst" where
  "SetTx tx gst = gst @ [CallSetTx tx]"

text \<open>
  What the calls ask for: the forks enabled, the accounts in the order in which they were added, and the
  transaction set last.  In the pre-state an account added later overwrites one with the same address, as
  the comment in \<open>seedPreState\<close> of \<open>cmd/fuzzyvm-db/replay_exec.go\<close> says.
\<close>

definition gst_forks :: "gst \<Rightarrow> string list" where
  "gst_forks gst = List.map_filter (\<lambda>c. case c of CallEnableFork name \<Rightarrow> Some name | _ \<Rightarrow> None) gst"

definition gst_accounts :: "gst \<Rightarrow> (address \<times> GenesisAccount) list" where
  "gst_accounts gst = List.map_filter (\<lambda>c. case c of CallAddAccount a acc \<Rightarrow> Some (a, acc) | _ \<Rightarrow> None) gst"

definition gst_tx :: "gst \<Rightarrow> StTransaction option" where
  "gst_tx gst = foldl (\<lambda>t c. case c of CallSetTx tx \<Rightarrow> Some tx | _ \<Rightarrow> t) None gst"

definition gst_pre :: "gst \<Rightarrow> address \<rightharpoonup> GenesisAccount" where
  "gst_pre gst = map_of (rev (gst_accounts gst))"

lemmas maker_defs = NewGstMaker_def EnableFork_def AddAccount_def SetTx_def

lemma gst_forks_simps [simp]:
  "gst_forks NewGstMaker = []" "gst_forks (EnableFork name gst) = gst_forks gst @ [name]"
  "gst_forks (AddAccount addr acc gst) = gst_forks gst" "gst_forks (SetTx tx gst) = gst_forks gst"
  by (simp_all add: gst_forks_def maker_defs map_filter_simps map_filter_def)

lemma gst_accounts_simps [simp]:
  "gst_accounts NewGstMaker = []" "gst_accounts (EnableFork name gst) = gst_accounts gst"
  "gst_accounts (AddAccount addr acc gst) = gst_accounts gst @ [(addr, acc)]"
  "gst_accounts (SetTx tx gst) = gst_accounts gst"
  by (simp_all add: gst_accounts_def maker_defs map_filter_def)

lemma gst_tx_simps [simp]:
  "gst_tx NewGstMaker = None" "gst_tx (EnableFork name gst) = gst_tx gst"
  "gst_tx (AddAccount addr acc gst) = gst_tx gst" "gst_tx (SetTx tx gst) = Some tx"
  by (simp_all add: gst_tx_def maker_defs)

lemma gst_pre_simps [simp]:
  "gst_pre NewGstMaker = Map.empty" "gst_pre (EnableFork name gst) = gst_pre gst"
  "gst_pre (AddAccount addr acc gst) = (gst_pre gst)(addr \<mapsto> acc)" "gst_pre (SetTx tx gst) = gst_pre gst"
  by (simp_all add: gst_pre_def)

subsection \<open>The test of a program\<close>

definition fork :: string where "fork = ''Amsterdam''"

definition sender :: "lib \<Rightarrow> address" where
  "sender X = HexToAddress X ''a94f5374fce5edbc8e2a8697c15331677e6ebf0b''"

text \<open>The bytes of the hexadecimal constant.\<close>

definition sk :: "byte list" where
  "sk = be_bytes 32 0x45a915e4d060149eb4365960e6a7a45f334393093061116b197e3240065ff2d8"

definition gasLimit :: "lib \<Rightarrow> filler \<Rightarrow> (u64 \<times> filler) option" where
  "gasLimit X f = do {
     (b, f) \<leftarrow> Byte f;
     if b < 200 then Some (MaxTxGas X, f)
     else if b < 240 then do {
       (g, f) \<leftarrow> Uint16 f;
       Some (21000 + ucast g, f)
     } else do {
       (g, f) \<leftarrow> Uint32 f;
       r \<leftarrow> (if MaxTxGas X - 21000 = 0 then None else Some ((ucast g :: u64) mod (MaxTxGas X - 21000)));
       Some (21000 + r, f)
     }
   }"

definition randHex :: "lib \<Rightarrow> filler \<Rightarrow> nat \<Rightarrow> (string \<times> filler) option" where
  "randHex X f n = do {
     (b, f) \<leftarrow> ByteSlice n f;
     Some (hexutil_Encode X b, f)
   }"

definition dest :: "lib \<Rightarrow> address" where
  "dest X = HexToAddress X ''0x0000ca1100f022''"

definition CreateGstMaker :: "lib \<Rightarrow> filler \<Rightarrow> byte list \<Rightarrow> (gst \<times> filler) option" where
  "CreateGstMaker X f code = do {
     let gst = NewGstMaker;
     let gst = EnableFork fork gst;
     let gst = AddAccount (sender X)
       \<lparr>ga_Code = [], ga_Storage = Map.empty, ga_Balance = 0x3fffffffffffffff, ga_Nonce = 0\<rparr> gst;
     let gst = AddAccount (dest X)
       \<lparr>ga_Code = code, ga_Storage = Map.empty, ga_Balance = 0, ga_Nonce = 0\<rparr> gst;
     (g, f) \<leftarrow> gasLimit X f;
     (v, f) \<leftarrow> randHex X f 4;
     (d, f) \<leftarrow> randHex X f 100;
     let tx = \<lparr>tx_GasLimit = [g], tx_Nonce = 0, tx_Value = [v], tx_Data = [d], tx_GasPrice = 0x80,
       tx_To = Address_Hex X (dest X), tx_PrivateKey = sk, tx_Sender = sender X\<rparr>;
     let gst = SetTx tx gst;
     Some (gst, f)
   }"

subsection \<open>The drawn fields are in range\<close>

lemma gasLimit_low: "unat (21000 + ucast (g :: u16) :: u64) = 21000 + unat g"
  using unsigned_less [of g, where 'a = nat] by (simp add: unat_word_ariths unsigned_ucast_eq take_bit_eq_mod)

lemma gasLimit_mid: "unat (21000 + (x :: u64) mod 16756216) = 21000 + unat x mod 16756216"
proof -
  have "unat x mod 16756216 < 16756216" by simp
  then show ?thesis by (simp add: unat_word_ariths unat_mod)
qed

lemma gasLimit_spec:
  assumes "lib_laws X" and "filler_ok f"
  shows "\<exists>g n. gasLimit X f = Some (g, advance n f) \<and> 21000 \<le> g \<and> g \<le> MaxTxGas X"
proof -
  have ok: "filler_ok (advance 1 f)" using assms(2) by simp
  have low: "21000 \<le> (21000 + ucast (g :: u16) :: u64)" "(21000 + ucast g :: u64) \<le> 2 ^ 24" for g
    using unsigned_less [of g, where 'a = nat] by (simp_all add: word_le_nat_alt gasLimit_low)
  have mid: "21000 \<le> 21000 + (x :: u64) mod 16756216" "21000 + (x :: u64) mod 16756216 \<le> 2 ^ 24" for x
    using mod_less_divisor [of 16756216 "unat x"] by (simp_all add: word_le_nat_alt gasLimit_mid)
  show ?thesis
    using low mid by (simp add: gasLimit_def MaxTxGas_cap [OF assms(1)] Byte_spec [OF assms(2)]
        Uint16_spec [OF ok, simplified] Uint32_spec [OF ok, simplified]
        advance_advance [OF assms(2)]) blast
qed

text \<open>The gas limit of a test always covers the intrinsic gas of a transaction and never exceeds
  the transaction gas cap.\<close>

theorem gasLimit_bounds:
  assumes "lib_laws X" and "filler_ok f"
  shows "\<exists>g n. gasLimit X f = Some (g, advance n f) \<and> 21000 \<le> g \<and> g \<le> MaxTxGas X"
  using assms by (rule gasLimit_spec)

theorem gasLimit_bounds_witness:
  "\<exists>g n. gasLimit sample_lib (NewFiller [230, 1, 2]) = Some (g, advance n (NewFiller [230, 1, 2])) \<and>
    21000 \<le> g"
  using gasLimit_bounds [OF sample_lib_laws filler_ok_NewFiller] by blast

lemma CreateGstMaker_spec:
  assumes "lib_laws X" and "filler_ok f"
  shows "\<exists>gst n tx g v d. CreateGstMaker X f code = Some (gst, advance n f) \<and>
    gst_forks gst = [''Amsterdam''] \<and> map_option ga_Code (gst_pre gst (dest X)) = Some code \<and>
    gst_tx gst = Some tx \<and> tx_To tx = Address_Hex X (dest X) \<and>
    tx_GasLimit tx = [g] \<and> tx_Value tx = [v] \<and> tx_Data tx = [d] \<and>
    21000 \<le> g \<and> g \<le> MaxTxGas X \<and> length v = 10 \<and> length d = 202"
proof -
  obtain g n where g: "gasLimit X f = Some (g, advance n f)" "21000 \<le> g" "g \<le> MaxTxGas X"
    using gasLimit_spec [OF assms] by blast
  have ok: "filler_ok (advance m f)" for m using assms(2) by simp
  show ?thesis
    by (simp add: CreateGstMaker_def g randHex_def ByteSlice_spec [OF ok] advance_advance [OF assms(2)]
        length_hexutil_Encode [OF assms(1)] Let_def)
      (auto simp: fork_def g(2,3) length_hexutil_Encode [OF assms(1)])
qed

text \<open>The code of the account added last, for the witnesses.\<close>

definition last_code :: "gst \<Rightarrow> byte list" where
  "last_code gst = (case gst_accounts gst of [] \<Rightarrow> [] | as \<Rightarrow> ga_Code (snd (last as)))"

end
