(* ===== verification/Generator.thy ===== *)
theory Generator
  imports StackStrategies JumpStrategies CoverageStrategies StateTest
begin

text \<open>
  The program generator (\<open>generator/generator.go\<close>): the loop that draws strategies until the
  round counter or the shared byte budget is used up, and the recursion through the strategies that
  generate nested programs.
  The recursion is bounded by \<open>maxRecursionLevel\<close>, so it is modelled with a fuel that counts the
  remaining levels; the fuel is shown to be enough and not to matter.  The debug output to
  standard error is left out.
\<close>

definition generator_strategies ::
    "'p program_api \<Rightarrow> lib \<Rightarrow> generate \<Rightarrow> 'p strategy list" where
  "generator_strategies P X gen =
     basicStrategies P @ callStrategies P X gen @ jumpStrategies P @ stackStrategies P @
     coverageStrategies P X gen"

definition strategies :: "'p program_api \<Rightarrow> lib \<Rightarrow> generate \<Rightarrow> 'p selector option" where
  "strategies P X gen = newSelector (validOpcodeGenerator P X) (generator_strategies P X gen)"

definition maxTotalBytes :: int where
  "maxTotalBytes = 10000"

text \<open>The rounds of \<open>generateCode\<close>: \<open>n\<close> are left, \<open>prev\<close> bytes were emitted before.\<close>

fun generateCode_loop ::
    "'p program_api \<Rightarrow> 'p selector \<Rightarrow> nat \<Rightarrow> int \<Rightarrow> 'p env \<Rightarrow> 'p env option" where
  "generateCode_loop P sel 0 prev env = Some env"
| "generateCode_loop P sel (Suc n) prev env = do {
     b \<leftarrow> budget env;
     if b \<le> 0 then Some env
     else do {
       (strategy, env) \<leftarrow> liftF (Select sel) env;
       env \<leftarrow> Execute strategy env;
       let grown = int (length (Bytes P (env_p env))) - prev;
       let prev = int (length (Bytes P (env_p env)));
       b \<leftarrow> budget env;
       generateCode_loop P sel n prev (env\<lparr>budget := Some (b - grown)\<rparr>)
     }
   }"

definition generateCode_body :: "'p program_api \<Rightarrow> lib \<Rightarrow> generate \<Rightarrow> generate" where
  "generateCode_body P X gen f level bud = do {
     sel \<leftarrow> strategies P X gen;
     let b = (case bud of None \<Rightarrow> maxTotalBytes | Some b \<Rightarrow> b);
     let env = \<lparr>env_f = f, env_p = New P, recursionLevel = level, labels = [], stackHeight = 0,
       budget = Some b\<rparr>;
     (counter, env) \<leftarrow> liftF Byte env;
     env \<leftarrow> generateCode_loop P sel (unat counter) 0 env;
     let code = Bytes P (env_p env);
     Some (code, env_f env, if bud = None then None else budget env)
   }"

text \<open>No result within \<open>n\<close> levels of recursion is \<open>None\<close>.\<close>

fun generateCode_fuel :: "'p program_api \<Rightarrow> lib \<Rightarrow> nat \<Rightarrow> generate" where
  "generateCode_fuel P X 0 f level bud = None"
| "generateCode_fuel P X (Suc n) f level bud =
     generateCode_body P X (generateCode_fuel P X n) f level bud"

definition levels_left :: "int \<Rightarrow> nat" where
  "levels_left level = nat (maxRecursionLevel - level)"

definition generateCode :: "'p program_api \<Rightarrow> lib \<Rightarrow> generate" where
  "generateCode P X f level bud = generateCode_fuel P X (Suc (levels_left level)) f level bud"

subsection \<open>A whole test\<close>

definition GenerateProgram ::
    "'p program_api \<Rightarrow> lib \<Rightarrow> filler \<Rightarrow> ((gst \<times> byte list) \<times> filler) option" where
  "GenerateProgram P X f = do {
     (code, f, _) \<leftarrow> generateCode P X f 0 (Some maxTotalBytes);
     (gst, f) \<leftarrow> CreateGstMaker X f code;
     Some ((gst, code), f)
   }"

subsection \<open>The rounds keep the invariant and account for every byte\<close>

text \<open>A table of strategies that may be run on environments of one recursion level.\<close>

locale strategy_table =
  fixes P :: "'p program_api"
    and level :: int
    and pre :: bool
    and ss :: "'p strategy list"
  assumes strat_kept:
    "pre \<Longrightarrow> st \<in> set ss \<Longrightarrow> recursionLevel e = level \<Longrightarrow> kept P e (Execute st e)"
begin

lemma loop_returns:
  assumes pre and sel: "selector_ok sel" "strats sel = ss"
  shows "env_ok P e \<Longrightarrow> recursionLevel e = level \<Longrightarrow> budget e = Some b \<Longrightarrow>
    prev = int (length (Bytes P (env_p e))) \<Longrightarrow>
    returns (generateCode_loop P sel n prev e)
      (\<lambda>e'. env_ok P e' \<and> env_le P e e' \<and>
        (\<exists>b'. budget e' = Some b' \<and> b' + int (length (Bytes P (env_p e'))) \<le> b + prev))"
proof (induction n arbitrary: e b prev)
  case (Suc n)
  show ?case
  proof (cases "b \<le> 0")
    case False
    obtain st e1 where e1: "liftF (Select sel) e = Some (st, e1)" "env_ok P e1" "env_le P e e1"
      "st \<in> set ss"
      using keptv_Select [OF sel(1), of P e] Suc.prems(1) sel(2)
      by (auto simp: keptv_def returns_iff)
    then have "recursionLevel e1 = level" using Suc.prems(2) by (simp add: env_le_def)
    from strat_kept [OF \<open>pre\<close> e1(4) this] e1(2) obtain e2 where
      e2: "Execute st e1 = Some e2" "env_ok P e2" "env_le P e1 e2"
      by (auto simp: kept_def returns_iff)
    have le: "env_le P e e2" using env_le_trans e1(3) e2(3) .
    then obtain b2 where b2: "budget e2 = Some b2" "b2 \<le> b"
      using Suc.prems(3) by (cases "budget e2") (auto simp: env_le_def)
    define new where "new = int (length (Bytes P (env_p e2)))"
    define e3 where "e3 = e2\<lparr>budget := Some (b2 - (new - prev))\<rparr>"
    have grown: "prev \<le> new"
      using le Suc.prems(4) prefix_length_le unfolding env_le_def new_def by fastforce
    have "env_ok P e3" "recursionLevel e3 = level" "budget e3 = Some (b2 - (new - prev))"
      "new = int (length (Bytes P (env_p e3)))"
      using e2(2) le Suc.prems(2) by (simp_all add: e3_def env_ok_def env_le_def new_def)
    note IH = Suc.IH [OF this]
    have "env_le P e e3"
      using le b2 grown Suc.prems(3) by (auto simp: env_le_def e3_def)
    then have "returns (generateCode_loop P sel n new e3)
      (\<lambda>e'. env_ok P e' \<and> env_le P e e' \<and>
        (\<exists>b'. budget e' = Some b' \<and> b' + int (length (Bytes P (env_p e'))) \<le> b + prev))"
      using IH b2(2) by (auto elim!: returns_mono intro: env_le_trans)
    then show ?thesis
      using False by (simp add: Suc.prems(3) e1(1) e2(1) b2(1) Let_def new_def e3_def)
  qed (use Suc.prems in simp)
qed simp

end

lemma generator_strategies_kept:
  assumes "program_laws P" and "lib_laws X" and "nests gen e"
    and "st \<in> set (generator_strategies P X gen @ [validOpcodeGenerator P X])"
  shows "kept P e (Execute st e)"
  using assms(4) basicStrategies_kept [OF assms(1)] callStrategies_kept [OF assms(1-3)]
    jumpStrategies_kept [OF assms(1)] stackStrategies_kept [OF assms(1)]
    coverageStrategies_kept [OF assms(1,3)] validOpcode_s.exec_kept [OF assms(1)]
  unfolding generator_strategies_def by (auto simp: validOpcodeGenerator_def)

interpretation generator_table: strategy_table P level
  "program_laws P \<and> lib_laws X \<and> (level < maxRecursionLevel \<longrightarrow> gen_ok gen (level + 1))"
  "generator_strategies P X gen @ [validOpcodeGenerator P X]" for P level X gen
  by unfold_locales (auto simp: nests_def simp del: set_append intro!: generator_strategies_kept)

text \<open>What one generation promises.\<close>

definition generates :: "filler \<Rightarrow> int option \<Rightarrow> byte list \<times> filler \<times> int option \<Rightarrow> bool" where
  "generates f bud r = (case r of (code, f', bud') \<Rightarrow>
     filler_ok f' \<and> data f' = data f \<and>
     (case bud of
        None \<Rightarrow> bud' = None
      | Some b \<Rightarrow> (case bud' of None \<Rightarrow> False | Some b' \<Rightarrow> b' + int (length code) \<le> b)))"

lemma generateCode_body_returns:
  assumes "program_laws P" and "lib_laws X"
    and "level < maxRecursionLevel \<longrightarrow> gen_ok gen (level + 1)" and "filler_ok f"
  shows "returns (generateCode_body P X gen f level bud) (generates f bud)"
proof -
  obtain sel where sel: "strategies P X gen = Some sel"
    by (simp add: strategies_def newSelector_eq)
  then have sel_ok: "selector_ok sel"
    "strats sel = generator_strategies P X gen @ [validOpcodeGenerator P X]"
    using newSelector_ok unfolding strategies_def by auto
  define b where "b = (case bud of None \<Rightarrow> maxTotalBytes | Some b \<Rightarrow> b)"
  define e0 where "e0 = \<lparr>env_f = f, env_p = New P, recursionLevel = level, labels = [],
    stackHeight = 0, budget = Some b\<rparr>"
  have ok0: "env_ok P e0" using assms(4) by (simp add: e0_def env_ok_def labels_ok_def)
  then obtain counter e where e: "liftF Byte e0 = Some (counter, e)" "env_ok P e" "env_le P e0 e"
    using keptv_liftF_reads(1) [of P e0] by (auto simp: keptv_def returns_iff)
  have e_eq: "env_p e = New P" "recursionLevel e = level" "budget e = Some b"
    using e(1) by (auto simp: liftF_def e0_def bind_eq_Some_conv)
  have "returns (generateCode_loop P sel (unat counter) 0 e)
      (\<lambda>e'. env_ok P e' \<and> env_le P e e' \<and>
        (\<exists>b'. budget e' = Some b' \<and> b' + int (length (Bytes P (env_p e'))) \<le> b + 0))"
    using assms(1-3) e(2) e_eq sel_ok Bytes_New [OF assms(1)]
    by (intro generator_table.loop_returns) auto
  then obtain e' b' where e': "generateCode_loop P sel (unat counter) 0 e = Some e'"
    "env_ok P e'" "env_le P e e'" "budget e' = Some b'"
    "b' + int (length (Bytes P (env_p e'))) \<le> b" by (auto simp: returns_iff)
  have "data (env_f e') = data f" using e'(3) e(3) by (simp add: env_le_def e0_def)
  moreover have "generateCode_body P X gen f level bud =
      Some (Bytes P (env_p e'), env_f e', if bud = None then None else Some b')"
    unfolding generateCode_body_def b_def [symmetric] Let_def
    by (simp add: sel e0_def [symmetric] e(1) e'(1,4))
  ultimately show ?thesis
    using e'(2,5) by (auto simp: generates_def env_ok_def b_def split: option.splits)
qed

lemma gen_okI: "(\<And>f b. filler_ok f \<Longrightarrow> returns (gen f level b) (generates f b)) \<Longrightarrow> gen_ok gen level"
  unfolding gen_ok_def
proof (intro allI impI)
  fix f b
  assume "\<And>f b. filler_ok f \<Longrightarrow> returns (gen f level b) (generates f b)" and "filler_ok f"
  then have "returns (gen f level b) (generates f b)" by blast
  then show "returns (gen f level b) (\<lambda>(code, f', b'). budget_le b' b)"
    by (rule returns_mono) (auto simp: generates_def split: option.splits)
qed

subsection \<open>The recursion ends\<close>

lemma levels_left_Suc:
  "level < maxRecursionLevel \<Longrightarrow> levels_left level = Suc (levels_left (level + 1))"
  by (simp add: levels_left_def)

lemma generateCode_fuel_returns:
  assumes "program_laws P" and "lib_laws X"
  shows "levels_left level < n \<Longrightarrow> filler_ok f \<Longrightarrow>
    returns (generateCode_fuel P X n f level bud) (generates f bud)"
proof (induction n arbitrary: level f bud)
  case (Suc n)
  have "gen_ok (generateCode_fuel P X n) (level + 1)" if "level < maxRecursionLevel"
    using Suc.IH Suc.prems(1) levels_left_Suc [OF that] by (intro gen_okI) simp
  then show ?case
    using generateCode_body_returns [OF assms _ Suc.prems(2)] by simp
qed simp

text \<open>Two tables whose strategies behave the same on one level.\<close>

definition same_table :: "int \<Rightarrow> 'p strategy list \<Rightarrow> 'p strategy list \<Rightarrow> bool" where
  "same_table level ss ts \<longleftrightarrow>
     list_all2 (\<lambda>s t. dynType s = dynType t \<and> Importance s = Importance t \<and>
       (\<forall>e. recursionLevel e = level \<longrightarrow> Execute s e = Execute t e)) ss ts"

lemma same_table_weights:
  "same_table level ss ts \<Longrightarrow> map selector_weight ss = map selector_weight ts"
  unfolding same_table_def
  by (induction rule: list_all2_induct) (simp_all add: selector_weight_def)

lemma same_table_refl: "same_table level ss ss"
  by (simp add: same_table_def list_all2_refl)

lemma same_table_append:
  "same_table level ss ts \<Longrightarrow> same_table level us vs \<Longrightarrow> same_table level (ss @ us) (ts @ vs)"
  by (simp add: same_table_def list_all2_appendI)

lemma same_table_generator:
  assumes "level < maxRecursionLevel \<longrightarrow> 
    (\<forall>f b. filler_ok f \<longrightarrow> gen f (level + 1) b = gen' f (level + 1) b)"
  shows "same_table level (generator_strategies P X gen @ [validOpcodeGenerator P X])
    (generator_strategies P X gen' @ [validOpcodeGenerator P X])"
proof -
  have nested: "generate_nested gen (NewFiller s) (level + 1) e =
      generate_nested gen' (NewFiller s) (level + 1) e"
    if "level < maxRecursionLevel" for s and e :: "'a env"
    using assms that by (simp add: generate_nested_def)
  have "createCallGenerator_Execute P gen e = createCallGenerator_Execute P gen' e"
    "staticContextGenerator_Execute P gen e = staticContextGenerator_Execute P gen' e"
    if "recursionLevel e = level" for e
    using nested that
    by (simp_all add: createCallGenerator_Execute_def staticContextGenerator_Execute_def Let_def)
  then have "same_table level (callStrategies P X gen) (callStrategies P X gen')"
    "same_table level (coverageStrategies P X gen) (coverageStrategies P X gen')"
    by (simp_all add: same_table_def callStrategies_def coverageStrategies_def
        createCallGenerator_def staticContextGenerator_def)
  then show ?thesis
    unfolding generator_strategies_def by (intro same_table_append same_table_refl)
qed

lemma cumsum_cong: "map w xs = map w ys \<Longrightarrow> cumsum w xs = cumsum w ys"
  by (simp add: cumsum_def fun_eq_iff flip: take_map)

lemma same_table_selector:
  assumes "same_table level (ss @ [fb]) (ts @ [fb])"
  shows "newSelector fb ts = map_option (\<lambda>s. s\<lparr>strats := ts @ [fb]\<rparr>) (newSelector fb ss)"
  using cumsum_cong [OF same_table_weights [OF assms]] list_all2_lengthD assms
  by (fastforce simp: newSelector_eq same_table_def)

lemma same_table_Select:
  assumes "same_table level (strats s) ts"
  shows "(\<exists>f'. Select s f = None \<and> Select (s\<lparr>strats := ts\<rparr>) f = None) \<or>
    (\<exists>st tt f'. Select s f = Some (st, f') \<and> Select (s\<lparr>strats := ts\<rparr>) f = Some (tt, f') \<and>
      (\<forall>e. recursionLevel e = level \<longrightarrow> Execute st e = Execute tt e))"
proof (cases "Uint16 f")
  case (Some r)
  obtain u f' where u: "Uint16 f = Some (u, f')" using Some by (cases r) auto
  define i where "i = Search (length (cum s)) (\<lambda>i. cum s ! i > uint u mod total s)"
  have "length (strats s) = length ts"
    using assms by (simp add: same_table_def list_all2_lengthD)
  moreover have "\<forall>e. recursionLevel e = level \<longrightarrow> Execute (strats s ! i) e = Execute (ts ! i) e"
    if "i < length (strats s)"
    using assms that by (simp add: same_table_def list_all2_conv_all_nth)
  ultimately show ?thesis
    by (cases "total s = 0"; cases "i < length (strats s)")
      (simp_all add: Select_def u index_def Let_def i_def [symmetric])
qed (simp add: Select_def)

lemma generateCode_loop_cong:
  assumes pre: "program_laws P" "lib_laws X"
    "level < maxRecursionLevel \<longrightarrow> gen_ok gen (level + 1)"
    and sel: "selector_ok sel" "strats sel = generator_strategies P X gen @ [validOpcodeGenerator P X]"
    and same: "same_table level (strats sel) ts"
  shows "env_ok P e \<Longrightarrow> recursionLevel e = level \<Longrightarrow>
    generateCode_loop P sel n prev e = generateCode_loop P (sel\<lparr>strats := ts\<rparr>) n prev e"
proof (induction n arbitrary: e prev)
  case (Suc n)
  obtain st e1 where e1: "liftF (Select sel) e = Some (st, e1)" "env_ok P e1" "env_le P e e1"
    "st \<in> set (generator_strategies P X gen @ [validOpcodeGenerator P X])"
    using keptv_Select [OF sel(1), of P e] Suc.prems(1) sel(2)
    by (auto simp: keptv_def returns_iff)
  have lvl: "recursionLevel e1 = level" using e1(3) Suc.prems(2) by (simp add: env_le_def)
  obtain tt where tt: "liftF (Select (sel\<lparr>strats := ts\<rparr>)) e = Some (tt, e1)"
    "Execute st e1 = Execute tt e1"
    using same_table_Select [OF same, of "env_f e"] e1(1) lvl by (auto simp: liftF_def)
  have "kept P e1 (Execute st e1)"
    using pre e1(4) lvl by (intro generator_strategies_kept) (auto simp: nests_def)
  then obtain e2 where e2: "Execute st e1 = Some e2" "env_ok P e2" "env_le P e1 e2"
    using e1(2) by (auto simp: kept_def returns_iff)
  have "env_ok P (e2\<lparr>budget := b\<rparr>)" "recursionLevel (e2\<lparr>budget := b\<rparr>) = level" for b
    using e2 lvl by (simp_all add: env_ok_def env_le_def)
  then show ?case
    using Suc.IH
    by (cases "budget e"; cases "budget e2")
      (simp_all add: e1(1) tt(1) e2(1) Let_def flip: tt(2))
qed simp

lemma generateCode_body_cong:
  assumes "program_laws P" and "lib_laws X"
    and "level < maxRecursionLevel \<longrightarrow> gen_ok gen (level + 1)" and "filler_ok f"
    and "level < maxRecursionLevel \<longrightarrow> 
    (\<forall>f b. filler_ok f \<longrightarrow> gen f (level + 1) b = gen' f (level + 1) b)"
  shows "generateCode_body P X gen f level bud = generateCode_body P X gen' f level bud"
proof -
  obtain sel where sel: "strategies P X gen = Some sel"
    by (simp add: strategies_def newSelector_eq)
  then have sel_ok: "selector_ok sel"
    "strats sel = generator_strategies P X gen @ [validOpcodeGenerator P X]"
    using newSelector_ok unfolding strategies_def by auto
  define ts where "ts = generator_strategies P X gen' @ [validOpcodeGenerator P X]"
  have same: "same_table level (strats sel) ts"
    unfolding sel_ok(2) ts_def using assms(5) by (rule same_table_generator)
  then have sel': "strategies P X gen' = Some (sel\<lparr>strats := ts\<rparr>)"
    using same_table_selector [of level "generator_strategies P X gen" "validOpcodeGenerator P X"
        "generator_strategies P X gen'"] sel sel_ok(2)
    by (simp add: strategies_def ts_def)
  define b where "b = (case bud of None \<Rightarrow> maxTotalBytes | Some b \<Rightarrow> b)"
  define e0 where "e0 = \<lparr>env_f = f, env_p = New P, recursionLevel = level, labels = [],
    stackHeight = 0, budget = Some b\<rparr>"
  have "env_ok P e0" using assms(4) by (simp add: e0_def env_ok_def labels_ok_def)
  then obtain counter e where e: "liftF Byte e0 = Some (counter, e)" "env_ok P e" "env_le P e0 e"
    using keptv_liftF_reads(1) [of P e0] by (auto simp: keptv_def returns_iff)
  then have "recursionLevel e = level" by (simp add: env_le_def e0_def)
  note loop = generateCode_loop_cong [OF assms(1-3) sel_ok same e(2) this]
  show ?thesis
    unfolding generateCode_body_def b_def [symmetric] Let_def sel sel'
    by (simp add: e0_def [symmetric] e(1) loop)
qed

lemma generateCode_fuel_enough:
  assumes "program_laws P" and "lib_laws X"
  shows "levels_left level < n \<Longrightarrow> levels_left level < m \<Longrightarrow> filler_ok f \<Longrightarrow>
    generateCode_fuel P X n f level bud = generateCode_fuel P X m f level bud"
proof (induction n arbitrary: m level f bud)
  case (Suc n)
  then obtain m' where m: "m = Suc m'" by (cases m) auto
  have "gen_ok (generateCode_fuel P X n) (level + 1)" if "level < maxRecursionLevel"
    using generateCode_fuel_returns [OF assms] Suc.prems(1) levels_left_Suc [OF that]
    by (intro gen_okI) simp
  moreover have "generateCode_fuel P X n f (level + 1) b = generateCode_fuel P X m' f (level + 1) b"
    if "level < maxRecursionLevel" "filler_ok f" for f b
    using Suc.IH [of "level + 1" m' f b] Suc.prems(1,2) levels_left_Suc [OF that(1)] that(2) m by simp
  ultimately show ?case
    unfolding m generateCode_fuel.simps
    by (intro generateCode_body_cong assms Suc.prems(3)) auto
qed simp

subsection \<open>Properties\<close>

text \<open>C1. \<open>generateCode\<close> always returns: no strategy panics, no recursion is too deep, whatever bytes
  the filler holds and at every recursion level; it only reads on in the filler. What it and all its
  nested generations emit is accounted for: the code and the budget left together do not exceed the
  budget given.\<close>

theorem generateCode_returns_within_budget:
  assumes "program_laws P" and "lib_laws X" and "filler_ok f"
  shows "\<exists>code f' b'. generateCode P X f level (Some b) = Some (code, f', Some b') \<and>
    filler_ok f' \<and> data f' = data f \<and> b' + int (length code) \<le> b"
  using generateCode_fuel_returns [OF assms(1,2) lessI assms(3), of level "Some b"]
  by (auto simp: generateCode_def generates_def returns_iff simp del: generateCode_fuel.simps
      split: option.splits)

theorem generateCode_returns_within_budget_witness:
  "\<exists>code f' b'. generateCode sample_program sample_lib (NewFiller [9, 1, 4]) 0 (Some 300) =
    Some (code, f', Some b') \<and> b' + int (length code) \<le> 300"
  using generateCode_returns_within_budget [OF sample_program_laws sample_lib_laws filler_ok_NewFiller,
      of "[9, 1, 4]" 0 300] by blast

text \<open>The fuel of the model does not matter: any number of levels above those left gives the
  same result.\<close>

theorem generateCode_fuel_irrelevant:
  assumes "program_laws P" and "lib_laws X" and "filler_ok f" and "maxRecursionLevel - level < int n"
    and "0 < n"
  shows "generateCode_fuel P X n f level bud = generateCode P X f level bud"
proof -
  have "levels_left level < n" using assms(4,5) by (simp add: levels_left_def nat_less_iff)
  then show ?thesis
    unfolding generateCode_def using generateCode_fuel_enough [OF assms(1,2)] assms(3) by blast
qed

theorem generateCode_fuel_irrelevant_witness:
  "generateCode_fuel sample_program sample_lib 40 (NewFiller [9, 1, 4]) 0 None =
    generateCode sample_program sample_lib (NewFiller [9, 1, 4]) 0 None"
  using generateCode_fuel_irrelevant [OF sample_program_laws sample_lib_laws filler_ok_NewFiller,
      of 0 40 "[9, 1, 4]" None]
  by (simp add: maxRecursionLevel_def)

text \<open>\<open>generateCode\<close> satisfies the recursion of the source: it is its body with the nested
  strategies calling \<open>generateCode\<close> itself.\<close>

theorem generateCode_recursion:
  assumes "program_laws P" and "lib_laws X" and "filler_ok f"
  shows "generateCode P X f level bud = generateCode_body P X (generateCode P X) f level bud"
proof -
  define n where "n = levels_left level"
  have "gen_ok (generateCode_fuel P X n) (level + 1)" if "level < maxRecursionLevel"
    using generateCode_fuel_returns [OF assms(1,2)] levels_left_Suc [OF that]
    by (intro gen_okI) (simp add: n_def del: generateCode_fuel.simps)
  moreover have "generateCode_fuel P X n g (level + 1) b = generateCode P X g (level + 1) b"
    if "level < maxRecursionLevel" for g b
    using levels_left_Suc [OF that] by (simp add: n_def generateCode_def del: generateCode_fuel.simps)
  ultimately have "generateCode_body P X (generateCode_fuel P X n) f level bud =
      generateCode_body P X (generateCode P X) f level bud"
    by (intro generateCode_body_cong assms) blast+
  then show ?thesis by (simp add: generateCode_def n_def)
qed

theorem generateCode_recursion_witness:
  "generateCode sample_program sample_lib (NewFiller [9, 1, 4]) 3 (Some 50) =
    generateCode_body sample_program sample_lib (generateCode sample_program sample_lib)
      (NewFiller [9, 1, 4]) 3 (Some 50)"
  using generateCode_recursion [OF sample_program_laws sample_lib_laws filler_ok_NewFiller] by blast

text \<open>C3. Every strategy of the table, run on an environment that satisfies the invariant, returns and
  keeps it: it only reads on, appends code, adds labels that point at JUMPDEST bytes and spends budget.\<close>

theorem every_strategy_is_safe:
  assumes "program_laws P" and "lib_laws X" and "env_ok P e"
    and "st \<in> set (generator_strategies P X (generateCode P X) @ [validOpcodeGenerator P X])"
  shows "\<exists>e'. Execute st e = Some e' \<and> env_ok P e' \<and> env_le P e e'"
proof -
  have "nests (generateCode P X) e"
    unfolding nests_def
    using generateCode_fuel_returns [OF assms(1,2) lessI]
    by (auto intro!: gen_okI simp: generateCode_def simp del: generateCode_fuel.simps)
  from generator_strategies_kept [OF assms(1,2) this assms(4)] assms(3) show ?thesis
    by (auto simp: kept_def returns_iff)
qed

theorem every_strategy_is_safe_witness:
  "\<exists>e'. Execute (createCallGenerator sample_program (generateCode sample_program sample_lib))
      (sample_env [0, 5, 3, 200, 77] (Some 100)) = Some e' \<and> env_ok sample_program e'"
proof -
  have "createCallGenerator sample_program (generateCode sample_program sample_lib) \<in>
      set (generator_strategies sample_program sample_lib (generateCode sample_program sample_lib) @
        [validOpcodeGenerator sample_program sample_lib])"
    by (simp add: generator_strategies_def callStrategies_def)
  from every_strategy_is_safe [OF sample_program_laws sample_lib_laws sample_env_ok this]
  show ?thesis by blast
qed

lemma table_weights:
  "map selector_weight (generator_strategies P X gen @ [validOpcodeGenerator P X]) =
    [10, 1, 3, 3, 3, 1, 1, 4, 2, 1, 1, 1, 1, 4, 5, 4, 8, 5, 7, 5, 4, 12, 6,
     3, 2, 2, 2, 1, 2, 2, 2, 1, 1, 1, 17]"
  by (simp add: generator_strategies_def basicStrategies_def callStrategies_def jumpStrategies_def
      stackStrategies_def coverageStrategies_def selector_weight_def fallbackWeight_def
      opcodeGenerator_def memStorageGenerator_def mstoreGenerator_def sstoreGenerator_def
      tstoreGenerator_def returnDataGenerator_def returnGenerator_def pushGenerator_def
      hashAndStoreGenerator_def mloadGenerator_def sloadGenerator_def tloadGenerator_def
      blobhashGenerator_def createCallRNGGenerator_def createCallGenerator_def
      randomCallGenerator_def callPrecompileGenerator_def jumpdestGenerator_def jumpGenerator_def
      labelJumpGenerator_def boundedLoopGenerator_def stackAwareGenerator_def
      arithEdgeGenerator_def staticContextGenerator_def warmColdGenerator_def
      sstoreWalkGenerator_def valueCallGenerator_def deepCallGenerator_def
      returnDataCopyGenerator_def mcopyGenerator_def logGenerator_def selfdestructGenerator_def
      invalidJumpGenerator_def stackFillGenerator_def validOpcodeGenerator_def)

text \<open>The table of the generator is never a panic, its weights sum to 128, and every one of its
  35 entries is drawn for some input.\<close>

theorem every_strategy_is_reachable:
  "\<exists>sel. strategies P X gen = Some sel \<and> total sel = 128 \<and> length (strats sel) = 35 \<and>
    (\<forall>k < 35. \<exists>d. Select sel (NewFiller d) = Some (strats sel ! k, advance 2 (NewFiller d)))"
proof -
  define ss where "ss = generator_strategies P X gen @ [validOpcodeGenerator P X]"
  obtain sel where sel: "strategies P X gen = Some sel" "selector_ok sel" "strats sel = ss"
    using newSelector_ok newSelector_eq unfolding strategies_def ss_def by blast
  note w = table_weights [of P X gen, folded ss_def]
  have len: "length ss = 35" using arg_cong [OF w, of length] by simp
  have sum: "cumsum selector_weight ss 35 = 128" using w by (simp add: cumsum_def len)
  then have total: "total sel = 128" using sel(2,3) len by (simp add: selector_ok_def)
  have "\<exists>d. Select sel (NewFiller d) = Some (ss ! k, advance 2 (NewFiller d))" if k: "k < 35" for k
  proof -
    define r where "r = cumsum selector_weight ss k"
    have pos: "0 < selector_weight (ss ! k)" by (rule selector_table.weight_pos)
    have next_: "r < cumsum selector_weight ss (Suc k)"
      using k pos len by (simp add: r_def cumsum_Suc)
    moreover have "cumsum selector_weight ss (Suc k) \<le> 128"
      using selector_table.cumsum_mono [of "Suc k" 35 ss] k sum by simp
    moreover have "0 \<le> r" by (simp add: r_def selector_table.cumsum_nonneg)
    ultimately have r: "0 \<le> r" "r < 128" by simp_all
    have "draw_index sel r = k"
      using selector_table.search_eq_iff [of r ss k] r next_ k sum len
      by (simp add: draw_index_eq [OF sel(2)] sel(3)) (simp add: r_def)
    moreover define d where "d = [0, word_of_int r :: byte]"
    have "uint (word_of_int r :: byte) = r" using r by (simp add: uint_word_of_int)
    then have "int (be_val (upcoming 2 (NewFiller d))) = r"
      by (simp add: d_def upcoming_def tape_def NewFiller_def be_val_def numeral_2_eq_2)
    ultimately show ?thesis
      using Select_spec [OF sel(2) filler_ok_NewFiller [of d]] r
      by (auto simp: total sel(3))
  qed
  with sel(1,3) total len show ?thesis by auto
qed

theorem every_strategy_is_reachable_witness:
  "\<exists>sel d. strategies sample_program sample_lib (generateCode sample_program sample_lib) = Some sel \<and>
    Select sel (NewFiller d) = Some (strats sel ! 34, advance 2 (NewFiller d))"
  using every_strategy_is_reachable [of sample_program sample_lib "generateCode sample_program sample_lib"]
  by fastforce

lemma GenerateProgram_ok:
  assumes "program_laws P" and "lib_laws X" and "filler_ok f"
  shows "\<exists>gst code f'. GenerateProgram P X f = Some ((gst, code), f') \<and> filler_ok f'"
proof -
  obtain code f1 b where gen: "generateCode P X f 0 (Some maxTotalBytes) = Some (code, f1, b)" "filler_ok f1"
    using generateCode_fuel_returns [OF assms(1,2) lessI assms(3), of 0 "Some maxTotalBytes"]
    by (auto simp: generateCode_def generates_def returns_iff simp del: generateCode_fuel.simps)
  from CreateGstMaker_spec [OF assms(2) gen(2), of code] gen(2) show ?thesis
    by (auto simp: GenerateProgram_def gen(1))
qed

lemma GenerateProgram_Some:
  "program_laws P \<Longrightarrow> lib_laws X \<Longrightarrow> \<exists>gst code f. GenerateProgram P X (NewFiller inp) = Some ((gst, code), f)"
  using GenerateProgram_ok [OF _ _ filler_ok_NewFiller] by blast

text \<open>C2. Generating a whole test never fails: every input gives a test for the Amsterdam fork whose called
  account holds the generated program, with a transaction to that account that has one gas limit in
  range, a 4-byte value and 100 bytes of call data, in hexadecimal.\<close>

theorem GenerateProgram_returns:
  assumes "program_laws P" and "lib_laws X"
  shows "\<exists>gst code f tx g v d. GenerateProgram P X (NewFiller inp) = Some ((gst, code), f) \<and>
    gst_forks gst = [''Amsterdam''] \<and> map_option ga_Code (gst_pre gst (dest X)) = Some code \<and>
    gst_tx gst = Some tx \<and> tx_To tx = Address_Hex X (dest X) \<and>
    tx_GasLimit tx = [g] \<and> tx_Value tx = [v] \<and> tx_Data tx = [d] \<and>
    21000 \<le> g \<and> g \<le> MaxTxGas X \<and> length v = 10 \<and> length d = 202"
proof -
  obtain code f1 b where gen: "generateCode P X (NewFiller inp) 0 (Some maxTotalBytes) = Some (code, f1, b)"
    "filler_ok f1"
    using generateCode_fuel_returns [OF assms lessI filler_ok_NewFiller, of 0 inp "Some maxTotalBytes"]
    by (auto simp: generateCode_def generates_def returns_iff simp del: generateCode_fuel.simps)
  from CreateGstMaker_spec [OF assms(2) gen(2), of code] show ?thesis
    by (auto simp: GenerateProgram_def gen(1))
qed

theorem GenerateProgram_returns_witness:
  "\<exists>gst code f. GenerateProgram sample_program sample_lib (NewFiller [3, 200, 17]) = Some ((gst, code), f) \<and>
    map_option ga_Code (gst_pre gst (dest sample_lib)) = Some code"
  using GenerateProgram_returns [OF sample_program_laws sample_lib_laws] by blast

end
