(* ===== verification/HashTracer.thy ===== *)
theory HashTracer
  imports Prelude
begin

text \<open>
  The trace hash of the minimiser (\<open>fuzzer/hashtracer.go\<close>): the words of every executed opcode
  are folded into a 64-bit state by XOR and multiplication.  The EVM calls the hook with the
  program counter, the opcode, gas, cost, depth and the stack, whose items are four 64-bit limbs.
\<close>

unbundle bit_operations_syntax

definition maxTraceSteps :: nat where
  "maxTraceSteps = 1500000"

record hashTracer =
  hsum :: u64
  hsteps :: nat
  hoverflow :: bool

definition newHashTracer :: hashTracer where
  "newHashTracer = \<lparr>hsum = 1469598103934665603, hsteps = 0, hoverflow = False\<rparr>"

definition hashTracer_fold :: "hashTracer \<Rightarrow> u64 \<Rightarrow> hashTracer" where
  "hashTracer_fold h x = h\<lparr>hsum := (hsum h XOR x) * 1099511628211\<rparr>"

type_synonym limbs = "u64 \<times> u64 \<times> u64 \<times> u64"

record op_event =
  ev_pc :: u64
  ev_op :: byte
  ev_gas :: u64
  ev_cost :: u64
  ev_stack :: "limbs list"
  ev_depth :: int

definition OnOpcode :: "hashTracer \<Rightarrow> op_event \<Rightarrow> hashTracer" where
  "OnOpcode h e =
     (if hoverflow h then h
      else
        (let h = h\<lparr>hsteps := hsteps h + 1\<rparr>
         in if hsteps h > maxTraceSteps then h\<lparr>hoverflow := True\<rparr>
            else
              (let h = hashTracer_fold h (ev_pc e);
                   h = hashTracer_fold h (ucast (ev_op e));
                   h = hashTracer_fold h (ev_gas e);
                   h = hashTracer_fold h (ev_cost e);
                   h = hashTracer_fold h (of_int (ev_depth e))
               in foldl (\<lambda>h s.
                    case s of (s0, s1, s2, s3) \<Rightarrow>
                      (let h = hashTracer_fold h s0;
                           h = hashTracer_fold h s1;
                           h = hashTracer_fold h s2
                       in hashTracer_fold h s3)) h (ev_stack e))))"

text \<open>A probe runs the tracer over the opcodes that the EVM executes.\<close>

definition trace_run :: "op_event list \<Rightarrow> hashTracer" where
  "trace_run es = foldl OnOpcode newHashTracer es"

subsection \<open>The words of a trace\<close>

definition event_words :: "op_event \<Rightarrow> u64 list" where
  "event_words e = [ev_pc e, ucast (ev_op e), ev_gas e, ev_cost e, of_int (ev_depth e)] @
     concat (map (\<lambda>(s0, s1, s2, s3). [s0, s1, s2, s3]) (ev_stack e))"

definition mix :: "u64 \<Rightarrow> u64 \<Rightarrow> u64" where
  "mix a x = (a XOR x) * 1099511628211"

definition mixes :: "u64 \<Rightarrow> u64 list \<Rightarrow> u64" where
  "mixes a xs = foldl mix a xs"

lemma mixes_simps [simp]:
  "mixes a [] = a"
  "mixes a (x # xs) = mixes (mix a x) xs"
  "mixes a (xs @ ys) = mixes (mixes a xs) ys"
  by (simp_all add: mixes_def)

lemma hashTracer_fold_mix: "hashTracer_fold h x = h\<lparr>hsum := mix (hsum h) x\<rparr>"
  by (simp add: hashTracer_fold_def mix_def)

lemma fold_stack:
  "foldl (\<lambda>h s.
      case s of (s0, s1, s2, s3) \<Rightarrow>
        (let h = hashTracer_fold h s0;
             h = hashTracer_fold h s1;
             h = hashTracer_fold h s2
         in hashTracer_fold h s3)) h st =
   h\<lparr>hsum := mixes (hsum h) (concat (map (\<lambda>(s0, s1, s2, s3). [s0, s1, s2, s3]) st))\<rparr>"
  by (induction st arbitrary: h) (auto simp: hashTracer_fold_mix Let_def)

lemma OnOpcode_words:
  "OnOpcode h e =
    (if hoverflow h then h
     else if hsteps h \<ge> maxTraceSteps then h\<lparr>hsteps := hsteps h + 1, hoverflow := True\<rparr>
     else h\<lparr>hsteps := hsteps h + 1, hsum := mixes (hsum h) (event_words e)\<rparr>)"
  unfolding OnOpcode_def fold_stack by (simp add: Let_def hashTracer_fold_mix event_words_def)

lemma OnOpcode_overflowed: "hoverflow h \<Longrightarrow> foldl OnOpcode h es = h"
  by (induction es) (simp_all add: OnOpcode_def)

lemma OnOpcode_run:
  "\<not> hoverflow h \<Longrightarrow> hsteps h \<le> maxTraceSteps \<Longrightarrow>
    foldl OnOpcode h es =
      (let n = maxTraceSteps - hsteps h
       in if length es \<le> n
          then h\<lparr>hsteps := hsteps h + length es, hsum := mixes (hsum h) (concat (map event_words es))\<rparr>
          else h\<lparr>hsteps := maxTraceSteps + 1, hoverflow := True,
                 hsum := mixes (hsum h) (concat (map event_words (take n es)))\<rparr>)"
proof (induction es arbitrary: h)
  case (Cons e es)
  show ?case
  proof (cases "hsteps h = maxTraceSteps")
    case True
    with Cons.prems show ?thesis
      by (simp add: OnOpcode_words [of h e] OnOpcode_overflowed)
  next
    case False
    then have lt: "hsteps h < maxTraceSteps" using Cons.prems(2) by simp
    define h' where "h' = h\<lparr>hsteps := hsteps h + 1, hsum := mixes (hsum h) (event_words e)\<rparr>"
    have "OnOpcode h e = h'"
      using lt Cons.prems(1) by (simp add: OnOpcode_words [of h e] h'_def)
    moreover obtain n where n: "maxTraceSteps - hsteps h = Suc n"
      using lt by (metis Suc_diff_Suc)
    moreover from n have "maxTraceSteps - Suc (hsteps h) = n" by simp
    ultimately show ?thesis
      using Cons.IH [of h'] lt Cons.prems(1) n by (simp add: h'_def Let_def)
  qed
qed simp

lemma trace_run_words:
  "length es \<le> maxTraceSteps \<Longrightarrow>
    trace_run es = newHashTracer\<lparr>hsteps := length es,
      hsum := mixes (hsum newHashTracer) (concat (map event_words es))\<rparr>"
  "length es > maxTraceSteps \<Longrightarrow>
    trace_run es = newHashTracer\<lparr>hsteps := maxTraceSteps + 1, hoverflow := True,
      hsum := mixes (hsum newHashTracer) (concat (map event_words (take maxTraceSteps es)))\<rparr>"
  by (simp_all add: trace_run_def OnOpcode_run newHashTracer_def)

subsection \<open>One different word is never lost\<close>

lemma prime_unit: "(1099511628211 :: u64) * 14886173955864302971 = 1"
  by simp

lemma prime_cancel: "(a :: u64) * 1099511628211 = b * 1099511628211 \<Longrightarrow> a = b"
proof -
  assume "a * 1099511628211 = b * 1099511628211"
  then have "a * (1099511628211 * 14886173955864302971) = b * (1099511628211 * 14886173955864302971)"
    by (simp only: mult.assoc [symmetric])
  then show "a = b"
    by (simp only: prime_unit mult.right_neutral)
qed

lemma mix_cancel: "mix a x = mix b y \<Longrightarrow> a XOR x = b XOR y"
  unfolding mix_def by (rule prime_cancel)

lemma mix_inj: "mix a x = mix b x \<Longrightarrow> a = b" "mix a x = mix a y \<Longrightarrow> x = y"
  by (drule mix_cancel, simp add: bit_eq_iff bit_xor_iff, blast)+

lemma mixes_inj: "mixes a xs = mixes b xs \<Longrightarrow> a = b"
  by (induction xs arbitrary: a b) (auto dest: mix_inj(1))

lemma mixes_inj_iff: "mixes a xs = mixes b xs \<longleftrightarrow> a = b"
  by (auto dest: mixes_inj)

lemma mix_inj_iff: "mix a x = mix b x \<longleftrightarrow> a = b" "mix a x = mix a y \<longleftrightarrow> x = y"
  by (auto dest: mix_inj)

lemma mixes_one_word: "x \<noteq> y \<Longrightarrow> mixes a (xs @ x # ys) \<noteq> mixes a (xs @ y # ys)"
  by (auto dest: mixes_inj mix_inj(2))

text \<open>C29. The trace hash of a run of at most \<open>maxTraceSteps\<close> opcodes does not overflow, a longer
  run does, and two runs of the same length that agree in every word but one (a different program
  counter, opcode, gas, cost, depth or limb of a stack item, at any one place) never have the same
  hash: every step of the fold is injective in the state and in the word, modulo \<open>2\<^sup>6\<^sup>4\<close>.\<close>

theorem one_word_differs:
  assumes "es = ps @ e # qs" and "es' = ps @ e' # qs" and "length es \<le> maxTraceSteps"
    and "event_words e = us @ x # vs" and "event_words e' = us @ y # vs" and "x \<noteq> y"
  shows "\<not> hoverflow (trace_run es) \<and> \<not> hoverflow (trace_run es') \<and>
    hsum (trace_run es) \<noteq> hsum (trace_run es') \<and>
    (length zs > maxTraceSteps \<longrightarrow> hoverflow (trace_run zs))"
proof -
  have "length es' \<le> maxTraceSteps" using assms(1-3) by simp
  then show ?thesis
    using assms(3-) mixes_one_word [OF assms(6)]
    by (simp add: trace_run_words newHashTracer_def assms(1,2) mixes_inj_iff mix_inj_iff)
qed

lemma one_word_differs_witness:
  "let e = \<lparr>ev_pc = 0, ev_op = 0x60, ev_gas = 100, ev_cost = 3, ev_stack = [(7, 0, 0, 0)], ev_depth = 1\<rparr>;
       e' = e\<lparr>ev_stack := [(8, 0, 0, 0)]\<rparr>
   in hsum (trace_run [e, e]) \<noteq> hsum (trace_run [e', e])"
  using one_word_differs
    [of "[\<lparr>ev_pc = 0, ev_op = 0x60, ev_gas = 100, ev_cost = 3, ev_stack = [(7, 0, 0, 0)], ev_depth = 1\<rparr>,
          \<lparr>ev_pc = 0, ev_op = 0x60, ev_gas = 100, ev_cost = 3, ev_stack = [(7, 0, 0, 0)], ev_depth = 1\<rparr>]" "[]"
        "\<lparr>ev_pc = 0, ev_op = 0x60, ev_gas = 100, ev_cost = 3, ev_stack = [(7, 0, 0, 0)], ev_depth = 1\<rparr>"
        "[\<lparr>ev_pc = 0, ev_op = 0x60, ev_gas = 100, ev_cost = 3, ev_stack = [(7, 0, 0, 0)], ev_depth = 1\<rparr>]" _
        "\<lparr>ev_pc = 0, ev_op = 0x60, ev_gas = 100, ev_cost = 3, ev_stack = [(8, 0, 0, 0)], ev_depth = 1\<rparr>"
        "[0, 0x60, 100, 3, 1]" 7 "[0, 0, 0]" 8 "[]"]
  by (simp add: event_words_def maxTraceSteps_def Let_def)

end
