(* ===== verification/Minimizer.thy ===== *)
theory Minimizer
  imports Program_API HashTracer
begin

text \<open>
  The capped trace buffer and the minimiser (\<open>cappedBuffer\<close> and \<open>MinimizeProgram\<close> of
  \<open>fuzzer/fuzzer.go\<close>).  The test object of goevmlab and the EVM behind it are parameters: what
  \<open>Fill\<close> writes, the accounts of the state test, and the opcodes that a run traces.
\<close>

subsection \<open>The capped buffer\<close>

definition maxTraceSize :: nat where "maxTraceSize = 32 * 1024 * 1024"
definition traceSizeMargin :: nat where "traceSizeMargin = 1024"
definition minMinimizeSize :: nat where "minMinimizeSize = 256"

record cappedBuffer =
  cb_buf :: "byte list"
  cb_overflow :: bool

definition cappedBuffer_Write :: "cappedBuffer \<Rightarrow> byte list \<Rightarrow> nat \<times> cappedBuffer" where
  "cappedBuffer_Write c p =
     (if cb_overflow c \<or> length (cb_buf c) + length p > maxTraceSize - traceSizeMargin
      then (length p, c\<lparr>cb_overflow := True\<rparr>)
      else (length p, c\<lparr>cb_buf := cb_buf c @ p\<rparr>))"

definition write_all :: "cappedBuffer \<Rightarrow> byte list list \<Rightarrow> cappedBuffer" where
  "write_all c ps = foldl (\<lambda>c p. snd (cappedBuffer_Write c p)) c ps"

lemma write_all_overflowed: "cb_overflow c \<Longrightarrow> write_all c ps = c"
proof (induction ps)
  case (Cons p ps)
  then have "snd (cappedBuffer_Write c p) = c"
    by (cases c) (simp add: cappedBuffer_Write_def)
  with Cons show ?case by (simp add: write_all_def)
qed (simp add: write_all_def)

lemma write_all_spec:
  "\<not> cb_overflow c \<Longrightarrow> length (cb_buf c) \<le> maxTraceSize - traceSizeMargin \<Longrightarrow>
    (cb_overflow (write_all c ps) \<longleftrightarrow>
       length (cb_buf c) + length (concat ps) > maxTraceSize - traceSizeMargin) \<and>
    (\<not> cb_overflow (write_all c ps) \<longrightarrow> cb_buf (write_all c ps) = cb_buf c @ concat ps) \<and>
    prefix (cb_buf (write_all c ps)) (cb_buf c @ concat ps) \<and>
    length (cb_buf (write_all c ps)) \<le> maxTraceSize - traceSizeMargin"
proof (induction ps arbitrary: c)
  case (Cons p ps)
  show ?case
  proof (cases "length (cb_buf c) + length p > maxTraceSize - traceSizeMargin")
    case True
    then have "write_all c (p # ps) = c\<lparr>cb_overflow := True\<rparr>"
      using write_all_overflowed [of "c\<lparr>cb_overflow := True\<rparr>" ps]
      by (simp add: write_all_def cappedBuffer_Write_def)
    with True Cons.prems show ?thesis by simp
  next
    case False
    then have "write_all c (p # ps) = write_all (c\<lparr>cb_buf := cb_buf c @ p\<rparr>) ps"
      using Cons.prems(1) by (simp add: write_all_def cappedBuffer_Write_def)
    with False Cons.prems Cons.IH [of "c\<lparr>cb_buf := cb_buf c @ p\<rparr>"] show ?thesis by (simp add: add.assoc)
  qed
qed (simp add: write_all_def)

subsection \<open>The minimiser\<close>

record account =
  Code :: "byte list"

type_synonym pre = "(address \<times> account) list"

text \<open>
  The test object: what \<open>Fill\<close> writes under a limit and its error, the accounts of the state test
  in the order in which the map is iterated, the opcodes traced by a run of the test on given
  accounts, \<open>SetCode\<close>, and the JSON encoding of the named state test (\<open>None\<close> is an error).
\<close>

record ('g, 'e) goevmlab =
  Fill :: "'g \<Rightarrow> nat \<Rightarrow> byte list list \<times> 'e option"
  Pre :: "'g \<Rightarrow> pre"
  RunNoVerify :: "'g \<Rightarrow> pre \<Rightarrow> op_event list"
  SetCode :: "'g \<Rightarrow> address \<Rightarrow> byte list \<Rightarrow> 'g"
  json :: "'g \<Rightarrow> string \<Rightarrow> (byte list) option"
  sha3_Sum256 :: "byte list \<Rightarrow> byte list"

definition set_code :: "pre \<Rightarrow> address \<Rightarrow> byte list \<Rightarrow> pre" where
  "set_code pr addr c = map (\<lambda>(a, acc). if a = addr then (a, acc\<lparr>Code := c\<rparr>) else (a, acc)) pr"

definition longest_code :: "pre \<Rightarrow> address \<times> byte list" where
  "longest_code pr =
     foldl (\<lambda>(addr, code) (ad, acc).
       if length (Code acc) > length code then (ad, Code acc) else (addr, code))
       (replicate 20 0, []) pr"

text \<open>The closure \<open>traceHash\<close>: it overwrites the code in the map and runs the test.\<close>

definition traceHash ::
    "('g, 'e) goevmlab \<Rightarrow> 'g \<Rightarrow> address \<Rightarrow> byte list \<Rightarrow> pre \<Rightarrow> nat \<Rightarrow> ((u64 \<times> bool) \<times> pre) option" where
  "traceHash E g addr code pr n = do {
     c \<leftarrow> slice code 0 n;
     let pr = set_code pr addr c;
     let tr = trace_run (RunNoVerify E g pr);
     Some ((hsum tr, \<not> hoverflow tr), pr)
   }"

datatype 'e min_error = FillError 'e | ErrTraceTooLarge

text \<open>
  Every probe of the search overwrites the code that the one before it left (lemma
  \<open>traceHash_again\<close>), so the search is over a function of the length only.
\<close>

definition MinimizeProgram ::
    "('g, 'e) goevmlab \<Rightarrow> 'g \<Rightarrow> ('e min_error + 'g \<times> byte list) option" where
  "MinimizeProgram E test =
     (let (writes, err) = Fill E test maxTraceSize;
          original = write_all \<lparr>cb_buf = [], cb_overflow = False\<rparr> writes
      in case err of
           Some e \<Rightarrow> Some (Inl (FillError e))
         | None \<Rightarrow>
             if cb_overflow original then Some (Inl ErrTraceTooLarge)
             else
               (let (addr, code) = longest_code (Pre E test)
                in if length code < minMinimizeSize then Some (Inr (test, code))
                   else do {
                     ((orgHash, _), pr) \<leftarrow> traceHash E test addr code (Pre E test) (length code);
                     let foundLength = Search (length code)
                       (\<lambda>i. case traceHash E test addr code pr i of
                              Some ((s, ok), _) \<Rightarrow> ok \<and> s = orgHash
                            | None \<Rightarrow> False);
                     let foundLength =
                       (if foundLength + 100 < length code then foundLength + 100 else foundLength);
                     c \<leftarrow> slice code 0 foundLength;
                     Some (Inr (SetCode E test addr c, c))
                   }))"

lemma set_code_set_code: "set_code (set_code pr addr c) addr d = set_code pr addr d"
  by (induction pr) (auto simp: set_code_def)

lemma traceHash_again:
  "traceHash E g addr code (set_code pr addr c) n = traceHash E g addr code pr n"
  by (simp add: traceHash_def set_code_set_code)

lemma longest_code_fold:
  fixes addr :: address and code :: "byte list"
  shows "foldl (\<lambda>(addr, code) (ad, acc).
      if length (Code acc) > length code then (ad, Code acc) else (addr, code)) (addr, code) pr = (a, c) \<Longrightarrow>
    (a, c) \<in> insert (addr, code) ((\<lambda>(a, acc). (a, Code acc)) ` set pr) \<and>
    length code \<le> length c \<and> (\<forall>(x, acc) \<in> set pr. length (Code acc) \<le> length c)"
proof (induction pr arbitrary: addr code)
  case (Cons x pr)
  obtain ad acc where x: "x = (ad, acc)" by (cases x)
  show ?case
  proof (cases "length (Code acc) > length code")
    case True
    with Cons.prems Cons.IH [of ad "Code acc"] show ?thesis by (auto simp: x)
  next
    case False
    with Cons.prems Cons.IH [of addr code] show ?thesis by (auto simp: x)
  qed
qed simp

lemma longest_code_spec:
  assumes "longest_code pr = (addr, code)"
  shows "code = [] \<or> (addr, code) \<in> (\<lambda>(a, acc). (a, Code acc)) ` set pr"
    and "(x, acc) \<in> set pr \<Longrightarrow> length (Code acc) \<le> length code"
  using longest_code_fold [of "replicate 20 0" "[]" pr addr code] assms
  by (auto simp: longest_code_def)

text \<open>A prefix of the code that runs within the step limit and has the hash of the whole code.\<close>

definition same_trace ::
    "('g, 'e) goevmlab \<Rightarrow> 'g \<Rightarrow> address \<Rightarrow> byte list \<Rightarrow> nat \<Rightarrow> bool" where
  "same_trace E g addr code n \<longleftrightarrow>
     (let run = (\<lambda>k. trace_run (RunNoVerify E g (set_code (Pre E g) addr (take k code))))
      in \<not> hoverflow (run n) \<and> hsum (run n) = hsum (run (length code)))"

lemma MinimizeProgram_Inr:
  assumes fill: "Fill E g maxTraceSize = (writes, None)"
    and fits: "length (concat writes) \<le> maxTraceSize - traceSizeMargin"
    and code: "longest_code (Pre E g) = (addr, code)" and long: "minMinimizeSize \<le> length code"
  defines "fl \<equiv> Search (length code) (same_trace E g addr code)"
  defines "n \<equiv> (if fl + 100 < length code then fl + 100 else fl)"
  shows "MinimizeProgram E g = Some (Inr (SetCode E g addr (take n code), take n code))"
    and "n \<le> length code"
proof -
  define pr where "pr = set_code (Pre E g) addr code"
  have probe: "(case traceHash E g addr code pr i of
      Some ((s, ok), _) \<Rightarrow> ok \<and> s = hsum (trace_run (RunNoVerify E g pr)) | None \<Rightarrow> False) =
    same_trace E g addr code i" if "i < length code" for i
    using that by (simp add: pr_def traceHash_again)
      (simp add: traceHash_def same_trace_def set_code_set_code Let_def pr_def)
  have fl: "Search (length code) (\<lambda>i. case traceHash E g addr code pr i of
      Some ((s, ok), _) \<Rightarrow> ok \<and> s = hsum (trace_run (RunNoVerify E g pr)) | None \<Rightarrow> False) = fl"
    unfolding fl_def by (rule Search_cong) (rule probe)
  have le: "fl \<le> length code" unfolding fl_def by simp
  then show n: "n \<le> length code" by (simp add: n_def)
  have full: "traceHash E g addr code (Pre E g) (length code) =
    Some ((hsum (trace_run (RunNoVerify E g pr)), \<not> hoverflow (trace_run (RunNoVerify E g pr))), pr)"
    by (simp add: traceHash_def pr_def Let_def)
  have "\<not> cb_overflow (write_all \<lparr>cb_buf = [], cb_overflow = False\<rparr> writes)"
    using write_all_spec [of "\<lparr>cb_buf = [], cb_overflow = False\<rparr>" writes] fits by simp
  then show "MinimizeProgram E g = Some (Inr (SetCode E g addr (take n code), take n code))"
    using long n unfolding n_def
    by (simp add: MinimizeProgram_def fill code full Let_def fl)
qed

lemma MinimizeProgram_Some: "\<exists>r. MinimizeProgram E g = Some r"
proof -
  obtain writes err where fill: "Fill E g maxTraceSize = (writes, err)" by force
  obtain addr code where lc: "longest_code (Pre E g) = (addr, code)" by force
  show ?thesis
  proof (cases "err = None \<and> length (concat writes) \<le> maxTraceSize - traceSizeMargin \<and>
      minMinimizeSize \<le> length code")
    case True
    with fill have "Fill E g maxTraceSize = (writes, None)" by simp
    from MinimizeProgram_Inr(1) [OF this _ lc] True show ?thesis by blast
  next
    case False
    with write_all_spec [of "\<lparr>cb_buf = [], cb_overflow = False\<rparr>" writes] show ?thesis
      by (auto simp: MinimizeProgram_def fill lc split: option.splits)
  qed
qed

lemma minimal_length:
  fixes q :: "nat \<Rightarrow> bool" and N :: nat
  assumes mono: "\<forall>i j. i \<le> j \<longrightarrow> q i \<longrightarrow> q j"
  defines "fl \<equiv> Search N q"
  defines "n \<equiv> (if fl + 100 < N then fl + 100 else fl)"
  shows "n = N \<or> q n" and "q k \<Longrightarrow> n \<le> k + 100"
proof -
  have least: "j < fl \<Longrightarrow> \<not> q j" for j
    unfolding fl_def by (rule Search_least) (use mono in blast)+
  have "fl \<le> n" "n \<le> fl + 100" by (simp_all add: n_def)
  show "n = N \<or> q n"
  proof (cases "fl < N")
    case True
    then have "q fl" using Search_sat unfolding fl_def by blast
    with mono \<open>fl \<le> n\<close> show ?thesis by blast
  next
    case False
    then have "fl = N" using Search_le [of N q] by (simp add: fl_def)
    then show ?thesis by (simp add: n_def)
  qed
  show "q k \<Longrightarrow> n \<le> k + 100"
    using least [of k] \<open>n \<le> fl + 100\<close> by force
qed

text \<open>The capped trace buffer reports every write as complete, holds at most the limit less the
  margin, keeps exactly the bytes written as long as they fit, and flags the overflow exactly when
  their total does not fit; what it holds is always a prefix of what was written.\<close>

theorem cappedBuffer_bounded:
  "let c = write_all \<lparr>cb_buf = [], cb_overflow = False\<rparr> ps
   in length (cb_buf c) \<le> 33553408 \<and>
      cb_overflow c = (length (concat ps) > 33553408) \<and>
      prefix (cb_buf c) (concat ps) \<and>
      (cb_overflow c \<or> cb_buf c = concat ps) \<and>
      fst (cappedBuffer_Write c p) = length p"
  using write_all_spec [of "\<lparr>cb_buf = [], cb_overflow = False\<rparr>" ps]
  by (auto simp: Let_def maxTraceSize_def traceSizeMargin_def cappedBuffer_Write_def)


text \<open>
  A concrete test object for the witnesses: its code is read by \<open>get\<close> and set by \<open>put\<close>, and a run
  traces one opcode when the code has at least 120 bytes and nothing otherwise.
\<close>

definition sample_event :: op_event where
  "sample_event = \<lparr>ev_pc = 0, ev_op = 0x5b, ev_gas = 1, ev_cost = 1, ev_stack = [], ev_depth = 1\<rparr>"

definition sample_lab ::
    "('g \<Rightarrow> byte list) \<Rightarrow> (byte list \<Rightarrow> 'g \<Rightarrow> 'g) \<Rightarrow> ('g, string) goevmlab" where
  "sample_lab get put =
     \<lparr>Fill = (\<lambda>g n. ([[1, 2, 3]], None)),
      Pre = (\<lambda>g. [(replicate 20 0, \<lparr>Code = []\<rparr>), (replicate 20 1, \<lparr>Code = get g\<rparr>)]),
      RunNoVerify = (\<lambda>g pr. if \<exists>x \<in> set pr. length (Code (snd x)) \<ge> 120 then [sample_event] else []),
      SetCode = (\<lambda>g addr c. put c g),
      json = (\<lambda>g name. Some (get g)),
      sha3_Sum256 = (\<lambda>bs. be_bytes 32 (be_val bs))\<rparr>"

lemma sample_hash: "hsum (trace_run [sample_event]) \<noteq> hsum (trace_run [])"
  by (simp add: trace_run_def newHashTracer_def OnOpcode_words event_words_def sample_event_def
      maxTraceSteps_def mix_def)

lemma sample_same_trace:
  "length (get g) = 300 \<Longrightarrow>
    same_trace (sample_lab get put) g (replicate 20 1) (get g) n \<longleftrightarrow> 120 \<le> n"
  using sample_hash trace_run_words(1) [of "[]"] trace_run_words(1) [of "[sample_event]"]
  by (auto simp: same_trace_def sample_lab_def set_code_def Let_def min_def maxTraceSteps_def newHashTracer_def)


end
