(* ===== verification/Fuzzer.thy ===== *)
theory Fuzzer
  imports Generator Minimizer
begin

text \<open>
  The entry points of the fuzzer and the store of test cases (\<open>Fuzz\<close>, \<open>FuzzStateless\<close>, \<open>storeTest\<close>,
  \<open>setupTrace\<close> and \<open>hash\<close> of \<open>fuzzer/fuzzer.go\<close>).  The operating system is a parameter over a
  state of its own: \<open>os_laws\<close> states what its calls do to the files.  Messages printed to the
  console are left out.
\<close>

datatype 'e stat = Exists | NotExist | StatErr 'e

record ('w, 'e) os =
  os_Stat :: "'w \<Rightarrow> string \<Rightarrow> 'e stat"
  os_OpenFile :: "'w \<Rightarrow> string \<Rightarrow> 'e option \<times> 'w"
  os_Write :: "'w \<Rightarrow> string \<Rightarrow> byte list \<Rightarrow> 'e option \<times> 'w"

datatype 'e store_error = StatFailed 'e | OpenFailed 'e | EncodeFailed | WriteFailed 'e

definition setupTrace :: "('w, 'e) os \<Rightarrow> string \<Rightarrow> string \<Rightarrow> 'w \<Rightarrow> (string \<times> 'w) option" where
  "setupTrace S outputDir name w =
     (let path = outputDir @ ''/'' @ name @ ''-trace.jsonl''
      in case os_OpenFile S w path of
           (Some e, w) \<Rightarrow> None
         | (None, w) \<Rightarrow> Some (path, w))"

text \<open>The state test to store is given by its JSON encoding.\<close>

definition test_path :: "string \<Rightarrow> byte \<Rightarrow> string \<Rightarrow> string" where
  "test_path outputDir h testName = outputDir @ ''/'' @ hex_digits [h] @ ''/'' @ testName @ ''.json''"

definition storeTest ::
    "('w, 'e) os \<Rightarrow> string \<Rightarrow> byte list option \<Rightarrow> byte list \<Rightarrow> string \<Rightarrow> 'w \<Rightarrow>
      ((bool \<times> 'e store_error option) \<times> 'w) option" where
  "storeTest S outputDir test hashed testName w = do {
     h \<leftarrow> index hashed 0;
     let path = test_path outputDir h testName;
     case os_Stat S w path of
       Exists \<Rightarrow> Some ((True, None), w)
     | StatErr e \<Rightarrow> Some ((False, Some (StatFailed e)), w)
     | NotExist \<Rightarrow>
         (case os_OpenFile S w path of
            (Some e, w) \<Rightarrow> Some ((False, Some (OpenFailed e)), w)
          | (None, w) \<Rightarrow>
              (case test of
                 None \<Rightarrow> Some ((False, Some EncodeFailed), w)
               | Some bs \<Rightarrow>
                   (case os_Write S w path bs of
                      (Some e, w) \<Rightarrow> Some ((False, Some (WriteFailed e)), w)
                    | (None, w) \<Rightarrow> Some ((False, None), w))))
   }"

definition hash_test :: "('g, 'e) goevmlab \<Rightarrow> 'g \<Rightarrow> string \<Rightarrow> byte list option" where
  "hash_test E g name =
     (case json E g name of
        None \<Rightarrow> None
      | Some bs \<Rightarrow> Some (sha3_Sum256 E bs))"

definition FuzzStateless :: "'p program_api \<Rightarrow> lib \<Rightarrow> byte list \<Rightarrow> int option" where
  "FuzzStateless P X d =
     (if length d < 32 then Some (- 1)
      else do {
        let f = NewFiller d;
        (_, f) \<leftarrow> GenerateProgram P X f;
        Some 0
      })"

text \<open>The end of \<open>Fuzz\<close>, from the test to keep.\<close>

definition Fuzz_keep ::
    "lib \<Rightarrow> (gst, 'e) goevmlab \<Rightarrow> ('w, 'e) os \<Rightarrow> string \<Rightarrow> bool \<Rightarrow> gst \<Rightarrow> filler \<Rightarrow> 'w \<Rightarrow> (int \<times> 'w) option" where
  "Fuzz_keep X E S outputDir shouldTrace testMaker f w = do {
     hashed \<leftarrow> hash_test E testMaker ''hashName'';
     let finalName = ''FuzzyVM-'' @ Bytes2Hex X hashed;
     (failed, w) \<leftarrow>
       (if shouldTrace then do {
          (trace, w) \<leftarrow> setupTrace S outputDir finalName w;
          let (writes, err) = Fill E testMaker maxTraceSize;
          let (_, w) = os_Write S w trace (concat writes);
          Some (err \<noteq> None, w)
        } else Some (False, w));
     if failed then Some (0, w)
     else do {
       let test = json E testMaker finalName;
       ((dup, err), w) \<leftarrow> storeTest S outputDir test hashed finalName w;
       if err \<noteq> None then Some (0, w)
       else if dup then Some (0, w)
       else if UsedUp f then Some (0, w)
       else Some (1, w)
     }
   }"

definition Fuzz ::
    "'p program_api \<Rightarrow> lib \<Rightarrow> (gst, 'e) goevmlab \<Rightarrow> ('w, 'e) os \<Rightarrow> string \<Rightarrow> bool \<Rightarrow> byte list \<Rightarrow> 'w \<Rightarrow>
      (int \<times> 'w) option" where
  "Fuzz P X E S outputDir shouldTrace d w =
     (if length d < 32 then Some (- 1, w)
      else do {
        let f = NewFiller d;
        ((testMaker, _), f) \<leftarrow> GenerateProgram P X f;
        r \<leftarrow> MinimizeProgram E testMaker;
        case r of
          Inr (minimized, _) \<Rightarrow> Fuzz_keep X E S outputDir shouldTrace minimized f w
        | Inl ErrTraceTooLarge \<Rightarrow> Fuzz_keep X E S outputDir shouldTrace testMaker f w
        | Inl (FillError e) \<Rightarrow> Some (0, w)
      })"

subsection \<open>What the calls outside the repository promise\<close>

definition lab_laws :: "('g, 'e) goevmlab \<Rightarrow> bool" where
  "lab_laws E \<longleftrightarrow> (\<forall>g name. json E g name \<noteq> None) \<and> (\<forall>bs. length (sha3_Sum256 E bs) = 32)"

text \<open>A file is its contents; a call that fails may have emptied or half-written the file it is about.\<close>

definition os_laws :: "('w, 'e) os \<Rightarrow> ('w \<Rightarrow> string \<Rightarrow> byte list option) \<Rightarrow> bool" where
  "os_laws S Files \<longleftrightarrow>
     (\<forall>w p. os_Stat S w p = NotExist \<longrightarrow> Files w p = None) \<and>
     (\<forall>w p q. q \<noteq> p \<longrightarrow> Files (snd (os_OpenFile S w p)) q = Files w q) \<and>
     (\<forall>w p bs q. q \<noteq> p \<longrightarrow> Files (snd (os_Write S w p bs)) q = Files w q) \<and>
     (\<forall>w p bs. fst (os_Write S w p bs) = None \<longrightarrow> Files (snd (os_Write S w p bs)) p = Some bs)"

text \<open>A new file at a path that was free, everything else as it was.\<close>

lemma storeTest_spec:
  assumes os: "os_laws S Files" and "hashed \<noteq> []" and p: "p = test_path dir (hd hashed) name"
  shows "returns (storeTest S dir test hashed name w) (\<lambda>((dup, err), w').
    (\<forall>q. q \<noteq> p \<longrightarrow> Files w' q = Files w q) \<and>
    (Files w p \<noteq> None \<longrightarrow> Files w' p = Files w p) \<and>
    (err = None \<and> \<not> dup \<longrightarrow> Files w p = None \<and> Files w' p = test) \<and>
    (dup \<longrightarrow> os_Stat S w p = Exists \<and> w' = w))"
proof -
  have h: "index hashed 0 = Some (hd hashed)"
    using assms(2) by (simp add: hd_conv_nth)
  obtain e1 w1 where o: "os_OpenFile S w p = (e1, w1)" by force
  obtain e2 w2 where r: "os_Write S w1 p (the test) = (e2, w2)" by force
  have stat: "os_Stat S w p = NotExist \<Longrightarrow> Files w p = None"
    and w1: "\<forall>q. q \<noteq> p \<longrightarrow> Files w1 q = Files w q"
    using os o unfolding os_laws_def by (blast, metis snd_conv)
  have w2: "\<forall>q. q \<noteq> p \<longrightarrow> Files w2 q = Files w1 q"
    and bs: "e2 = None \<Longrightarrow> Files w2 p = Some (the test)"
    using os r unfolding os_laws_def by (metis snd_conv, metis fst_conv snd_conv)
  show ?thesis
  proof (cases "os_Stat S w p")
    case NotExist
    with stat w1 w2 bs show ?thesis
      by (cases e1; cases test; cases e2) (use o r in \<open>simp_all add: storeTest_def h Let_def flip: p\<close>)
  qed (simp_all add: storeTest_def h Let_def flip: p)
qed

text \<open>Where a test belongs and what is stored there: its name is the hash of its encoding.\<close>

definition test_file ::
    "lib \<Rightarrow> (gst, 'e) goevmlab \<Rightarrow> string \<Rightarrow> gst \<Rightarrow> string \<times> byte list option" where
  "test_file X E dir m =
     (let h = sha3_Sum256 E (the (json E m ''hashName''));
          name = ''FuzzyVM-'' @ Bytes2Hex X h
      in (test_path dir (hd h) name, json E m name))"

lemma Fuzz_keep_spec:
  assumes lab: "lab_laws E" and os: "os_laws S Files"
    and tf: "test_file X E dir m = (p, j)"
  shows "returns (Fuzz_keep X E S dir False m f w) (\<lambda>(r, w').
    (r = 0 \<or> r = 1) \<and>
    (\<forall>q. q \<noteq> p \<or> Files w q \<noteq> None \<longrightarrow> Files w' q = Files w q) \<and>
    (r = 1 \<longrightarrow> Files w p = None \<and> Files w' p = j \<and> \<not> UsedUp f))"
proof -
  obtain k where k: "json E m ''hashName'' = Some k"
    using lab unfolding lab_laws_def by blast
  define h where "h = sha3_Sum256 E k"
  have "length h = 32" using lab by (simp add: lab_laws_def h_def)
  then have "h \<noteq> []" by auto
  have p: "p = test_path dir (hd h) (''FuzzyVM-'' @ Bytes2Hex X h)"
    and j: "j = json E m (''FuzzyVM-'' @ Bytes2Hex X h)"
    using tf by (simp_all add: test_file_def k h_def Let_def)
  from storeTest_spec [OF os \<open>h \<noteq> []\<close> p, of j w] obtain dup err w1 where
    st: "storeTest S dir j h (''FuzzyVM-'' @ Bytes2Hex X h) w = Some ((dup, err), w1)"
    and frame: "\<forall>q. q \<noteq> p \<longrightarrow> Files w1 q = Files w q" "Files w p \<noteq> None \<longrightarrow> Files w1 p = Files w p"
    and new: "err = None \<and> \<not> dup \<longrightarrow> Files w p = None \<and> Files w1 p = j"
    by (auto simp: returns_iff)
  have old: "\<forall>q. q \<noteq> p \<or> Files w q \<noteq> None \<longrightarrow> Files w1 q = Files w q"
    using frame by metis
  show ?thesis
    unfolding Fuzz_keep_def hash_test_def using old new
    by (simp add: k st j [symmetric] Let_def del: append.simps flip: h_def)
qed

lemma Fuzz_keep_stores:
  assumes "lab_laws E" and "os_laws S Files"
  shows "\<exists>r w' p j. Fuzz_keep X E S dir False m f w = Some (r, w') \<and> (r = 0 \<or> r = 1) \<and>
    test_file X E dir m = (p, Some j) \<and>
    (\<forall>p c. Files w p = Some c \<longrightarrow> Files w' p = Some c) \<and>
    (r = 1 \<longrightarrow> \<not> UsedUp f \<and> Files w p = None \<and> Files w' = (Files w)(p \<mapsto> j))"
proof -
  obtain p j where tf: "test_file X E dir m = (p, Some j)"
    using assms(1) by (fastforce simp: lab_laws_def test_file_def Let_def)
  obtain r w' where fk: "Fuzz_keep X E S dir False m f w = Some (r, w')" "r = 0 \<or> r = 1"
    and q: "\<forall>q. q \<noteq> p \<or> Files w q \<noteq> None \<longrightarrow> Files w' q = Files w q"
    and one: "r = 1 \<longrightarrow> Files w p = None \<and> Files w' p = Some j \<and> \<not> UsedUp f"
    using Fuzz_keep_spec [OF assms tf, of f w] by (auto simp: returns_iff)
  have "\<forall>p c. Files w p = Some c \<longrightarrow> Files w' p = Some c"
    using q by (metis option.distinct(1))
  moreover have "r = 1 \<longrightarrow> Files w' = (Files w)(p \<mapsto> j)"
    using q one by (auto simp: fun_eq_iff)
  ultimately show ?thesis
    using fk one tf
    by (intro exI [of _ r] exI [of _ w'] exI [of _ p] exI [of _ j]) simp
qed


text \<open>A file system that never fails, for the witnesses.\<close>

definition sample_os :: "(string \<Rightarrow> byte list option, string) os" where
  "sample_os =
     \<lparr>os_Stat = (\<lambda>w p. if w p = None then NotExist else Exists),
      os_OpenFile = (\<lambda>w p. (None, w(p \<mapsto> []))),
      os_Write = (\<lambda>w p bs. (None, w(p \<mapsto> bs)))\<rparr>"

lemma sample_os_laws: "os_laws sample_os (\<lambda>w. w)"
  by (simp add: os_laws_def sample_os_def)

lemma sample_lab_laws: "lab_laws (sample_lab get put)"
  by (simp add: lab_laws_def sample_lab_def)


end
