(* ===== verification/BenchInputs.thy ===== *)
theory BenchInputs
  imports PrecompilesKZG
begin

text \<open>
  The inputs of the precompile benchmarks (\<open>cmd/precompileBench\<close>: the encodings, random points and
  pairings of \<open>bn256.go\<close> and \<open>bls.go\<close>, the blobs of \<open>kzg.go\<close>).  They are a second implementation of
  what \<open>generator/precompiles\<close> does; the properties compare the two.
\<close>

subsection \<open>BN254\<close>

definition bnEncodeG1 :: "lib \<Rightarrow> g1 \<Rightarrow> byte list" where
  "bnEncodeG1 X pt =
     (let out = replicate 64 0;
          x = bn254_fp_Bytes X (g1_X pt);
          y = bn254_fp_Bytes X (g1_Y pt);
          out = copy_range out 0 32 x
      in copy_range out 32 64 y)"

definition bnEncodeG2 :: "lib \<Rightarrow> g2 \<Rightarrow> byte list" where
  "bnEncodeG2 X pt =
     (let out = replicate 128 0;
          xa1 = bn254_fp_Bytes X (X_A1 pt);
          xa0 = bn254_fp_Bytes X (X_A0 pt);
          ya1 = bn254_fp_Bytes X (Y_A1 pt);
          ya0 = bn254_fp_Bytes X (Y_A0 pt);
          out = copy_range out 0 32 xa1;
          out = copy_range out 32 64 xa0;
          out = copy_range out 64 96 ya1
      in copy_range out 96 128 ya0)"

fun pairingBn_loop ::
    "lib \<Rightarrow> nat \<Rightarrow> g1 list \<Rightarrow> g2 list \<Rightarrow> int \<Rightarrow> filler \<Rightarrow> ((g1 list \<times> g2 list \<times> int) \<times> filler) option"
where
  "pairingBn_loop X 0 curvePoints twistPoints target f = Some ((curvePoints, twistPoints, target), f)"
| "pairingBn_loop X (Suc n) curvePoints twistPoints target f = do {
     (aMul, f) \<leftarrow> BigInt32 f;
     let pointG1 = bn254_G1_mulBase X aMul;
     (bMul, f) \<leftarrow> BigInt32 f;
     let pointG2 = bn254_G2_mulBase X bMul;
     let curvePoints = curvePoints @ [pointG1];
     let twistPoints = twistPoints @ [pointG2];
     let aMul = aMul * bMul;
     let target = target + aMul;
     pairingBn_loop X n curvePoints twistPoints target f
   }"

definition pairingBn :: "lib \<Rightarrow> nat \<Rightarrow> filler \<Rightarrow> ((g1 list \<times> g2 list) \<times> filler) option" where
  "pairingBn X rounds f = do {
     ((curvePoints, twistPoints, target), f) \<leftarrow> pairingBn_loop X rounds [] [] 0 f;
     let pointG1 = bn254_G1_mulBase X target;
     let pointG1 = bn254_G1_Neg X pointG1;
     let pointG2 = bn254_G2_mulBase X 1;
     Some ((curvePoints @ [pointG1], twistPoints @ [pointG2]), f)
   }"

subsection \<open>BLS12-381\<close>

text \<open>The slices passed on here are open at the end.\<close>

definition encodePointG1 :: "lib \<Rightarrow> g1 \<Rightarrow> byte list option" where
  "encodePointG1 X p = do {
     let out = replicate 128 0;
     out \<leftarrow> put_element X out 16 (length out) (g1_X p);
     out \<leftarrow> put_element X out (64 + 16) (length out) (g1_Y p);
     Some out
   }"

definition encodePointG2 :: "lib \<Rightarrow> g2 \<Rightarrow> byte list option" where
  "encodePointG2 X p = do {
     let out = replicate 256 0;
     out \<leftarrow> put_element X out 16 (16 + 48) (X_A0 p);
     out \<leftarrow> put_element X out 80 (80 + 48) (X_A1 p);
     out \<leftarrow> put_element X out 144 (144 + 48) (Y_A0 p);
     out \<leftarrow> put_element X out 208 (208 + 48) (Y_A1 p);
     Some out
   }"

definition getG1Point :: "lib \<Rightarrow> filler \<Rightarrow> (g1 \<times> filler) option" where
  "getG1Point X f = do {
     (b, f) \<leftarrow> ByteSlice (bls_fp_size X) f;
     let scalar = int (be_val b);
     let g1Gen = bls_G1_gen X;
     Some (bls_G1_mul X g1Gen scalar, f)
   }"

definition getG2Point :: "lib \<Rightarrow> filler \<Rightarrow> (g2 \<times> filler) option" where
  "getG2Point X f = do {
     (b, f) \<leftarrow> ByteSlice (bls_fp_size X) f;
     let scalar = int (be_val b);
     let g2Gen = bls_G2_gen X;
     Some (bls_G2_mul X g2Gen scalar, f)
   }"

text \<open>\<open>new(bls12381.G1Affine)\<close> and \<open>new(bls12381.G2Affine)\<close>, with all coordinates zero.\<close>

definition zeroG1 :: g1 where "zeroG1 = \<lparr>g1_X = 0, g1_Y = 0\<rparr>"
definition zeroG2 :: g2 where "zeroG2 = \<lparr>X_A0 = 0, X_A1 = 0, Y_A0 = 0, Y_A1 = 0\<rparr>"

fun pairingBLS_loop ::
    "lib \<Rightarrow> nat \<Rightarrow> g1 list \<Rightarrow> g2 list \<Rightarrow> int \<Rightarrow> filler \<Rightarrow> ((g1 list \<times> g2 list \<times> int) \<times> filler) option"
where
  "pairingBLS_loop X 0 curvePoints twistPoints target f = Some ((curvePoints, twistPoints, target), f)"
| "pairingBLS_loop X (Suc n) curvePoints twistPoints target f = do {
     (aMul, f) \<leftarrow> BigInt32 f;
     let pointG1 = bls_G1_mul X zeroG1 aMul;
     (bMul, f) \<leftarrow> BigInt32 f;
     let pointG2 = bls_G2_mul X zeroG2 bMul;
     let curvePoints = curvePoints @ [pointG1];
     let twistPoints = twistPoints @ [pointG2];
     let aMul = aMul * bMul;
     let target = target + aMul;
     pairingBLS_loop X n curvePoints twistPoints target f
   }"

definition pairingBLS :: "lib \<Rightarrow> nat \<Rightarrow> filler \<Rightarrow> ((g1 list \<times> g2 list) \<times> filler) option" where
  "pairingBLS X rounds f = do {
     ((curvePoints, twistPoints, target), f) \<leftarrow> pairingBLS_loop X rounds [] [] 0 f;
     let pointG1 = bls_G1_mul X zeroG1 target;
     let pointG1 = bls_G1_Neg X pointG1;
     let pointG2 = bls_G2_mul X zeroG2 1;
     Some ((curvePoints @ [pointG1], twistPoints @ [pointG2]), f)
   }"

subsection \<open>KZG\<close>

definition kZGToVersionedHash :: "lib \<Rightarrow> byte list \<Rightarrow> byte list" where
  "kZGToVersionedHash X kzg =
     (let h = sha256_Sum256 X kzg
      in h[0 := 0x01])"

function encodeBlobs_kzg_loop ::
    "lib \<Rightarrow> byte list \<Rightarrow> nat \<Rightarrow> nat \<Rightarrow> int \<Rightarrow> byte list list \<Rightarrow> byte list list option"
where
  "encodeBlobs_kzg_loop X d i blobIndex fieldIndex blobs =
     (if i < length d then do {
        let fieldIndex = fieldIndex + 1;
        let (blobs, blobIndex, fieldIndex) =
          (if fieldIndex = int (BlobTxFieldElementsPerBlob X)
           then (blobs @ [replicate blobSize 0], blobIndex + 1, 0)
           else (blobs, blobIndex, fieldIndex));
        let hi = i + 31;
        let hi = (if hi > length d then length d else hi);
        blob \<leftarrow> index blobs blobIndex;
        let off = fieldIndex * 32 + 1;
        (if off < 0 \<or> off > int (length blob) then None
         else encodeBlobs_kzg_loop X d (i + 31) blobIndex fieldIndex
           (blobs[blobIndex := snd (copy_at blob (nat off) (take (hi - i) (drop i d)))]))
      } else Some blobs)"
  by pat_completeness auto
termination
  by (relation "measure (\<lambda>(X, d, i, blobIndex, fieldIndex, blobs). length d - i)") auto

declare encodeBlobs_kzg_loop.simps [simp del]

definition encodeBlobs_kzg :: "lib \<Rightarrow> byte list \<Rightarrow> byte list list option" where
  "encodeBlobs_kzg X d =
     (let blobs = [replicate blobSize 0];
          blobIndex = 0;
          fieldIndex = - 1
      in encodeBlobs_kzg_loop X d 0 blobIndex fieldIndex blobs)"

definition createPrecompileRandParams ::
    "lib \<Rightarrow> filler \<Rightarrow> ((call_error + byte list \<times> byte list \<times> byte list \<times> byte list) \<times> filler) option"
where
  "createPrecompileRandParams X f = do {
     (random, f) \<leftarrow> ByteSlice 131072 f;
     blobs \<leftarrow> encodeBlobs_kzg X random;
     blob \<leftarrow> index blobs 0;
     case kzg_BlobToCommitment X blob of
       None \<Rightarrow> Some (Inl CommitmentError, f)
     | Some commitment \<Rightarrow>
         (let point = snd (copy_at (replicate 32 0) 0 random);
              point = point[0 := 0]
          in case kzg_ComputeProof X blob point of
               None \<Rightarrow> Some (Inl ProofError, f)
             | Some (prf, claim) \<Rightarrow> Some (Inr (commitment, claim, prf, point), f))
   }"

definition precompileParamsToBytes ::
    "lib \<Rightarrow> byte list \<Rightarrow> byte list \<Rightarrow> byte list \<Rightarrow> byte list \<Rightarrow> byte list" where
  "precompileParamsToBytes X commitment claim prf point =
     (let bytes = replicate 192 0;
          versionedHash = kZGToVersionedHash X commitment;
          bytes = copy_range bytes 0 32 versionedHash;
          bytes = copy_range bytes 32 64 point;
          bytes = copy_range bytes 64 96 claim;
          bytes = copy_range bytes 96 144 commitment
      in copy_range bytes 144 192 prf)"

subsection \<open>The benchmarks encode like the generator\<close>

lemma put_element_open:
  "lib_laws X \<Longrightarrow> hi = lo + 48 \<Longrightarrow> hi \<le> length out \<Longrightarrow>
    put_element X out lo (length out) e = put_element X out lo hi e"
  by (simp add: put_element_def bls_fp_size_48 copy_range_def length_bls_fp_PutElement)

lemma encodePointG1_eq: "lib_laws X \<Longrightarrow> encodePointG1 X = encodeBLSG1 X"
  by (intro ext) (simp add: encodePointG1_def encodeBLSG1_def bls_sizes put_element_def bls_fp_size_48
      copy_range_def length_bls_fp_PutElement Let_def)

lemma encodePointG2_eq: "encodePointG2 X = encodeBLSG2 X"
  by (intro ext) (simp add: encodePointG2_def encodeBLSG2_def bls_sizes)

lemma bnEncode_eq: "bnEncodeG1 X = bn256EncodeG1 X" "bnEncodeG2 X = bn256EncodeG2 X"
  by (intro ext, simp add: bnEncodeG1_def bn256EncodeG1_def bnEncodeG2_def bn256EncodeG2_def Let_def)+

lemma getPoint_eq: "getG1Point X = randG1 X" "getG2Point X = randG2 X"
  by (intro ext, simp add: getG1Point_def randG1_def getG2Point_def randG2_def Let_def)+

lemma pairingBn_loop_eq: "pairingBn_loop X n cs ts t f = pairing_loop X n cs ts t f"
  by (induction n arbitrary: cs ts t f) (simp_all add: Let_def)

lemma pairingBn_eq: "pairingBn X = pairing X"
  by (intro ext) (simp add: pairingBn_def pairing_def pairingBn_loop_eq)

lemma kZGToVersionedHash_eq: "kZGToVersionedHash X = kzgToVersionedHash X"
  by (intro ext) (simp add: kZGToVersionedHash_def kzgToVersionedHash_def)

subsection \<open>Packing into several blobs\<close>

text \<open>The data that starts in blob \<open>b\<close>: a blob holds 4096 elements of 31 bytes.\<close>

definition blob_bytes :: nat where "blob_bytes = 4096 * 31"

text \<open>\<open>m\<close> field elements have been written, into as many blobs as that takes.\<close>

definition blobs_ok :: "byte list \<Rightarrow> nat \<Rightarrow> byte list list \<Rightarrow> bool" where
  "blobs_ok d m blobs \<longleftrightarrow> length blobs = Suc ((m - 1) div 4096) \<and>
     (\<forall>b < length blobs. packed (drop (blob_bytes * b) d) (min 4096 (m - 4096 * b)) (blobs ! b))"

lemma blobs_ok_0: "blobs_ok d 0 [replicate blobSize 0]"
  by (simp add: blobs_ok_def packed_0)

text \<open>The list of blobs that field \<open>m\<close> is written into.\<close>

definition extend_blobs :: "nat \<Rightarrow> byte list list \<Rightarrow> byte list list" where
  "extend_blobs m blobs = (if m = 4096 * length blobs then blobs @ [replicate blobSize 0] else blobs)"

lemma last_blob:
  "(m - 1) div 4096 = (if m \<noteq> 0 \<and> m mod 4096 = 0 then m div 4096 - 1 else m div (4096 :: nat))" (is ?a)
  "m = 4096 * Suc ((m - 1) div 4096) \<longleftrightarrow> m \<noteq> 0 \<and> m mod (4096 :: nat) = 0" (is ?b)
proof -
  define q r where "q = m div 4096" and "r = m mod 4096"
  have m: "m = 4096 * q + r" and r: "r < 4096" by (simp_all add: q_def r_def)
  show a: ?a
  proof (cases r)
    case 0
    show ?thesis
    proof (cases q)
      case (Suc q')
      then have "m - 1 = 4096 * q' + 4095" using m \<open>r = 0\<close> by simp
      then have "(m - 1) div 4096 = q'" by simp
      with Suc \<open>r = 0\<close> m show ?thesis by (simp flip: q_def r_def)
    qed (use m \<open>r = 0\<close> in simp)
  next
    case (Suc r')
    then have "(m - 1) div 4096 = q" using m r by simp
    with Suc show ?thesis by (simp flip: q_def r_def)
  qed
  show ?b
    unfolding a using m by (auto simp flip: q_def r_def)
qed

lemma extend_blobs_ok:
  assumes "blobs_ok d m blobs"
  shows "length (extend_blobs m blobs) = Suc (m div 4096)"
    and "b \<le> m div 4096 \<Longrightarrow> packed (drop (blob_bytes * b) d) (min 4096 (m - 4096 * b)) (extend_blobs m blobs ! b)"
proof -
  have len: "length blobs = Suc ((m - 1) div 4096)" using assms by (simp add: blobs_ok_def)
  show l: "length (extend_blobs m blobs) = Suc (m div 4096)"
    unfolding extend_blobs_def len last_blob(2) using len last_blob(1) [of m]
    by (auto simp: Suc_diff_1)
  show "packed (drop (blob_bytes * b) d) (min 4096 (m - 4096 * b)) (extend_blobs m blobs ! b)"
    if "b \<le> m div 4096"
  proof (cases "b < length blobs")
    case True
    then have "extend_blobs m blobs ! b = blobs ! b" by (simp add: extend_blobs_def nth_append)
    with True assms show ?thesis by (simp add: blobs_ok_def)
  next
    case False
    with that l have "m = 4096 * length blobs" "b = length blobs"
      by (auto simp: extend_blobs_def split: if_splits)
    then show ?thesis by (simp add: extend_blobs_def packed_0)
  qed
qed

lemma packed_write:
  assumes p: "packed (drop (blob_bytes * b) d) k blob" and "k < 4096" and m: "m = 4096 * b + k"
    and "31 * m < length d" and hi: "hi = (if 31 * m + 31 > length d then length d else 31 * m + 31)"
  shows "packed (drop (blob_bytes * b) d) (Suc k)
    (snd (copy_at blob (k * 32 + 1) (take (hi - 31 * m) (drop (31 * m) d))))"
proof -
  define e where "e = drop (blob_bytes * b) d"
  have off: "31 * m = blob_bytes * b + 31 * k" by (simp add: m blob_bytes_def)
  then have "31 * k < length e" "drop (31 * m) d = drop (31 * k) e"
    using assms(4) by (simp_all add: e_def add.commute)
  moreover have "hi - 31 * m = (if 31 * k + 31 > length e then length e else 31 * k + 31) - 31 * k"
    using assms(4) off by (auto simp: hi e_def)
  ultimately show ?thesis
    using packed_step [of e k blob] p assms(2) by (simp add: e_def)
qed

lemma blobs_ok_step:
  assumes ok: "blobs_ok d m blobs" and m: "31 * m < length d"
    and hi: "hi = (if 31 * m + 31 > length d then length d else 31 * m + 31)"
  defines "bi \<equiv> m div 4096"
  shows "blobs_ok d (Suc m) ((extend_blobs m blobs)[bi :=
    snd (copy_at (extend_blobs m blobs ! bi) (m mod 4096 * 32 + 1) (take (hi - 31 * m) (drop (31 * m) d)))])"
    (is "blobs_ok d _ (_[bi := ?w])")
proof -
  have "m - 4096 * bi = m mod 4096" by (simp add: bi_def minus_mult_div_eq_mod)
  then have "packed (drop (blob_bytes * bi) d) (m mod 4096) (extend_blobs m blobs ! bi)"
    using extend_blobs_ok(2) [OF ok, of bi] mod_less_divisor [of 4096 m] by (simp add: bi_def min_absorb2 less_imp_le)
  from packed_write [OF this _ _ m hi] have w: "packed (drop (blob_bytes * bi) d) (Suc (m mod 4096)) ?w"
    by (simp add: bi_def)
  have "packed (drop (blob_bytes * b) d) (min 4096 (Suc m - 4096 * b)) ((extend_blobs m blobs)[bi := ?w] ! b)"
    if "b < Suc bi" for b
  proof (cases "b = bi")
    case True
    have "Suc m - 4096 * bi = Suc (m mod 4096)" by (simp add: bi_def Suc_diff_le minus_mult_div_eq_mod)
    moreover have "Suc (m mod 4096) \<le> 4096" by (simp add: Suc_le_eq)
    ultimately have "min 4096 (Suc m - 4096 * b) = Suc (m mod 4096)" using True by (simp only: min_absorb2)
    moreover have "(extend_blobs m blobs)[bi := ?w] ! b = ?w"
      using True extend_blobs_ok(1) [OF ok] by (simp add: bi_def)
    ultimately show ?thesis using True w by (simp only:)
  next
    case False
    with that have "b < bi" by simp
    then have "4096 * Suc b \<le> m" unfolding bi_def by (metis Suc_leI div_times_less_eq_dividend le_trans mult.commute mult_le_mono1)
    then have "min 4096 (Suc m - 4096 * b) = min 4096 (m - 4096 * b)" by simp
    with extend_blobs_ok(2) [OF ok, of b] \<open>b < bi\<close> show ?thesis by (simp add: bi_def)
  qed
  with extend_blobs_ok(1) [OF ok] show ?thesis by (simp add: blobs_ok_def bi_def)
qed

lemma encodeBlobs_kzg_loop_unfold:
  assumes "(if fi + 1 = int (BlobTxFieldElementsPerBlob X) then (blobs @ [replicate blobSize 0], bi + 1, 0)
      else (blobs, bi, fi + 1)) = (bl, bi', int k)"
    and "i < length d" and "bi' < length bl" and "k * 32 + 1 \<le> length (bl ! bi')"
    and "hi = (if i + 31 > length d then length d else i + 31)"
  shows "encodeBlobs_kzg_loop X d i bi fi blobs = encodeBlobs_kzg_loop X d (i + 31) bi' (int k)
    (bl[bi' := snd (copy_at (bl ! bi') (k * 32 + 1) (take (hi - i) (drop i d)))])"
proof -
  have "nat (int k * 32 + 1) = k * 32 + 1" by (simp add: nat_add_distrib nat_mult_distrib)
  then show ?thesis
    using assms(2-5) by (subst encodeBlobs_kzg_loop.simps) (simp add: Let_def assms(1))
qed

lemma encodeBlobs_kzg_loop_step:
  assumes X: "BlobTxFieldElementsPerBlob X = 4096" and ok: "blobs_ok d m blobs" and m: "31 * m < length d"
    and hi: "hi = (if 31 * m + 31 > length d then length d else 31 * m + 31)"
  shows "encodeBlobs_kzg_loop X d (31 * m) ((m - 1) div 4096) (int m - 1 - 4096 * int ((m - 1) div 4096)) blobs =
    encodeBlobs_kzg_loop X d (31 * Suc m) (m div 4096) (int (m mod 4096)) ((extend_blobs m blobs)[m div 4096 :=
      snd (copy_at (extend_blobs m blobs ! (m div 4096)) (m mod 4096 * 32 + 1)
        (take (hi - 31 * m) (drop (31 * m) d)))])"
proof -
  define bl where "bl = extend_blobs m blobs"
  have len: "length blobs = Suc ((m - 1) div 4096)" using ok by (simp add: blobs_ok_def)
  have ext: "(if int m - 1 - 4096 * int ((m - 1) div 4096) + 1 = int (BlobTxFieldElementsPerBlob X)
      then (blobs @ [replicate blobSize 0], (m - 1) div 4096 + 1, 0)
      else (blobs, (m - 1) div 4096, int m - 1 - 4096 * int ((m - 1) div 4096) + 1)) =
    (bl, m div 4096, int (m mod 4096))"
  proof (cases "m \<noteq> 0 \<and> m mod 4096 = 0")
    case True
    then have "m = 4096 * length blobs" unfolding len last_blob(2) .
    moreover define q where "q = (m - 1) div 4096"
    ultimately have m: "m = 4096 * Suc q" and bl: "bl = blobs @ [replicate blobSize 0]"
      using len by (simp_all add: bl_def extend_blobs_def)
    have "int m - 1 - 4096 * int q + 1 = 4096" "m div 4096 = q + 1" "m mod 4096 = 0"
      by (simp_all add: m)
    then show ?thesis unfolding q_def [symmetric] by (simp add: X bl)
  next
    case False
    then have "m \<noteq> 4096 * length blobs" unfolding len last_blob(2) .
    moreover have "(m - 1) div 4096 = m div 4096" using False by (simp only: last_blob(1) if_False)
    moreover have "int m - 4096 * int (m div 4096) = int (m mod 4096)"
      by (simp add: zmod_int minus_mult_div_eq_mod zdiv_int)
    moreover have "int (m mod 4096) \<noteq> 4096" using mod_less_divisor [of 4096 m] by linarith
    ultimately show ?thesis by (simp add: bl_def extend_blobs_def X)
  qed
  have next_i: "31 * Suc m = 31 * m + 31" by simp
  have "length (bl ! (m div 4096)) = blobSize"
    using extend_blobs_ok(2) [OF ok, of "m div 4096"] by (simp add: packed_def bl_def)
  moreover have "m mod 4096 * 32 + 1 \<le> blobSize" using mod_less_divisor [of 4096 m] by (simp add: blobSize_def)
  moreover have "m div 4096 < length bl" using extend_blobs_ok(1) [OF ok] by (simp add: bl_def)
  ultimately show ?thesis
    unfolding bl_def [symmetric] next_i by (intro encodeBlobs_kzg_loop_unfold ext m hi) simp_all
qed

lemma encodeBlobs_kzg_loop_spec:
  assumes X: "BlobTxFieldElementsPerBlob X = 4096"
  shows "blobs_ok d m blobs \<Longrightarrow> 31 * (m - 1) < length d \<or> m = 0 \<Longrightarrow>
    \<exists>m' blobs'. encodeBlobs_kzg_loop X d (31 * m) ((m - 1) div 4096)
        (int m - 1 - 4096 * int ((m - 1) div 4096)) blobs = Some blobs' \<and>
      blobs_ok d m' blobs' \<and> length d \<le> 31 * m' \<and> (31 * (m' - 1) < length d \<or> m' = 0)"
proof (induction "length d - 31 * m" arbitrary: m blobs rule: less_induct)
  case less
  show ?case
  proof (cases "31 * m < length d")
    case True
    define b' where "b' = (extend_blobs m blobs)[m div 4096 :=
      snd (copy_at (extend_blobs m blobs ! (m div 4096)) (m mod 4096 * 32 + 1)
        (take ((if 31 * m + 31 > length d then length d else 31 * m + 31) - 31 * m) (drop (31 * m) d)))]"
    note step = encodeBlobs_kzg_loop_step [OF X less.prems(1) True refl, folded b'_def]
    have b': "blobs_ok d (Suc m) b'"
      unfolding b'_def by (rule blobs_ok_step [OF less.prems(1) True refl])
    have "int (Suc m) - 1 - 4096 * int ((Suc m - 1) div 4096) = int (m mod 4096)"
      by (simp add: zmod_int zdiv_int minus_mult_div_eq_mod)
    with less.hyps [OF _ b'] True step show ?thesis by simp
  next
    case False
    with less.prems show ?thesis
      by (intro exI [of _ m] exI [of _ blobs]) (simp add: encodeBlobs_kzg_loop.simps)
  qed
qed

text \<open>A blob is determined by the data that starts in it.\<close>

lemma packed_all: "packed d m blob \<Longrightarrow> length d \<le> 31 * m \<Longrightarrow> packed d 4096 blob"
proof -
  assume p: "packed d m blob" and m: "length d \<le> 31 * m"
  have "k < m" if "31 * k + j < length d" for k j
  proof (rule ccontr)
    assume "\<not> k < m"
    then have "31 * m \<le> 31 * k" by simp
    with that m show False by linarith
  qed
  with p show ?thesis by (auto simp: packed_def)
qed

lemma packed_unique:
  assumes "packed d 4096 a" and "packed d 4096 b"
  shows "a = b"
proof (rule nth_equalityI)
  show "length a = length b" using assms by (simp add: packed_def)
next
  fix i assume "i < length a"
  then have k: "i div 32 < 4096" using assms(1) by (simp add: packed_def blobSize_def less_mult_imp_div_less)
  define k where "k = i div 32"
  define j where "j = i mod 32"
  have i: "i = 32 * k + j" "j < 32" by (simp_all add: k_def j_def)
  show "a ! i = b ! i"
  proof (cases j)
    case 0
    with i k assms show ?thesis by (simp add: packed_def flip: k_def)
  next
    case (Suc j')
    with i have "i = 32 * k + 1 + j'" "j' < 31" by simp_all
    with k assms show ?thesis unfolding packed_def k_def [symmetric] by metis
  qed
qed

lemma encodeKZGBlob_packed:
  "BlobTxFieldElementsPerBlob X = 4096 \<Longrightarrow> \<exists>b. encodeKZGBlob X d = Some b \<and> packed d 4096 b"
  using encodeKZGBlob_Some [of X d] packed_all by blast

lemma encodeBlobs_kzg_spec:
  assumes X: "BlobTxFieldElementsPerBlob X = 4096"
  shows "\<exists>blobs. encodeBlobs_kzg X d = Some blobs \<and> length blobs = max 1 ((length d + 126975) div 126976) \<and>
    (\<forall>b < length blobs. encodeKZGBlob X (drop (126976 * b) d) = Some (blobs ! b))"
proof -
  obtain m blobs where m: "encodeBlobs_kzg X d = Some blobs" "blobs_ok d m blobs"
    "length d \<le> 31 * m" "31 * (m - 1) < length d \<or> m = 0"
    using encodeBlobs_kzg_loop_spec [OF X blobs_ok_0, of d] by (auto simp: encodeBlobs_kzg_def)
  have "encodeKZGBlob X (drop (126976 * b) d) = Some (blobs ! b)" if "b < length blobs" for b
  proof -
    define e where "e = drop (blob_bytes * b) d"
    have "packed e (min 4096 (m - 4096 * b)) (blobs ! b)"
      using m(2) that by (simp add: blobs_ok_def e_def)
    then have "packed e 4096 (blobs ! b)"
      using m(3) packed_all [of e "m - 4096 * b" "blobs ! b"]
      by (cases "4096 \<le> m - 4096 * b") (simp_all add: min_def e_def blob_bytes_def)
    with encodeKZGBlob_packed [OF X, of e] show ?thesis
      by (auto simp: e_def blob_bytes_def dest: packed_unique)
  qed
  moreover have "length blobs = max 1 ((length d + 126975) div 126976)"
  proof (cases m)
    case 0
    with m(2,3) show ?thesis by (simp add: blobs_ok_def)
  next
    case (Suc n)
    define q r where "q = n div 4096" and "r = n mod 4096"
    have n: "n = 4096 * q + r" and r: "r \<le> 4095"
      using mod_less_divisor [of 4096 n] by (simp_all add: q_def r_def)
    have "31 * n < length d" "length d \<le> 31 * n + 31" using m(3,4) Suc by simp_all
    then have "126976 * Suc q \<le> length d + 126975" "length d + 126975 < 126976 * Suc (Suc q)"
      using n r by simp_all
    then have "(length d + 126975) div 126976 = Suc q"
      by (intro div_nat_eqI) simp_all
    with Suc m(2) show ?thesis by (simp add: blobs_ok_def q_def)
  qed
  ultimately show ?thesis using m(1) by blast
qed

subsection \<open>The BLS pairing of the benchmark\<close>

text \<open>
  The points are multiples of \<open>new(G1Affine)\<close> and \<open>new(G2Affine)\<close>, not of the generators: where those
  stand for the point at infinity, so does every point of the input.
\<close>

lemma pairingBLS_infinity:
  assumes "\<And>k. bls_G1_mul X zeroG1 k = zeroG1" and "\<And>k. bls_G2_mul X zeroG2 k = zeroG2"
    and "bls_G1_Neg X zeroG1 = zeroG1"
  shows "fills f (pairingBLS X n f) (\<lambda>(cs, ts). cs = replicate (Suc n) zeroG1 \<and> ts = replicate (Suc n) zeroG2)"
proof -
  have loop: "fills f (pairingBLS_loop X n (replicate k zeroG1) (replicate k zeroG2) t f)
      (\<lambda>(cs, ts, t). cs = replicate (k + n) zeroG1 \<and> ts = replicate (k + n) zeroG2)" for n k t f
  proof (induction n arbitrary: k t f)
    case (Suc n)
    have "fills f' (pairingBLS_loop X n (replicate k zeroG1 @ [zeroG1]) (replicate k zeroG2 @ [zeroG2]) t f')
        (\<lambda>(cs, ts, t). cs = replicate (k + Suc n) zeroG1 \<and> ts = replicate (k + Suc n) zeroG2)" for t f'
      using Suc.IH [of f' "Suc k" t] by (simp add: replicate_append_same)
    then show ?case by (auto intro!: fill_intro simp: assms Let_def)
  qed (auto intro!: fill_intro)
  show ?thesis
    unfolding pairingBLS_def
    by (auto intro!: fill_intro fills_bind [OF loop [of _ n 0, simplified]]
        simp: assms Let_def replicate_append_same)
qed

subsection \<open>Reading the inputs\<close>

lemma fills_encodePoint [fill_intro]:
  "lib_laws X \<Longrightarrow> (\<And>b. fills f (k b) Q) \<Longrightarrow> fills f (encodePointG1 X a \<bind> k) Q"
  "lib_laws X \<Longrightarrow> (\<And>b. fills f (k b) Q) \<Longrightarrow> fills f (encodePointG2 X c \<bind> k) Q"
  by (simp_all add: encodePointG1_eq encodePointG2_eq encodeBLSG1_Some encodeBLSG2_Some)

lemmas fills_bind_getPoint [fill_intro] =
  fills_randoms(1,2) [THEN fills_bind, folded getPoint_eq]

lemmas fills_bind_pairingBn [fill_intro] = fills_pairing [folded pairingBn_eq, THEN fills_bind]

lemma fills_pairingBLS_loop:
  "length cs = length ts \<Longrightarrow> fills f (pairingBLS_loop X n cs ts target f)
    (\<lambda>(cs', ts', t). length cs' = length cs + n \<and> length ts' = length ts + n)"
proof (induction n arbitrary: cs ts target f)
  case (Suc n)
  have "fills f' (pairingBLS_loop X n (cs @ [a]) (ts @ [b]) t f')
      (\<lambda>(cs', ts', t). length cs' = length cs + Suc n \<and> length ts' = length ts + Suc n)" for a b t f'
    using Suc.IH [of "cs @ [a]" "ts @ [b]"] Suc.prems by simp
  then show ?case by (auto intro!: fill_intro simp: Let_def)
qed (auto intro!: fill_intro)

lemma fills_pairingBLS:
  "fills f (pairingBLS X n f) (\<lambda>(cs, ts). length cs = Suc n \<and> length ts = Suc n)"
  unfolding pairingBLS_def by (auto intro!: fill_intro fills_bind [OF fills_pairingBLS_loop])

lemmas fills_bind_pairingBLS [fill_intro] = fills_bind [OF fills_pairingBLS]

text \<open>The calls of the KZG and signature libraries that the benchmarks cannot do without succeed.\<close>

definition lib_succeeds :: "lib \<Rightarrow> bool" where
  "lib_succeeds X \<longleftrightarrow>
     (\<forall>b. kzg_BlobToCommitment X b \<noteq> None) \<and> (\<forall>b z. kzg_ComputeProof X b z \<noteq> None) \<and>
     (\<forall>c f. fst (ecdsa_GenerateKey X c f) \<noteq> None) \<and> (\<forall>h k. crypto_Sign X h k \<noteq> None)"

lemma lib_succeedsD:
  assumes "lib_succeeds X"
  shows "kzg_BlobToCommitment X b \<noteq> None" "kzg_ComputeProof X b z \<noteq> None"
    "fst (ecdsa_GenerateKey X c f) \<noteq> None" "crypto_Sign X h k \<noteq> None"
  using assms by (simp_all only: lib_succeeds_def not_False_eq_True)

lemma sample_lib_succeeds: "lib_succeeds sample_lib"
  by (simp add: lib_succeeds_def sample_lib_def)

lemma fills_encodeBlobs_kzg:
  assumes "lib_laws X" and "\<And>bs. bs \<noteq> [] \<Longrightarrow> fills f (k bs) Q"
  shows "fills f (encodeBlobs_kzg X d \<bind> k) Q"
proof -
  obtain bs where "encodeBlobs_kzg X d = Some bs" "length bs = max 1 ((length d + 126975) div 126976)"
    using encodeBlobs_kzg_spec [OF field_elements [OF assms(1)], of d] by blast
  then show ?thesis using assms(2) [of bs] by (cases bs) simp_all
qed

lemma fills_createPrecompileRandParams:
  assumes "lib_laws X" and "lib_succeeds X"
  shows "fills f (createPrecompileRandParams X f) (\<lambda>r. \<exists>x. r = Inr x)"
proof -
  show ?thesis
    unfolding createPrecompileRandParams_def Let_def
    by (intro fill_intro fills_encodeBlobs_kzg) (simp_all add: assms(1) lib_succeedsD [OF assms(2)] del: not_None_eq)
qed

lemmas fills_bind_kzg_params [fill_intro] = fills_bind [OF fills_createPrecompileRandParams]

subsection \<open>Properties\<close>

text \<open>\<open>encodeBlobs\<close> of the benchmarks never panics and loses nothing: the data is cut into pieces of
  4096 times 31 bytes, one blob for each and at least one, and every blob is what the packing of the
  generator makes of the data from its piece on.\<close>

theorem encodeBlobs_agrees:
  assumes "lib_laws X"
  shows "\<exists>blobs. encodeBlobs_kzg X d = Some blobs \<and> length blobs = max 1 ((length d + 126975) div 126976) \<and>
    (\<forall>b < length blobs. encodeKZGBlob X (drop (126976 * b) d) = Some (blobs ! b))"
  by (rule encodeBlobs_kzg_spec [OF field_elements [OF assms]])

theorem encodeBlobs_agrees_witness:
  "\<exists>blob. encodeBlobs_kzg sample_lib [1, 2, 3] = Some [blob] \<and> encodeKZGBlob sample_lib [1, 2, 3] = Some blob"
  using encodeBlobs_agrees [OF sample_lib_laws, of "[1, 2, 3]"] by (auto simp: length_Suc_conv)

end
