(* ===== verification/Benchmarks.thy ===== *)
theory Benchmarks
  imports BenchInputs EVM
begin

text \<open>
  The programs of the precompile benchmark (\<open>cmd/precompileBench\<close>: \<open>bls.go\<close>, \<open>bn256.go\<close>, \<open>kzg.go\<close>,
  \<open>ecrecover.go\<close>, \<open>modexp.go\<close>, \<open>blake2f.go\<close>, \<open>ripemd.go\<close>, \<open>edgecases.go\<close>, and the table and the search for
  the slowest program in \<open>main.go\<close>).  A test turns a filler into code; a panic is \<open>None\<close>.  Every
  program is meant to repeat its work until the gas is used up.
\<close>

type_synonym test = "filler \<Rightarrow> (byte list \<times> filler) option"

subsection \<open>BLS12-381\<close>

definition makeBLSAdd :: "'p program_api \<Rightarrow> lib \<Rightarrow> test" where
  "makeBLSAdd P X f = do {
     (a, f) \<leftarrow> getG1Point X f;
     (b, f) \<leftarrow> getG1Point X f;
     let p = New P;
     ea \<leftarrow> encodePointG1 X a;
     let p = Mstore P ea 0 p;
     eb \<leftarrow> encodePointG1 X b;
     let p = Mstore P eb 128 p;
     let (p, dest) = Jumpdest P p;
     let p = StaticCall P GoNil (GoInt 0x0d) (GoInt 0) (GoInt 128) (GoInt 0) (GoInt 32) p;
     let p = Op P [vm_POP] p;
     let p = Jump P (GoUint64 dest) p;
     Some (Bytes P p, f)
   }"

text \<open>The loop counter and \<open>i*160\<close> are bytes; \<open>n\<close> rounds are left.\<close>

fun makeBLSMulExpG1_loop :: "'p program_api \<Rightarrow> lib \<Rightarrow> nat \<Rightarrow> byte \<Rightarrow> 'p \<Rightarrow> filler \<Rightarrow> ('p \<times> filler) option" where
  "makeBLSMulExpG1_loop P X 0 i p f = Some (p, f)"
| "makeBLSMulExpG1_loop P X (Suc n) i p f = do {
     (a, f) \<leftarrow> getG1Point X f;
     ea \<leftarrow> encodePointG1 X a;
     let p = Mstore P ea (ucast (i * 160)) p;
     (s, f) \<leftarrow> ByteSlice 32 f;
     let p = Mstore P s (ucast (i * 160 + 128)) p;
     makeBLSMulExpG1_loop P X n (i + 1) p f
   }"

definition makeBLSMulExpG1 :: "'p program_api \<Rightarrow> lib \<Rightarrow> test" where
  "makeBLSMulExpG1 P X f = do {
     (rounds, f) \<leftarrow> Byte f;
     let p = New P;
     (p, f) \<leftarrow> makeBLSMulExpG1_loop P X (unat rounds) 0 p f;
     let (p, dest) = Jumpdest P p;
     let p = StaticCall P GoNil (GoInt 0x0c) (GoInt 0) (GoUint8 (rounds * 160)) (GoInt 0) (GoInt 128) p;
     let p = Op P [vm_POP] p;
     let p = Jump P (GoUint64 dest) p;
     Some (Bytes P p, f)
   }"

definition makeBLSAddG2 :: "'p program_api \<Rightarrow> lib \<Rightarrow> test" where
  "makeBLSAddG2 P X f = do {
     (a, f) \<leftarrow> getG2Point X f;
     (b, f) \<leftarrow> getG2Point X f;
     let p = New P;
     ea \<leftarrow> encodePointG2 X a;
     let p = Mstore P ea 0 p;
     eb \<leftarrow> encodePointG2 X b;
     let p = Mstore P eb 256 p;
     let (p, dest) = Jumpdest P p;
     let p = StaticCall P GoNil (GoInt 0x0d) (GoInt 0) (GoInt 512) (GoInt 0) (GoInt 256) p;
     let p = Op P [vm_POP] p;
     let p = Jump P (GoUint64 dest) p;
     Some (Bytes P p, f)
   }"

fun makeBLSMulExpG2_loop :: "'p program_api \<Rightarrow> lib \<Rightarrow> nat \<Rightarrow> nat \<Rightarrow> 'p \<Rightarrow> filler \<Rightarrow> ('p \<times> filler) option" where
  "makeBLSMulExpG2_loop P X 0 i p f = Some (p, f)"
| "makeBLSMulExpG2_loop P X (Suc n) i p f = do {
     (a, f) \<leftarrow> getG2Point X f;
     ea \<leftarrow> encodePointG2 X a;
     let p = Mstore P ea (of_nat i * 288) p;
     (s, f) \<leftarrow> ByteSlice 32 f;
     let p = Mstore P s (of_nat (i * 288 + 128)) p;
     makeBLSMulExpG2_loop P X n (i + 1) p f
   }"

definition makeBLSMulExpG2 :: "'p program_api \<Rightarrow> lib \<Rightarrow> test" where
  "makeBLSMulExpG2 P X f = do {
     (rounds, f) \<leftarrow> Byte f;
     let p = New P;
     (p, f) \<leftarrow> makeBLSMulExpG2_loop P X (unat rounds) 0 p f;
     let (p, dest) = Jumpdest P p;
     let p = StaticCall P GoNil (GoInt 0x0e) (GoInt 0) (GoUint32 (ucast rounds * 288)) (GoInt 0) (GoInt 128) p;
     let p = Op P [vm_POP] p;
     let p = Jump P (GoUint64 dest) p;
     Some (Bytes P p, f)
   }"

definition makeBLSMapG1 :: "'p program_api \<Rightarrow> lib \<Rightarrow> test" where
  "makeBLSMapG1 P X f = do {
     let p = New P;
     (b, f) \<leftarrow> ByteSlice 64 f;
     let p = Mstore P b 0 p;
     let (p, dest) = Jumpdest P p;
     let p = StaticCall P GoNil (GoInt 0x10) (GoInt 0) (GoInt 64) (GoInt 0) (GoInt 128) p;
     let p = Op P [vm_POP] p;
     let p = Jump P (GoUint64 dest) p;
     Some (Bytes P p, f)
   }"

definition makeBLSMapG2 :: "'p program_api \<Rightarrow> lib \<Rightarrow> test" where
  "makeBLSMapG2 P X f = do {
     let p = New P;
     (b, f) \<leftarrow> ByteSlice 128 f;
     let p = Mstore P b 0 p;
     let (p, dest) = Jumpdest P p;
     let p = StaticCall P GoNil (GoInt 0x11) (GoInt 0) (GoInt 512) (GoInt 0) (GoInt 256) p;
     let p = Op P [vm_POP] p;
     let p = Jump P (GoUint64 dest) p;
     Some (Bytes P p, f)
   }"

fun makeBLSPairing_loop ::
    "'p program_api \<Rightarrow> lib \<Rightarrow> g1 list \<Rightarrow> g2 list \<Rightarrow> u32 \<Rightarrow> 'p \<Rightarrow> 'p option"
where
  "makeBLSPairing_loop P X [] ts offset p = Some p"
| "makeBLSPairing_loop P X (c # cs) [] offset p = None"
| "makeBLSPairing_loop P X (c # cs) (t # ts) offset p =
     (let p = Mstore P (bls_G1_Marshal X c) offset p;
          offset = offset + 128;
          p = Mstore P (bls_G2_Marshal X t) offset p;
          offset = offset + 256
      in makeBLSPairing_loop P X cs ts offset p)"

definition makeBLSPairing :: "'p program_api \<Rightarrow> lib \<Rightarrow> test" where
  "makeBLSPairing P X f = do {
     (rounds, f) \<leftarrow> Byte f;
     ((curvePoints, twistPoints), f) \<leftarrow> pairingBLS X (unat rounds) f;
     let inSize = (of_nat (length curvePoints * 192) :: u32);
     let p = New P;
     p \<leftarrow> makeBLSPairing_loop P X curvePoints twistPoints 0 p;
     let (p, dest) = Jumpdest P p;
     let p = StaticCall P GoNil (GoInt 0x0e) (GoInt 0) (GoUint32 inSize) (GoUint32 inSize) (GoUint32 (inSize + 64)) p;
     let p = Op P [vm_POP] p;
     let p = Jump P (GoUint64 dest) p;
     Some (Bytes P p, f)
   }"

subsection \<open>BN254\<close>

definition createBN256Mul :: "'p program_api \<Rightarrow> lib \<Rightarrow> test" where
  "createBN256Mul P X f = do {
     (k, f) \<leftarrow> BigInt32 f;
     let point = bn254_G1_mulBase X k;
     (scalarFactor, f) \<leftarrow> BigInt32 f;
     let p = New P;
     let p = Mstore P (bnEncodeG1 X point) 0 p;
     let scalarBytes = LeftPadBytes X (big_bytes (nat scalarFactor)) 32;
     let p = Mstore P scalarBytes 64 p;
     let (p, dest) = Jumpdest P p;
     let p = StaticCall P GoNil (GoInt 0x7) (GoInt 0) (GoInt 96) (GoInt 0) (GoInt 64) p;
     let p = Op P [vm_POP] p;
     let p = Jump P (GoUint64 dest) p;
     Some (Bytes P p, f)
   }"

definition createBN256Add :: "'p program_api \<Rightarrow> lib \<Rightarrow> test" where
  "createBN256Add P X f = do {
     (k, f) \<leftarrow> BigInt32 f;
     let point = bn254_G1_mulBase X k;
     (k2, f) \<leftarrow> BigInt32 f;
     let point2 = bn254_G1_mulBase X k2;
     let p = New P;
     let p = Mstore P (bnEncodeG1 X point) 0 p;
     let p = Mstore P (bnEncodeG1 X point2) 64 p;
     let (p, dest) = Jumpdest P p;
     let p = StaticCall P (GoU256 (u256_NewInt X 150)) (GoInt 0x6) (GoInt 0) (GoInt 128) (GoInt 0) (GoInt 64) p;
     let p = Op P [vm_POP] p;
     let p = Jump P (GoUint64 dest) p;
     Some (Bytes P p, f)
   }"

fun createBN256Pairing_loop ::
    "'p program_api \<Rightarrow> lib \<Rightarrow> g1 list \<Rightarrow> g2 list \<Rightarrow> u32 \<Rightarrow> 'p \<Rightarrow> 'p option"
where
  "createBN256Pairing_loop P X [] ts offset p = Some p"
| "createBN256Pairing_loop P X (c # cs) [] offset p = None"
| "createBN256Pairing_loop P X (c # cs) (t # ts) offset p =
     (let p = Mstore P (bnEncodeG1 X c) offset p;
          offset = offset + 64;
          p = Mstore P (bnEncodeG2 X t) offset p;
          offset = offset + 128
      in createBN256Pairing_loop P X cs ts offset p)"

definition createBN256Pairing :: "'p program_api \<Rightarrow> lib \<Rightarrow> test" where
  "createBN256Pairing P X f = do {
     (rounds, f) \<leftarrow> Byte f;
     ((curvePoints, twistPoints), f) \<leftarrow> pairingBn X (unat rounds) f;
     let inSize = (of_nat (length curvePoints * 192) :: u32);
     let p = New P;
     p \<leftarrow> createBN256Pairing_loop P X curvePoints twistPoints 0 p;
     let (p, dest) = Jumpdest P p;
     let p = StaticCall P GoNil (GoInt 0x8) (GoInt 0) (GoUint32 inSize) (GoUint32 inSize) (GoUint32 (inSize + 64)) p;
     let p = Op P [vm_POP] p;
     let p = Jump P (GoUint64 dest) p;
     Some (Bytes P p, f)
   }"

subsection \<open>KZG and signatures\<close>

definition makeKZG :: "'p program_api \<Rightarrow> lib \<Rightarrow> test" where
  "makeKZG P X f = do {
     (r, f) \<leftarrow> createPrecompileRandParams X f;
     case r of
       Inl err \<Rightarrow> None
     | Inr (commitment, claim, prf, point) \<Rightarrow> do {
         let input = precompileParamsToBytes X commitment claim prf point;
         let input = input[0 := 0];
         let p = New P;
         let p = Mstore P input 0 p;
         let (p, dest) = Jumpdest P p;
         let p = StaticCall P GoNil (GoInt 0xa) (GoInt 0) (GoInt 192) (GoInt 192) (GoInt 32) p;
         let p = Op P [vm_POP] p;
         let p = Jump P (GoUint64 dest) p;
         Some (Bytes P p, f)
       }
   }"

definition makeEcrecover :: "'p program_api \<Rightarrow> lib \<Rightarrow> test" where
  "makeEcrecover P X f = do {
     (sk, f) \<leftarrow> read_via (ecdsa_GenerateKey X S256) f;
     case sk of
       None \<Rightarrow> None
     | Some sk \<Rightarrow> do {
         (hash, f) \<leftarrow> ByteSlice 32 f;
         case crypto_Sign X hash sk of
           None \<Rightarrow> None
         | Some sig \<Rightarrow> do {
             let p = New P;
             let input = hash;
             v \<leftarrow> index sig 64;
             let input = input @ replicate 31 0 @ [v + 27];
             r \<leftarrow> slice sig 0 32;
             let input = input @ r;
             s \<leftarrow> slice sig 32 64;
             let input = input @ s;
             let p = Mstore P input 0 p;
             let (p, dest) = Jumpdest P p;
             let p = StaticCall P GoNil (GoInt 0x1) (GoInt 0) (GoInt 128) (GoInt 128) (GoInt 32) p;
             let p = Op P [vm_POP] p;
             let p = Jump P (GoUint64 dest) p;
             Some (Bytes P p, f)
           }
       }
   }"

text \<open>\<open>sign\<close> stands for \<open>ecdsa.Sign\<close> with the random numbers of the operating system.\<close>

definition makeR1Recover ::
    "'p program_api \<Rightarrow> lib \<Rightarrow> (privkey \<Rightarrow> byte list \<Rightarrow> (nat \<times> nat) option) \<Rightarrow> test" where
  "makeR1Recover P X sign f = do {
     (sk, f) \<leftarrow> read_via (ecdsa_GenerateKey X P256) f;
     case sk of
       None \<Rightarrow> None
     | Some sk \<Rightarrow> do {
         (hash, f) \<leftarrow> ByteSlice 32 f;
         case sign sk hash of
           None \<Rightarrow> None
         | Some (r, s) \<Rightarrow> do {
             let sig = hash;
             let sig = sig @ big_bytes r;
             let sig = sig @ big_bytes s;
             let sig = sig @ big_bytes (key_X sk);
             let sig = sig @ big_bytes (key_Y sk);
             let p = New P;
             let p = Mstore P sig 0 p;
             let (p, dest) = Jumpdest P p;
             let p = StaticCall P GoNil (GoBytes [0x01, 0]) (GoInt 0) (GoInt 160) (GoInt 160) (GoInt 32) p;
             let p = Op P [vm_POP] p;
             let p = Jump P (GoUint64 dest) p;
             Some (Bytes P p, f)
           }
       }
   }"

subsection \<open>Modular exponentiation, BLAKE2 and the data precompiles\<close>

definition createModTestcase :: "'p program_api \<Rightarrow> lib \<Rightarrow> byte list \<Rightarrow> byte list \<Rightarrow> byte list \<Rightarrow> byte list" where
  "createModTestcase P X base ex md =
     (let p = New P;
          baseLen = be_bytes 4 (unat (of_nat (length base) :: u32));
          expLen = be_bytes 4 (unat (of_nat (length (replicate 4 (0 :: byte))) :: u32));
          modLen = be_bytes 4 (unat (of_nat (length md) :: u32));
          p = MstoreSmall P baseLen 0x00 p;
          p = MstoreSmall P [0x51] 0x20 p;
          p = MstoreSmall P [0x08] 0x40 p;
          p = Mstore P base 0x60 p;
          offset = 0x60 + (of_nat (length base) :: u32);
          p = Mstore P ex offset p;
          offset = offset + of_nat (length ex);
          p = Mstore P md offset p;
          offset = offset + of_nat (length md);
          (p, dest) = Jumpdest P p;
          p = StaticCall P (GoU256 (u256_NewInt X 0xffff)) (GoInt 0x5) (GoInt 0) (GoUint32 offset)
            (GoUint32 offset) (GoInt (int (length md))) p;
          p = Op P [vm_POP] p;
          p = Jump P (GoUint64 dest) p
      in Bytes P p)"

definition createRandomModexp :: "'p program_api \<Rightarrow> lib \<Rightarrow> test" where
  "createRandomModexp P X f = do {
     (n, f) \<leftarrow> Uint16 f;
     (base, f) \<leftarrow> ByteSlice (unat n) f;
     (n, f) \<leftarrow> Uint16 f;
     (ex, f) \<leftarrow> ByteSlice (unat n) f;
     (n, f) \<leftarrow> Uint16 f;
     (md, f) \<leftarrow> ByteSlice (unat n) f;
     Some (createModTestcase P X base ex md, f)
   }"

definition makeBlake2f :: "'p program_api \<Rightarrow> lib \<Rightarrow> test" where
  "makeBlake2f P X f = do {
     let input = replicate 213 0;
     let offset = 0;
     let rounds = (0x0ffffff :: u32);
     let input = copy_range input 0 4 (be_bytes 4 (unat rounds));
     let offset = offset + 4;
     ((offset, input), f) \<leftarrow> put_words 8 offset input f;
     ((offset, input), f) \<leftarrow> put_words 16 offset input f;
     ((offset, input), f) \<leftarrow> put_words 2 offset input f;
     (b, f) \<leftarrow> Bool f;
     (input, f) \<leftarrow>
       (if b then do {
          (x, f) \<leftarrow> Byte f;
          Some (input[212 := x], f)
        } else do {
          (b, f) \<leftarrow> Bool f;
          if b then Some (input[212 := 0], f) else Some (input[212 := 1], f)
        });
     let p = New P;
     let p = Mstore P input 0 p;
     let (p, dest) = Jumpdest P p;
     let p = StaticCall P GoNil (GoInt 0x9) (GoInt 0) (GoInt 213) (GoInt 213) (GoInt 64) p;
     let p = Op P [vm_POP] p;
     let p = Jump P (GoUint64 dest) p;
     Some (Bytes P p, f)
   }"

definition makeRipeMD :: "'p program_api \<Rightarrow> lib \<Rightarrow> test" where
  "makeRipeMD P X f = do {
     (n, f) \<leftarrow> Uint16 f;
     (d, f) \<leftarrow> ByteSlice (unat n) f;
     let p = New P;
     let p = Mstore P d 0 p;
     let (p, dest) = Jumpdest P p;
     let gas = 1000 + (length d + 31) div 32 * 120;
     let p = StaticCall P (GoU256 (u256_NewInt X (of_nat gas))) (GoInt 0x3) (GoInt 0) (GoInt (int (length d)))
       (GoInt 0) (GoInt 32) p;
     let p = Op P [vm_POP] p;
     let p = Jump P (GoUint64 dest) p;
     let p = Mstore P d 0 p;
     Some (Bytes P p, f)
   }"

definition makeDataCopy :: "'p program_api \<Rightarrow> lib \<Rightarrow> test" where
  "makeDataCopy P X f = do {
     (n, f) \<leftarrow> Uint16 f;
     (d, f) \<leftarrow> ByteSlice (unat n) f;
     let p = New P;
     let p = Mstore P d 0 p;
     let (p, dest) = Jumpdest P p;
     let gas = 100 + (length d + 31) div 32 * 3;
     let p = StaticCall P (GoU256 (u256_NewInt X (of_nat gas))) (GoInt 0x4) (GoInt 0) (GoInt (int (length d)))
       (GoInt 1) (GoInt (int (length d) - 1)) p;
     let p = Op P [vm_POP] p;
     let p = Jump P (GoUint64 dest) p;
     let p = Mstore P d 0 p;
     Some (Bytes P p, f)
   }"

subsection \<open>Edge cases\<close>

definition makeSnippet :: "'p program_api \<Rightarrow> test" where
  "makeSnippet P f = do {
     let p = New P;
     let (p, dest) = Jumpdest P p;
     (n, f) \<leftarrow> Byte f;
     (b, f) \<leftarrow> ByteSlice (unat n) f;
     let p = Append P b p;
     let p = Jump P (GoUint64 dest) p;
     Some (Bytes P p, f)
   }"

definition makeMstore :: "'p program_api \<Rightarrow> test" where
  "makeMstore P f = do {
     let p = New P;
     let p = Mstore P [0xff] 7000000 p;
     let p = Op P [vm_GAS] p;
     let (p, dest) = Jumpdest P p;
     let p = Op P [vm_MLOAD] p;
     let p = Jump P (GoUint64 dest) p;
     Some (Bytes P p, f)
   }"

definition makeMstore2 :: "'p program_api \<Rightarrow> test" where
  "makeMstore2 P f = do {
     let p = New P;
     let p = Push0 P p;
     let (p, dest) = Jumpdest P p;
     let p = Push P (GoInt 1) p;
     let p = Op P [vm_ADD] p;
     let p = Op P [vm_DUP1] p;
     let p = Op P [vm_DUP1] p;
     let p = Op P [vm_MSTORE] p;
     let p = Jump P (GoUint64 dest) p;
     Some (Bytes P p, f)
   }"

definition makeSStore :: "'p program_api \<Rightarrow> test" where
  "makeSStore P f = do {
     let p = New P;
     let (p, dest) = Jumpdest P p;
     let p = Op P [vm_ORIGIN] p;
     let p = Op P [vm_GAS] p;
     let p = Op P [vm_MUL] p;
     let p = Op P [vm_DUP1] p;
     let p = Op P [vm_SSTORE] p;
     let p = Jump P (GoUint64 dest) p;
     Some (Bytes P p, f)
   }"

definition makeSdiv :: "'p program_api \<Rightarrow> test" where
  "makeSdiv P f = do {
     let p = New P;
     let p = Push0 P p;
     let (p, dest) = Jumpdest P p;
     let p = Push0 P p;
     let p = Op P [vm_BLOCKHASH] p;
     let p = Op P [vm_SWAP1] p;
     let p = Op P [vm_SDIV] p;
     let p = Jump P (GoUint64 dest) p;
     Some (Bytes P p, f)
   }"

definition makeSStore2 :: "'p program_api \<Rightarrow> test" where
  "makeSStore2 P f = do {
     let p = New P;
     let p = Push0 P p;
     let p = Op P [vm_SLOAD] p;
     let (p, dest) = Jumpdest P p;
     let p = Push P (GoInt 1) p;
     let p = Op P [vm_ADD] p;
     let p = Op P [vm_DUP1] p;
     let p = Op P [vm_DUP1] p;
     let p = Op P [vm_SSTORE] p;
     let p = Op P [vm_GAS] p;
     let p = Push P (GoInt 80000) p;
     let p = Op P [vm_LT] p;
     let p = Push P (GoUint64 dest) p;
     let p = Op P [vm_JUMPI] p;
     let p = Push0 P p;
     let p = Push0 P p;
     let p = Op P [vm_SSTORE] p;
     Some (Bytes P p, f)
   }"

subsection \<open>The table\<close>

definition allTests ::
    "'p program_api \<Rightarrow> lib \<Rightarrow> (privkey \<Rightarrow> byte list \<Rightarrow> (nat \<times> nat) option) \<Rightarrow> test list" where
  "allTests P X sign =
    [makeSnippet P, makeEcrecover P X, makeBlake2f P X, createBN256Pairing P X, createRandomModexp P X,
     makeMstore P, makeSStore P, makeKZG P X, createBN256Mul P X, makeMstore2 P, makeSdiv P,
     makeSStore2 P, makeR1Recover P X sign, makeBLSMulExpG1 P X, makeBLSMulExpG2 P X, makeBLSAddG2 P X,
     makeBLSMapG1 P X, makeBLSMapG2 P X, makeBLSPairing P X, makeBLSAdd P X, createBN256Add P X,
     makeDataCopy P X, makeRipeMD P X, makeEcrecover P X]"

end
