(* ===== verification/BenchLoops.thy ===== *)
theory BenchLoops
  imports Benchmarks
begin

text \<open>
  Every benchmark program repeats its work: the code ends in a jump back to a valid destination, and
  the stack has the same height each time round, so that only the gas can end the loop.
\<close>

subsection \<open>What the builder is relied on\<close>

text \<open>
  \<open>c\<close> is straight-line code that takes the stack from height \<open>h\<close> to \<open>h'\<close>.  The methods of the builder
  that write data to memory leave the stack as it is, and a STATICCALL leaves its result.
\<close>

definition straight :: "nat \<Rightarrow> nat \<Rightarrow> byte list \<Rightarrow> bool" where
  "straight h h' c \<longleftrightarrow> aligned c \<and> run_height c h = Some h'"

definition builder_stack :: "'p program_api \<Rightarrow> bool" where
  "builder_stack P \<longleftrightarrow>
     (\<forall>d m p. \<exists>c. (\<forall>h. straight h h c) \<and> Bytes P (Mstore P d m p) = Bytes P p @ c) \<and>
     (\<forall>d m p. \<exists>c. (\<forall>h. straight h h c) \<and> Bytes P (MstoreSmall P d m p) = Bytes P p @ c) \<and>
     (\<forall>g a i j k l p. \<exists>c. (\<forall>h. straight h (h + 1) c) \<and>
        Bytes P (StaticCall P g a i j k l p) = Bytes P p @ c)"

lemma straight_Nil [simp]: "straight h h' [] \<longleftrightarrow> h' = h"
  by (auto simp: straight_def)

lemma straight_append: "straight h h' c \<Longrightarrow> straight h' h'' d \<Longrightarrow> straight h h'' (c @ d)"
  by (simp add: straight_def aligned_append run_height_append)

lemma straight_push: "is_push c \<Longrightarrow> straight h (h + 1) c"
  using run_height_push [of c "[]" h] by (simp add: straight_def aligned_push)

lemma straight_op:
  "push_len b = 0 \<Longrightarrow> effect b = Some (k, m) \<Longrightarrow> k \<le> h \<Longrightarrow> straight h (h - k + m) [b]"
  by (simp add: straight_def)

lemma push_sample_is_push: "is_push (push_sample v)"
  using push_sample_form [of v] by (auto simp: is_push_def)

lemma straight_pushes: "straight h (h + length vs) (concat (map push_sample vs))"
proof (induction vs arbitrary: h)
  case (Cons v vs)
  then show ?case
    using straight_append [OF straight_push [OF push_sample_is_push [of v], of h] Cons.IH [of "h + 1"]] by simp
qed simp

lemma straight_pops:
  "straight h (h + 1) (concat (map push_sample [a, b, c, d, e, g]) @ [vm_STATICCALL])"
  "straight h h (concat (map push_sample [a, b]) @ [vm_MSTORE])"
proof -
  have "push_len vm_STATICCALL = 0" "effect vm_STATICCALL = Some (6, 1)"
    "push_len vm_MSTORE = 0" "effect vm_MSTORE = Some (2, 0)"
    by (simp_all add: push_len_def effect_def)
  from straight_op [OF this(1,2), of "h + 6"] straight_op [OF this(3,4), of "h + 2"]
  have ops: "straight (h + 6) (h + 1) [vm_STATICCALL]" "straight (h + 2) h [vm_MSTORE]"
    by (simp_all add: numeral_eq_Suc)
  show "straight h (h + 1) (concat (map push_sample [a, b, c, d, e, g]) @ [vm_STATICCALL])"
    using straight_append [OF straight_pushes [of h "[a, b, c, d, e, g]"]] ops(1) by (simp add: numeral_eq_Suc)
  show "straight h h (concat (map push_sample [a, b]) @ [vm_MSTORE])"
    using straight_append [OF straight_pushes [of h "[a, b]"]] ops(2) by (simp add: numeral_eq_Suc)
qed

lemma straight_mstore_sample: "straight h h (mstore_sample n d off)"
proof (induction n d off rule: mstore_sample.induct)
  case (2 n d off)
  then show ?case
    using straight_append [OF straight_pops(2) [of h "GoBytes (take 32 (d @ replicate 31 0))" "GoInt (int off)"]]
    by simp
qed simp

lemma sample_builder_stack: "builder_stack sample_program"
  using straight_mstore_sample straight_pops
  by (simp add: builder_stack_def sample_program_def)

subsection \<open>A calculus of emitted code\<close>

text \<open>From \<open>p\<close> to \<open>q\<close> the builder has emitted straight-line code.\<close>

definition emitted :: "'p program_api \<Rightarrow> 'p \<Rightarrow> nat \<Rightarrow> 'p \<Rightarrow> nat \<Rightarrow> bool" where
  "emitted P p h q h' \<longleftrightarrow> (\<exists>c. straight h h' c \<and> Bytes P q = Bytes P p @ c)"

named_theorems emit_intro \<open>code emitted by one more method call\<close>

lemma emitted_refl [emit_intro]: "emitted P p h p h"
  by (simp add: emitted_def)

lemma emitted_step:
  assumes "emitted P p h q h'" and "straight h' h'' c" and "Bytes P r = Bytes P q @ c"
  shows "emitted P p h r h''"
  using assms straight_append unfolding emitted_def by (metis append.assoc)

lemma emitted_memory [emit_intro]:
  assumes "builder_stack P" and "emitted P p h q h'"
  shows "emitted P p h (Mstore P d m q) h'" "emitted P p h (MstoreSmall P d m q) h'"
proof -
  obtain c c' where "\<forall>h. straight h h c" "Bytes P (Mstore P d m q) = Bytes P q @ c"
    "\<forall>h. straight h h c'" "Bytes P (MstoreSmall P d m q) = Bytes P q @ c'"
    using assms(1) unfolding builder_stack_def by meson
  then show "emitted P p h (Mstore P d m q) h'" "emitted P p h (MstoreSmall P d m q) h'"
    using emitted_step [OF assms(2)] by blast+
qed

lemma emitted_StaticCall [emit_intro]:
  assumes "builder_stack P" and "emitted P p h q h'"
  shows "emitted P p h (StaticCall P g a i j k l q) (h' + 1)"
proof -
  obtain c where "\<forall>h. straight h (h + 1) c" "Bytes P (StaticCall P g a i j k l q) = Bytes P q @ c"
    using assms(1) unfolding builder_stack_def by meson
  then show ?thesis using emitted_step [OF assms(2)] by blast
qed

lemma emitted_Push [emit_intro]:
  assumes "program_laws P" and "emitted P p h q h'"
  shows "emitted P p h (Push P v q) (h' + 1)"
  using Push_is_push [OF assms(1), of v q] emitted_step [OF assms(2) straight_push] by blast

lemma emitted_Op [emit_intro]:
  assumes "program_laws P" and "emitted P p h q h'"
    and "push_len b = 0" and "effect b = Some (k, m)" and "k \<le> h'" and "h'' = h' - k + m"
  shows "emitted P p h (Op P [b] q) h''"
  using emitted_step [OF assms(2) straight_op [OF assms(3-5)]] Bytes_Op [OF assms(1)] assms(6) by blast

lemma emitted_Push0 [emit_intro]:
  assumes "program_laws P" and "emitted P p h q h'"
  shows "emitted P p h (Push0 P q) (h' + 1)"
proof -
  have "straight h' (h' + 1) [vm_PUSH0]"
    using straight_op [of vm_PUSH0 0 1 h'] by (simp add: push_len_def effect_def)
  then show ?thesis using emitted_step [OF assms(2)] Bytes_Push0 [OF assms(1)] by blast
qed

subsection \<open>Loops\<close>

text \<open>
  The code of a loop: straight-line code up to a JUMPDEST, a body that does not change the height of
  the stack except for a condition, and a jump back.
\<close>

definition loop_shape :: "byte list \<Rightarrow> bool" where
  "loop_shape code \<longleftrightarrow> (\<exists>pre body c b post h. code = pre @ [vm_JUMPDEST] @ body @ c @ [b] @ post \<and>
     straight 0 h pre \<and> straight h (h + (if b = vm_JUMPI then 1 else 0)) body \<and> b \<in> {vm_JUMP, vm_JUMPI} \<and>
     is_push c \<and> (length pre < 2 ^ 64 \<longrightarrow> be_val (tl c) = length pre))"

text \<open>
  The code repeats: from the start the stack reaches the destination \<open>d\<close> with some height, the body
  from \<open>d\<close> up to \<open>pc\<close> keeps it (\<open>b\<close> is 1 when it leaves a condition on top), and from there the
  EVM gets back to \<open>d\<close> in two steps.
\<close>

definition repeats :: "byte list \<Rightarrow> bool" where
  "repeats code \<longleftrightarrow> (\<exists>d pc h b. d < pc \<and> valid_dest code d \<and>
     straight 0 h (take d code) \<and> straight h (h + b) (drop (Suc d) (take pc code)) \<and> b \<le> 1 \<and>
     (\<forall>g s. evm_run g code 2 (pc, replicate b 1 @ s) = Some (d, s)))"

lemma loop_shape_append: "loop_shape code \<Longrightarrow> loop_shape (code @ rest)"
  unfolding loop_shape_def by (metis append.assoc)

lemma loop_shape_repeats:
  assumes "loop_shape code" and "length code < 2 ^ 64"
  shows "repeats code"
proof -
  obtain pre body c b post h where code: "code = pre @ [vm_JUMPDEST] @ body @ c @ [b] @ post"
    and pre: "straight 0 h pre" and body: "straight h (h + (if b = vm_JUMPI then 1 else 0)) body"
    and b: "b = vm_JUMP \<or> b = vm_JUMPI" and c: "is_push c" "length pre < 2 ^ 64 \<longrightarrow> be_val (tl c) = length pre"
    using assms(1) unfolding loop_shape_def by blast
  define d where "d = length pre"
  define pc where "pc = d + 1 + length body"
  have d: "d < 2 ^ 64" using assms(2) by (simp add: code d_def)
  then have num: "be_val (tl c) = d" "unat (of_nat d :: u256) = d"
    using c(2) by (simp_all add: d_def unat_of_nat)
  have dest: "valid_dest code d"
    using dests_append [of pre 0 "[vm_JUMPDEST] @ body @ c @ [b] @ post"] pre
    by (simp add: valid_dest_def code straight_def d_def push_len_def)
  have "code_at code pc (c @ [b])"
    unfolding code_at_def by (intro exI [of _ "pre @ [vm_JUMPDEST] @ body"] exI [of _ post]) (simp add: code pc_def d_def)
  then have at: "code_at code pc c" "code_at code (pc + length c) [b]" by (simp_all add: code_at_append)
  have push: "evm_step g code (pc, s) = Some (pc + length c, of_nat d # s)" for g s
    using step_push [OF at(1) c(1)] by (simp add: num)
  have "evm_run g code 2 (pc, replicate (if b = vm_JUMPI then 1 else 0) 1 @ s) = Some (d, s)" for g s
    using b at(2) dest by (auto simp: numeral_2_eq_2 push step_ops num)
  moreover have "take d code = pre" "drop (Suc d) (take pc code) = body"
    by (simp_all add: code d_def pc_def)
  ultimately show ?thesis
    unfolding repeats_def using dest pre body
    by (intro exI [of _ d] exI [of _ pc] exI [of _ h] exI [of _ "if b = vm_JUMPI then 1 else 0"])
      (simp add: pc_def)
qed

lemma loop_back:
  assumes P: "program_laws P" and pre: "emitted P (New P) 0 p h" and b: "b \<in> {vm_JUMP, vm_JUMPI}"
    and body: "emitted P (fst (Jumpdest P p)) h q (h + (if b = vm_JUMPI then 1 else 0))"
  shows "loop_shape (Bytes P (Op P [b] (Push P (GoUint64 (snd (Jumpdest P p))) q)))"
proof -
  obtain a where a: "straight 0 h a" "Bytes P p = a"
    using pre by (auto simp: emitted_def Bytes_New [OF P])
  obtain c where c: "straight h (h + (if b = vm_JUMPI then 1 else 0)) c" "Bytes P q = Bytes P p @ [vm_JUMPDEST] @ c"
    using body by (auto simp: emitted_def Bytes_Jumpdest [OF P])
  define v where "v = GoUint64 (snd (Jumpdest P p))"
  have "goval_nat v < 2 ^ 256" using unsigned_less [of "snd (Jumpdest P p)", where ?'a = nat] by (simp add: v_def)
  then obtain e where e: "is_push e" "be_val (tl e) = goval_nat v" "Bytes P (Push P v q) = Bytes P q @ e"
    using Push_num [OF P, of v q] by (auto simp: pushes_num_def)
  have "goval_nat v = length a" if "length a < 2 ^ 64"
    using that a(2) by (simp add: v_def pc_Jumpdest [OF P] unat_of_nat)
  then show ?thesis
    unfolding loop_shape_def v_def [symmetric] Bytes_Op [OF P] e(3) c(2) a(2)
    using a(1) c(1) e(1,2) b
    by (intro exI [of _ a] exI [of _ c] exI [of _ e] exI [of _ b] exI [of _ "[]"] exI [of _ h]) simp
qed

lemma loop_shape_Jump:
  "program_laws P \<Longrightarrow> Jumpdest P p = (p1, dest) \<Longrightarrow> emitted P (New P) 0 p h \<Longrightarrow> emitted P p1 h q h' \<Longrightarrow>
    h' = h \<Longrightarrow> loop_shape (Bytes P (Jump P (GoUint64 dest) q))"
  using loop_back [of P p h vm_JUMP q] by (simp add: Bytes_Jump Bytes_Op)

lemma loop_shape_JumpI:
  "program_laws P \<Longrightarrow> Jumpdest P p = (p1, dest) \<Longrightarrow> emitted P (New P) 0 p h \<Longrightarrow> emitted P p1 h q h' \<Longrightarrow>
    h' = h + 1 \<Longrightarrow> loop_shape (Bytes P (Op P [vm_JUMPI] (Push P (GoUint64 dest) q)))"
  using loop_back [of P p h vm_JUMPI q] by simp

lemma loop_shape_grows: "grows P g \<Longrightarrow> loop_shape (Bytes P p) \<Longrightarrow> loop_shape (Bytes P (g p))"
  unfolding grows_def prefix_def by (metis loop_shape_append)

subsection \<open>The programs\<close>

lemma op_table [emit_intro]:
  "push_len vm_POP = 0" "push_len vm_GAS = 0" "push_len vm_MLOAD = 0" "push_len vm_ADD = 0"
  "push_len vm_DUP1 = 0" "push_len vm_MSTORE = 0" "push_len vm_ORIGIN = 0" "push_len vm_MUL = 0"
  "push_len vm_SSTORE = 0" "push_len vm_SLOAD = 0" "push_len vm_BLOCKHASH = 0" "push_len vm_SWAP1 = 0"
  "push_len vm_SDIV = 0" "push_len vm_LT = 0"
  "effect vm_POP = Some (1, 0)" "effect vm_GAS = Some (0, 1)" "effect vm_MLOAD = Some (1, 1)"
  "effect vm_ADD = Some (2, 1)" "effect vm_DUP1 = Some (1, 2)" "effect vm_MSTORE = Some (2, 0)"
  "effect vm_ORIGIN = Some (0, 1)" "effect vm_MUL = Some (2, 1)" "effect vm_SSTORE = Some (2, 0)"
  "effect vm_SLOAD = Some (1, 1)" "effect vm_BLOCKHASH = Some (1, 1)" "effect vm_SWAP1 = Some (2, 2)"
  "effect vm_SDIV = Some (2, 1)" "effect vm_LT = Some (2, 1)"
  by (simp_all add: push_len_def effect_def word_le_nat_alt)

text \<open>The loops that write the input keep emitting straight-line code.\<close>

lemma emitted_MulExpG1_loop:
  assumes "builder_stack P" and "lib_laws X"
  shows "emitted P p0 h p h \<Longrightarrow> fills f (makeBLSMulExpG1_loop P X n i p f) (\<lambda>q. emitted P p0 h q h)"
proof (induction n arbitrary: i p f)
  case (Suc n)
  then show ?case by (auto simp: Let_def intro!: fill_intro emitted_memory assms Suc.IH)
qed (auto intro!: fill_intro)

lemma emitted_MulExpG2_loop:
  assumes "builder_stack P" and "lib_laws X"
  shows "emitted P p0 h p h \<Longrightarrow> fills f (makeBLSMulExpG2_loop P X n i p f) (\<lambda>q. emitted P p0 h q h)"
proof (induction n arbitrary: i p f)
  case (Suc n)
  then show ?case by (auto simp: Let_def intro!: fill_intro emitted_memory assms Suc.IH)
qed (auto intro!: fill_intro)

lemma emitted_pairing_loops:
  assumes P: "builder_stack P"
  shows "length (cs :: g1 list) = length (ts :: g2 list) \<Longrightarrow> emitted P p0 h p h \<Longrightarrow>
      \<exists>q. makeBLSPairing_loop P X cs ts offset p = Some q \<and> emitted P p0 h q h"
    and "length (cs :: g1 list) = length (ts :: g2 list) \<Longrightarrow> emitted P p0 h p h \<Longrightarrow>
      \<exists>q. createBN256Pairing_loop P X cs ts offset p = Some q \<and> emitted P p0 h q h"
  by (induction cs ts arbitrary: offset p rule: list_induct2) (simp_all add: Let_def emitted_memory P)

lemma fills_pairing_loops [fill_intro]:
  assumes "builder_stack P" and "length cs = length ts" and "emitted P p0 h p h"
    and "\<And>q. emitted P p0 h q h \<Longrightarrow> fills f (k q) Q"
  shows "fills f (makeBLSPairing_loop P X cs ts offset p \<bind> k) Q"
    and "fills f (createBN256Pairing_loop P X cs ts offset p \<bind> k) Q"
  using emitted_pairing_loops [OF assms(1,2,3), of X offset] assms(4) by fastforce+

lemmas fills_bind_MulExp [fill_intro] =
  fills_bind [OF emitted_MulExpG1_loop] fills_bind [OF emitted_MulExpG2_loop]

lemma loops_BLS:
  assumes "program_laws P" and "builder_stack P" and "lib_laws X"
  shows "fills f (makeBLSAdd P X f) loop_shape" "fills f (makeBLSAddG2 P X f) loop_shape"
    "fills f (makeBLSMapG1 P X f) loop_shape" "fills f (makeBLSMapG2 P X f) loop_shape"
  unfolding makeBLSAdd_def makeBLSAddG2_def makeBLSMapG1_def makeBLSMapG2_def Let_def
  by (intro fill_intro assms; (rule loop_shape_Jump emit_intro assms | assumption | simp)+)+

lemma loops_BN:
  assumes "program_laws P" and "builder_stack P"
  shows "fills f (createBN256Mul P X f) loop_shape" "fills f (createBN256Add P X f) loop_shape"
  unfolding createBN256Mul_def createBN256Add_def Let_def
  by (intro fill_intro assms; (rule loop_shape_Jump emit_intro assms | assumption | simp)+)+

lemma loops_edge:
  assumes "program_laws P" and "builder_stack P"
  shows "fills f (makeMstore P f) loop_shape" "fills f (makeMstore2 P f) loop_shape"
    "fills f (makeSStore P f) loop_shape" "fills f (makeSdiv P f) loop_shape"
  unfolding makeMstore_def makeMstore2_def makeSStore_def makeSdiv_def Let_def
  by (intro fill_intro assms; (rule loop_shape_Jump emit_intro assms | assumption | simp)+)+

lemma loop_createModTestcase:
  assumes "program_laws P" and "builder_stack P"
  shows "loop_shape (createModTestcase P X base ex md)"
  unfolding createModTestcase_def Let_def
  by (split prod.split, intro allI impI, (rule loop_shape_Jump emit_intro assms | assumption | simp)+)

lemma loops_data:
  assumes "program_laws P" and "builder_stack P"
  shows "fills f (makeRipeMD P X f) loop_shape" "fills f (makeDataCopy P X f) loop_shape"
    "fills f (createRandomModexp P X f) loop_shape"
  unfolding makeRipeMD_def makeDataCopy_def createRandomModexp_def Let_def
  by (intro fill_intro assms; (rule loop_shape_Jump loop_createModTestcase loop_shape_grows grows_methods emit_intro assms | assumption | simp)+)+

lemma loops_rounds:
  assumes "program_laws P" and "builder_stack P" and "lib_laws X"
  shows "fills f (makeBLSMulExpG1 P X f) loop_shape" "fills f (makeBLSMulExpG2 P X f) loop_shape"
  unfolding makeBLSMulExpG1_def makeBLSMulExpG2_def Let_def
  by (intro fill_intro emit_intro assms; (rule loop_shape_Jump emit_intro assms | assumption | simp)+)+

lemma loops_pairings:
  assumes "program_laws P" and "builder_stack P" and "lib_laws X"
  shows "fills f (makeBLSPairing P X f) loop_shape" "fills f (createBN256Pairing P X f) loop_shape"
  unfolding makeBLSPairing_def createBN256Pairing_def Let_def
  by (intro fill_intro emitted_refl assms; (rule loop_shape_Jump emit_intro assms | assumption | simp)+)+

lemma loop_makeBlake2f:
  assumes "program_laws P" and "builder_stack P"
  shows "fills f (makeBlake2f P X f) loop_shape"
proof -
  have flag: "fills f (if b then do { (x, f) \<leftarrow> Byte f; Some (input[212 := x], f) }
      else do { (b, f) \<leftarrow> Bool f; if b then Some (input[212 := 0], f) else Some (input[212 := 1], f) }) (\<lambda>_. True)"
    for f b and input :: "byte list"
    by (intro fill_intro)
  show ?thesis
    unfolding makeBlake2f_def Let_def
    by (intro fill_intro fills_bind [OF fills_put_words] fills_bind [OF flag] assms;
        (rule loop_shape_Jump emit_intro assms | assumption | simp)+)
qed

lemma fills_key:
  assumes "lib_laws X" and "lib_succeeds X" and "\<And>sk f'. fills f' (k (Some sk) f') Q"
  shows "fills f (read_via (ecdsa_GenerateKey X c) f \<bind> (\<lambda>(a, f'). k a f')) Q"
proof -
  obtain sk f' where "ecdsa_GenerateKey X c f = (Some sk, f')"
    using lib_succeedsD(3) [OF assms(2), of c f] by (cases "ecdsa_GenerateKey X c f") auto
  moreover from this have "\<exists>n. f' = advance n f" if "filler_ok f"
    using assms(1) that unfolding lib_laws_def by (metis snd_conv)
  ultimately have "fills f (read_via (ecdsa_GenerateKey X c) f) (\<lambda>a. a \<noteq> None)"
    by (auto simp: fills_def read_via_def)
  from fills_bind [OF this] assms(3) show ?thesis by fastforce
qed

lemma loops_signatures:
  assumes "program_laws P" and "builder_stack P" and "lib_laws X" and "lib_succeeds X"
    and sign: "\<And>k h. sign k h \<noteq> None"
  shows "fills f (makeKZG P X f) loop_shape" "fills f (makeEcrecover P X f) loop_shape"
    "fills f (makeR1Recover P X sign f) loop_shape"
proof -
  show "fills f (makeKZG P X f) loop_shape"
    unfolding makeKZG_def Let_def
    by (intro fill_intro assms; (rule loop_shape_Jump emit_intro assms | assumption | simp)+)
  show "fills f (makeEcrecover P X f) loop_shape"
    unfolding makeEcrecover_def Let_def
    by (rule fills_key [OF assms(3,4)], simp only: option.case, intro fill_intro;
        (rule loop_shape_Jump emit_intro assms | assumption | simp add: lib_succeedsD(4) [OF assms(4)] del: not_None_eq
          | drule crypto_Sign_length [OF assms(3)], simp)+)
  show "fills f (makeR1Recover P X sign f) loop_shape"
    unfolding makeR1Recover_def Let_def
    by (rule fills_key [OF assms(3,4)], simp only: option.case, intro fill_intro;
        (rule loop_shape_Jump emit_intro assms | assumption | simp add: sign del: not_None_eq)+)
qed

lemma loop_makeSStore2:
  assumes "program_laws P"
  shows "fills f (makeSStore2 P f) loop_shape"
  unfolding makeSStore2_def Let_def
  by (intro fill_intro assms; (rule loop_shape_JumpI loop_shape_grows [OF grows_methods(1)]
      loop_shape_grows [OF grows_methods(3)] emit_intro assms | assumption | simp)+)

subsection \<open>Properties\<close>

lemma loops_table:
  assumes "program_laws P" and "builder_stack P" and "lib_laws X" and "lib_succeeds X"
    and "\<And>k h. sign k h \<noteq> None"
  shows "list_all (\<lambda>t. \<forall>f. fills f (t f) loop_shape) (tl (allTests P X sign))"
  unfolding allTests_def list.sel(3) list.pred_inject(2)
  by (intro conjI allI list.pred_inject(1) loops_BLS [OF assms(1-3)] loops_BN [OF assms(1,2)] loops_edge [OF assms(1,2)]
      loops_data [OF assms(1,2)] loops_rounds [OF assms(1-3)] loops_pairings [OF assms(1-3)]
      loop_makeBlake2f [OF assms(1,2)] loops_signatures [where sign = sign, OF assms] loop_makeSStore2 [OF assms(1)])



end
