(* ===== verification/Callees.thy ===== *)
theory Callees
  imports Fuzzer BenchLoops
begin

text \<open>
  Contracts to be called and the genesis accounts they are written out in, and the programs that call
  many accounts (\<open>cmd/precompileBench/main.go\<close>).  Random bytes are arguments; the operating system is
  that of the fuzzing driver; a panic is \<open>None\<close>.
\<close>

subsection \<open>Contracts\<close>

text \<open>\<open>rand n\<close> are the bytes that \<open>rand.Read\<close> fills a slice of length \<open>n\<close> with.\<close>

definition randomCalleeContract :: "'p program_api \<Rightarrow> (nat \<Rightarrow> byte list) \<Rightarrow> int \<Rightarrow> byte list option" where
  "randomCalleeContract P rand sz = do {
     let p = New P;
     let p = Jump P (GoInt (sz - 5)) p;
     rnd \<leftarrow> (if sz - 128 - 5 < 0 then None else Some (rand (nat (sz - 128 - 5))));
     let p = Append P rnd p;
     let p = (Op P [vm_JUMPDEST] ^^ 128) p;
     Some (Bytes P p)
   }"

definition jumpdestCalleeContract :: "'p program_api \<Rightarrow> int \<Rightarrow> byte list option" where
  "jumpdestCalleeContract P sz =
     (let p = New P;
          p = Jump P (GoInt (sz - 5)) p;
          p = (Op P [vm_JUMPDEST] ^^ nat (sz - 128 - 5)) p;
          p = (Op P [vm_JUMPDEST] ^^ 128) p
      in Some (Bytes P p))"

definition push2CalleeContract :: "'p program_api \<Rightarrow> int \<Rightarrow> byte list option" where
  "push2CalleeContract P sz =
     (let p = New P;
          p = Jump P (GoInt (sz - 5)) p;
          p = ((\<lambda>p. let p = Op P [vm_PUSH2] p in Append P [0xff, 0xff] p) ^^ nat (sz - 128 - 5)) p;
          p = (Op P [vm_JUMPDEST] ^^ 128) p
      in Some (Bytes P p))"

text \<open>The callers; \<open>rnds i\<close> is the \<open>i\<close>-th random address.\<close>

fun callerContract_loop ::
    "'p program_api \<Rightarrow> lib \<Rightarrow> (nat \<Rightarrow> byte list) \<Rightarrow> nat \<Rightarrow> nat \<Rightarrow> address list \<Rightarrow> 'p \<Rightarrow> 'p \<times> address list" where
  "callerContract_loop P X rnds 0 i accounts p = (p, accounts)"
| "callerContract_loop P X rnds (Suc n) i accounts p =
     (let rnd = rnds i;
          acc = BytesToAddress X rnd;
          accounts = accounts @ [acc];
          p = StaticCall P GoNil (GoAddress acc) (GoInt 0) (GoInt 0) (GoInt 0) (GoInt 0) p;
          p = Op P [vm_POP] p
      in callerContract_loop P X rnds n (i + 1) accounts p)"

definition callerContract ::
    "'p program_api \<Rightarrow> lib \<Rightarrow> (nat \<Rightarrow> byte list) \<Rightarrow> nat \<Rightarrow> byte list \<times> address list" where
  "callerContract P X rnds count =
     (let accounts = [];
          p = New P;
          (p, accounts) = callerContract_loop P X rnds count 0 accounts p
      in (Bytes P p, accounts))"

fun callerContract2_loop ::
    "'p program_api \<Rightarrow> lib \<Rightarrow> (nat \<Rightarrow> byte list) \<Rightarrow> nat \<Rightarrow> nat \<Rightarrow> address list \<Rightarrow> 'p \<Rightarrow> 'p \<times> address list" where
  "callerContract2_loop P X rnds 0 i accounts p = (p, accounts)"
| "callerContract2_loop P X rnds (Suc n) i accounts p =
     (let rnd = rnds i;
          acc = BytesToAddress X rnd;
          accounts = accounts @ [acc];
          p = Push P (GoAddress acc) p;
          p = Op P [vm_EXTCODESIZE] p;
          p = Op P [vm_POP] p
      in callerContract2_loop P X rnds n (i + 1) accounts p)"

definition callerContract2 ::
    "'p program_api \<Rightarrow> lib \<Rightarrow> (nat \<Rightarrow> byte list) \<Rightarrow> nat \<Rightarrow> byte list \<times> address list" where
  "callerContract2 P X rnds count =
     (let accounts = [];
          p = New P;
          (p, accounts) = callerContract2_loop P X rnds count 0 accounts p
      in (Bytes P p, accounts))"

subsection \<open>Accounts\<close>

text \<open>An account without storage or balance.\<close>

definition callee_account :: "byte list \<Rightarrow> GenesisAccount" where
  "callee_account code = \<lparr>ga_Code = code, ga_Storage = Map.empty, ga_Balance = 0, ga_Nonce = 1\<rparr>"

text \<open>\<open>codeFn i sz\<close> is the result of the \<open>i\<close>-th call of the contract function.\<close>

type_synonym contract = "nat \<Rightarrow> int \<Rightarrow> byte list option"

definition calleeAddress :: "lib \<Rightarrow> byte \<Rightarrow> nat \<Rightarrow> address" where
  "calleeAddress X offset i =
     (let rawAddr = replicate 20 0;
          rawAddr = copy_range rawAddr 1 3 (be_bytes 2 (unat (of_nat i :: u16)));
          rawAddr = rawAddr[0 := offset]
      in BytesToAddress X rawAddr)"

fun calleeAccounts ::
    "lib \<Rightarrow> byte \<Rightarrow> int \<Rightarrow> contract \<Rightarrow> nat \<Rightarrow> nat \<Rightarrow> (address \<rightharpoonup> GenesisAccount) \<Rightarrow> (address \<rightharpoonup> GenesisAccount) option"
where
  "calleeAccounts X offset sz codeFn 0 i accounts = Some accounts"
| "calleeAccounts X offset sz codeFn (Suc n) i accounts = do {
     let acc = calleeAddress X offset i;
     code \<leftarrow> codeFn i sz;
     let accounts = accounts(acc \<mapsto> callee_account code);
     calleeAccounts X offset sz codeFn n (i + 1) accounts
   }"

text \<open>\<open>encode\<close> is the JSON encoding of the accounts, \<open>None\<close> when it fails.\<close>

definition writeCalleeAccounts ::
    "lib \<Rightarrow> ('w, 'e) os \<Rightarrow> ((address \<rightharpoonup> GenesisAccount) \<Rightarrow> byte list option) \<Rightarrow>
      string \<Rightarrow> byte \<Rightarrow> nat \<Rightarrow> int \<Rightarrow> contract \<Rightarrow> 'w \<Rightarrow> 'w option"
where
  "writeCalleeAccounts X S encode name offset count sz codeFn w = do {
     accounts \<leftarrow> calleeAccounts X offset sz codeFn count 0 Map.empty;
     let path = name @ ''.json'';
     case os_OpenFile S w path of
       (Some err, w) \<Rightarrow> None
     | (None, w) \<Rightarrow>
         (case encode accounts of
            None \<Rightarrow> None
          | Some bs \<Rightarrow>
              (case os_Write S w path bs of
                 (Some err, w) \<Rightarrow> None
               | (None, w) \<Rightarrow> Some w))
   }"

text \<open>\<open>rand k i n\<close> are the random bytes of the \<open>i\<close>-th account of file \<open>k\<close>.\<close>

definition writeOutAllCalleeAccounts ::
    "'p program_api \<Rightarrow> lib \<Rightarrow> ('w, 'e) os \<Rightarrow> ((address \<rightharpoonup> GenesisAccount) \<Rightarrow> byte list option) \<Rightarrow>
      (nat \<Rightarrow> nat \<Rightarrow> nat \<Rightarrow> byte list) \<Rightarrow> 'w \<Rightarrow> 'w option"
where
  "writeOutAllCalleeAccounts P X S encode rand w = do {
     let random = (\<lambda>k i. randomCalleeContract P (rand k i));
     w \<leftarrow> writeCalleeAccounts X S encode ''random_128_24k'' 1 128 (24 * 1024) (random 1) w;
     w \<leftarrow> writeCalleeAccounts X S encode ''random_12000_24k'' 2 12000 (24 * 1024) (random 2) w;
     w \<leftarrow> writeCalleeAccounts X S encode ''random_12000_48k'' 3 12000 (48 * 1024) (random 3) w;
     w \<leftarrow> writeCalleeAccounts X S encode ''random_12000_96k'' 4 12000 (96 * 1024) (random 4) w;
     w \<leftarrow> writeCalleeAccounts X S encode ''random_12000_128k'' 5 12000 (128 * 1024) (random 5) w;
     w \<leftarrow> writeCalleeAccounts X S encode ''random_37888_48k'' 6 (37 * 1024) (48 * 1024) (random 6) w;
     w \<leftarrow> writeCalleeAccounts X S encode ''push2_12000_48k'' 7 12000 (48 * 1024) (\<lambda>i. push2CalleeContract P) w;
     writeCalleeAccounts X S encode ''jumpdest_12000_48k'' 8 12000 (48 * 1024) (\<lambda>i. jumpdestCalleeContract P) w
   }"

text \<open>The program writes the files; the search for the slowest program is commented out in \<open>main\<close>.\<close>

definition bench_main ::
    "'p program_api \<Rightarrow> lib \<Rightarrow> ('w, 'e) os \<Rightarrow> ((address \<rightharpoonup> GenesisAccount) \<Rightarrow> byte list option) \<Rightarrow>
      (nat \<Rightarrow> nat \<Rightarrow> nat \<Rightarrow> byte list) \<Rightarrow> 'w \<Rightarrow> 'w option"
where
  "bench_main P X S encode rand w = do {
     w \<leftarrow> writeOutAllCalleeAccounts P X S encode rand w;
     Some w
   }"

subsection \<open>Running a contract\<close>

lemma dests_replicate: "dests i (replicate n vm_JUMPDEST) = [i..<i + n]"
proof (induction n arbitrary: i)
  case (Suc n)
  have "push_len vm_JUMPDEST = 0" by (simp add: push_len_def)
  with Suc [of "Suc i"] show ?case by (simp add: upt_rec)
qed simp

text \<open>
  A push swallows at most 32 bytes: behind any code, the JUMPDESTs of a sled from the 32nd on are
  valid destinations.
\<close>

lemma sled_dest:
  "32 \<le> k \<Longrightarrow> k < n \<Longrightarrow> i + length xs + k \<in> set (dests i (xs @ replicate n vm_JUMPDEST))"
proof (induction xs arbitrary: i rule: aligned.induct)
  case 1
  then show ?case by (simp add: dests_replicate)
next
  case (2 b bs)
  define m where "m = push_len b"
  have m: "m \<le> 32" using push_len_le by (simp add: m_def)
  have "i + 1 + length bs + k \<in> set (dests (i + 1 + m) (drop m (bs @ replicate n vm_JUMPDEST)))"
  proof (cases "m \<le> length bs")
    case True
    with 2 show ?thesis using "2.IH" [of "i + 1 + m"] by (simp add: m_def)
  next
    case False
    with 2(2,3) m show ?thesis by (simp add: dests_replicate) linarith
  qed
  then show ?case by (simp add: m_def)
qed

lemma dests_byte: "x \<in> set (dests i bs) \<Longrightarrow> bs ! (x - i) = vm_JUMPDEST"
proof (induction i bs rule: dests.induct)
  case (2 i b bs)
  define m where "m = push_len b"
  show ?case
  proof (cases "x \<in> set (dests (i + 1 + m) (drop m bs))")
    case True
    with "2.IH" have "drop m bs ! (x - (i + 1 + m)) = vm_JUMPDEST" by (simp add: m_def)
    moreover from dests_range [OF True] have "i + 1 + m \<le> x" "x < i + 1 + m + length (drop m bs)" by simp_all
    ultimately show ?thesis
    proof -
      assume a: "drop m bs ! (x - (i + 1 + m)) = vm_JUMPDEST" "i + 1 + m \<le> x" "x < i + 1 + m + length (drop m bs)"
      then have "m \<le> length bs" by (cases "m \<le> length bs") simp_all
      with a have "bs ! (m + (x - (i + 1 + m))) = vm_JUMPDEST" by simp
      moreover have "x - i = Suc (m + (x - (i + 1 + m)))" using a(2) by simp
      ultimately show ?thesis by simp
    qed
  next
    case False
    with 2(2) have "x = i" "b = vm_JUMPDEST" by (auto simp: m_def split: if_splits)
    then show ?thesis by simp
  qed
qed simp

lemma sled_run: "code_at code pc (replicate n vm_JUMPDEST) \<Longrightarrow> evm_run g code n (pc, s) = Some (pc + n, s)"
proof (induction n arbitrary: pc)
  case (Suc n)
  have at: "code_at code pc ([vm_JUMPDEST] @ replicate n vm_JUMPDEST)" using Suc.prems by simp
  then have "code_at code pc [vm_JUMPDEST]" "code_at code (Suc pc) (replicate n vm_JUMPDEST)"
    unfolding code_at_append by simp_all
  with Suc.IH [of "Suc pc"] show ?case by (simp add: step_ops)
qed simp

lemma Bytes_Op_pow:
  "program_laws P \<Longrightarrow> Bytes P ((Op P [b] ^^ n) p) = Bytes P p @ replicate n b"
  by (induction n) (simp_all add: Bytes_Op replicate_append_same)

text \<open>The jump at the start of the contracts.\<close>

lemma callee_jump:
  assumes P: "program_laws P" and sz: "5 \<le> sz" "sz < 2 ^ 256"
  obtains j where "Bytes P (Jump P (GoInt (sz - 5)) (New P)) = j" "3 \<le> length j" "length j \<le> 34" "aligned j"
    and "\<And>rest g s. evm_run g (j @ rest) 2 (0, s) =
      (if valid_dest (j @ rest) (nat (sz - 5)) then Some (nat (sz - 5), s) else None)"
proof -
  have small: "goval_nat (GoInt (sz - 5)) < 2 ^ 256" using sz by (simp add: nat_less_iff)
  obtain c where c: "pushes_num (nat (sz - 5)) c" "Bytes P (Push P (GoInt (sz - 5)) (New P)) = c"
    using Push_num [OF P small, of "New P"] by (auto simp: Bytes_New [OF P])
  have push: "is_push c" using c(1) by (simp add: pushes_num_def)
  then have len: "2 \<le> length c" "length c \<le> 33" and al: "aligned c"
    by (auto simp: is_push_def Suc_le_eq aligned_push)
  have "unat (of_nat (nat (sz - 5)) :: u256) = nat (sz - 5)"
    using small by (simp add: unat_of_nat)
  moreover have "code_at ((c @ [vm_JUMP]) @ rest) 0 (c @ [vm_JUMP])" for rest
    unfolding code_at_def by (intro exI [of _ "[]"] exI [of _ rest]) simp
  then have "code_at ((c @ [vm_JUMP]) @ rest) 0 c" "code_at ((c @ [vm_JUMP]) @ rest) (length c) [vm_JUMP]" for rest
    using code_at_append [of _ 0 c "[vm_JUMP]"] by auto
  ultimately have "evm_run g ((c @ [vm_JUMP]) @ rest) 2 (0, s) =
      (if valid_dest ((c @ [vm_JUMP]) @ rest) (nat (sz - 5)) then Some (nat (sz - 5), s) else None)" for rest g s
    using step_pushes_num [OF _ c(1), of "(c @ [vm_JUMP]) @ rest" 0]
    by (simp add: numeral_2_eq_2 step_ops del: append_assoc)
  then show ?thesis
    using len al c(2) by (intro that [of "c @ [vm_JUMP]"]) (simp_all add: Bytes_Jump [OF P] aligned_append push_len_def)
qed

lemma sled_contract:
  assumes j: "3 \<le> length j" "length j \<le> 34" "aligned j"
    and run: "\<And>rest g s. evm_run g (j @ rest) 2 (0, s) =
      (if valid_dest (j @ rest) (nat (sz - 5)) then Some (nat (sz - 5), s) else None)"
    and sz: "133 \<le> sz" and xs: "length xs = nat (sz - 133)"
  shows "evm_run g (j @ xs @ replicate 128 vm_JUMPDEST) (length j + 2) (0, s) =
      Some (nat sz + length j - 5, s)"
    and "length (j @ xs @ replicate 128 vm_JUMPDEST) = nat sz + length j - 5"
proof -
  define code where "code = j @ xs @ replicate 128 vm_JUMPDEST"
  define k where "k = 128 - length j"
  have pos: "nat (sz - 5) = length j + length xs + k" using j sz xs by (simp add: k_def nat_diff_distrib)
  have k: "32 \<le> k" "k < 128" using j by (simp_all add: k_def)
  have "valid_dest code (nat (sz - 5))"
    using sled_dest [OF k, of "length j" xs] dests_append [OF j(3), of 0 "xs @ replicate 128 vm_JUMPDEST"]
    by (simp add: valid_dest_def code_def pos add.assoc)
  then have 1: "evm_run h code 2 (0, s) = Some (nat (sz - 5), s)" for h
    using run [of h "xs @ replicate 128 vm_JUMPDEST" s] by (simp add: code_def)
  have "replicate 128 vm_JUMPDEST = replicate k vm_JUMPDEST @ replicate (length j) vm_JUMPDEST"
    using j by (simp add: k_def flip: replicate_add)
  then have "code_at code (nat (sz - 5)) (replicate (length j) vm_JUMPDEST)"
    unfolding code_at_def
    by (intro exI [of _ "j @ xs @ replicate k vm_JUMPDEST"] exI [of _ "[]"]) (simp add: code_def pos)
  from sled_run [OF this] have "evm_run h code (length j) (nat (sz - 5), s) = Some (nat (sz - 5) + length j, s)" for h .
  with 1 have "evm_run g code (2 + length j) (0, s) = Some (nat (sz - 5) + length j, s)"
    unfolding evm_run_add by simp
  then show "evm_run g (j @ xs @ replicate 128 vm_JUMPDEST) (length j + 2) (0, s) = Some (nat sz + length j - 5, s)"
    using sz by (simp add: add.commute nat_diff_distrib flip: code_def)
  show "length (j @ xs @ replicate 128 vm_JUMPDEST) = nat sz + length j - 5"
    using j sz xs by (simp add: nat_diff_distrib)
qed

text \<open>A contract of random bytes, whatever they are, and one of JUMPDESTs can be called: the jump at
  the start lands in the sled at the end, on a valid destination even when the random bytes end in a
  PUSH, and the run reaches the end of the code with the stack it started with.  The code is as long as
  asked for up to the length of the jump, which the constant 5 stands for.\<close>

theorem callee_contracts_run:
  assumes "program_laws P" and "\<And>n. length (rand n) = n" and "133 \<le> sz" and "sz < 2 ^ 256"
    and "codeFn = randomCalleeContract P rand \<or> codeFn = jumpdestCalleeContract P"
  shows "\<exists>code jump. codeFn sz = Some code \<and> length code = nat sz + jump - 5 \<and> 3 \<le> jump \<and> jump \<le> 34 \<and>
    (\<forall>g s. evm_run g code (jump + 2) (0, s) = Some (length code, s))"
proof -
  have "5 \<le> sz" using assms(3) by simp
  from callee_jump [OF assms(1) this assms(4)] obtain j where j: "Bytes P (Jump P (GoInt (sz - 5)) (New P)) = j"
    "3 \<le> length j" "length j \<le> 34" "aligned j" "\<And>rest g s. evm_run g (j @ rest) 2 (0, s) =
      (if valid_dest (j @ rest) (nat (sz - 5)) then Some (nat (sz - 5), s) else None)" by blast
  define xs where "xs = (if codeFn = randomCalleeContract P rand then rand (nat (sz - 133)) else replicate (nat (sz - 133)) vm_JUMPDEST)"
  have xs: "length xs = nat (sz - 133)" using assms(2) by (simp add: xs_def)
  have "codeFn sz = Some (j @ xs @ replicate 128 vm_JUMPDEST)"
    using assms(3,5) j(1) unfolding xs_def
    by (auto simp: randomCalleeContract_def jumpdestCalleeContract_def Let_def Bytes_Op_pow [OF assms(1)]
        Bytes_Append [OF assms(1)] simp del: replicate.simps split: if_splits)
  with sled_contract [OF j(2-5) assms(3) xs] j(2,3) show ?thesis
    by (intro exI [of _ "j @ xs @ replicate 128 vm_JUMPDEST"] exI [of _ "length j"]) simp
qed

theorem callee_contracts_run_witness:
  "\<exists>code n. randomCalleeContract sample_program (\<lambda>n. replicate n 0x7f) 24576 = Some code \<and>
    evm_run (\<lambda>_. 0) code n (0, []) = Some (length code, [])"
proof -
  define codeFn where "codeFn = randomCalleeContract sample_program (\<lambda>n. replicate n 0x7f)"
  have "length (replicate n (0x7f :: byte)) = n" for n by simp
  from callee_contracts_run [where codeFn = codeFn and sz = 24576, OF sample_program_laws this]
  obtain code jump where "codeFn 24576 = Some code" "\<forall>g s. evm_run g code (jump + 2) (0, s) = Some (length code, s)"
    by (auto simp: codeFn_def)
  then show ?thesis unfolding codeFn_def by blast
qed

subsection \<open>Contracts of PUSH2\<close>

lemma push2_pow:
  "program_laws P \<Longrightarrow> Bytes P (((\<lambda>p. let p = Op P [vm_PUSH2] p in Append P [0xff, 0xff] p) ^^ n) p) =
    Bytes P p @ concat (replicate n [vm_PUSH2, 0xff, 0xff])"
proof (induction n)
  case (Suc n)
  have "concat (replicate n xs) @ xs = xs @ concat (replicate n xs)" for xs :: "byte list"
    by (induction n) simp_all
  from this [of "[vm_PUSH2, 0xff, 0xff]"]
  show ?case using Suc by (simp add: Bytes_Op Bytes_Append)
qed simp

lemma push2_no_dest:
  assumes "k < 3 * n"
  shows "concat (replicate n [vm_PUSH2, 0xff, 0xff]) ! k \<noteq> vm_JUMPDEST"
proof -
  have "k < length (concat (replicate n [vm_PUSH2, 0xff, 0xff]))"
    using assms by (simp add: length_concat sum_list_replicate)
  then have "concat (replicate n [vm_PUSH2, 0xff, 0xff]) ! k \<in> set (concat (replicate n [vm_PUSH2, 0xff, 0xff]))"
    by (rule nth_mem)
  then show ?thesis by (auto split: if_splits)
qed

text \<open>A contract of PUSH2 instructions cannot be called: every round of the loop emits three bytes, so
  the code is about three times the size asked for and the jump at its start lands among the pushes,
  where no byte is a JUMPDEST.  The call ends in an exceptional halt.\<close>

theorem push2_callee_halts:
  assumes "program_laws P" and "200 \<le> sz" and "sz < 2 ^ 256"
  shows "\<exists>code. push2CalleeContract P sz = Some code \<and> 3 * sz - 300 < int (length code) \<and>
    \<not> valid_dest code (nat (sz - 5)) \<and> (\<forall>g s. evm_run g code 2 (0, s) = None)"
proof -
  have "5 \<le> sz" using assms(2) by simp
  from callee_jump [OF assms(1) this assms(3)] obtain j where j: "Bytes P (Jump P (GoInt (sz - 5)) (New P)) = j"
    "3 \<le> length j" "length j \<le> 34" "aligned j" "\<And>rest g s. evm_run g (j @ rest) 2 (0, s) =
      (if valid_dest (j @ rest) (nat (sz - 5)) then Some (nat (sz - 5), s) else None)" by blast
  define n where "n = nat (sz - 133)"
  define ps where "ps = concat (replicate n [vm_PUSH2, 0xff, 0xff])"
  define code where "code = j @ ps @ replicate 128 vm_JUMPDEST"
  have code: "push2CalleeContract P sz = Some code"
    by (simp add: push2CalleeContract_def Let_def Bytes_Op_pow [OF assms(1)] j(1) code_def ps_def n_def
        push2_pow [OF assms(1), unfolded Let_def] del: replicate.simps)
  have len: "length ps = 3 * n" by (simp add: ps_def length_concat sum_list_replicate)
  have in_ps: "length j \<le> nat (sz - 5)" "nat (sz - 5) - length j < length ps"
    using assms(2) j(3) by (simp_all add: len n_def)
  then have "code ! nat (sz - 5) \<noteq> vm_JUMPDEST"
    using push2_no_dest [of "nat (sz - 5) - length j" n] len by (simp add: code_def nth_append ps_def)
  then have bad: "\<not> valid_dest code (nat (sz - 5))"
    using dests_byte [of "nat (sz - 5)" 0 code] by (auto simp: valid_dest_def)
  have "evm_run g code 2 (0, s) = None" for g s
    using j(5) [of g "ps @ replicate 128 vm_JUMPDEST" s] bad by (simp add: code_def)
  moreover have "3 * sz - 300 < int (length code)"
    using assms(2) j(2) by (simp add: code_def len n_def)
  ultimately show ?thesis using code bad by blast
qed

theorem push2_callee_halts_witness:
  "\<exists>code. push2CalleeContract sample_program 49152 = Some code \<and> (\<forall>g s. evm_run g code 2 (0, s) = None)"
  using push2_callee_halts [OF sample_program_laws, of 49152] by auto

subsection \<open>Accounts of different files do not collide\<close>

lemma calleeAddress_eq:
  assumes "lib_laws X"
  shows "calleeAddress X offset i = offset # be_bytes 2 (i mod 65536) @ replicate 17 0"
proof -
  define v where "v = be_bytes 2 (unat (of_nat i :: u16))"
  have v: "length v = 2" by (simp add: v_def)
  have "copy_range (replicate 20 0) 1 3 v = [0] @ v @ replicate 17 (0 :: byte)"
    using copy_range_fill [of "[0]" 1 3 v 19 "0 :: byte"] v by (simp add: numeral_eq_Suc)
  then have "(copy_range (replicate 20 0) 1 3 v)[0 := offset] = offset # v @ replicate 17 0" by simp
  then show ?thesis
    using BytesToAddress_id [OF assms, of "offset # v @ replicate 17 0"] v
    by (simp add: calleeAddress_def Let_def v_def unat_of_nat)
qed

lemma calleeAddress_inj:
  assumes "lib_laws X" and "calleeAddress X o1 i = calleeAddress X o2 k" and "i < 65536" and "k < 65536"
  shows "o1 = o2 \<and> i = k"
proof -
  have "o1 = o2" "be_bytes 2 i @ replicate 17 0 = be_bytes 2 k @ replicate 17 (0 :: byte)"
    using assms by (simp_all add: calleeAddress_eq)
  from arg_cong [OF this(2), of "\<lambda>xs. be_val (take 2 xs)"] have "be_val (be_bytes 2 i) = be_val (be_bytes 2 k)"
    by simp
  with assms(3,4) \<open>o1 = o2\<close> show ?thesis by (simp add: be_val_be_bytes)
qed

lemma calleeAccounts_spec:
  assumes X: "lib_laws X" and code: "\<And>i. codeFn i sz \<noteq> None"
  shows "i + n \<le> 65536 \<Longrightarrow> \<exists>accs. calleeAccounts X offset sz codeFn n i acc = Some accs \<and>
    dom accs = dom acc \<union> calleeAddress X offset ` {i..<i + n} \<and>
    (\<forall>k \<in> {i..<i + n}. \<exists>c. codeFn k sz = Some c \<and>
      accs (calleeAddress X offset k) = Some (callee_account c)) \<and>
    (\<forall>a. a \<notin> calleeAddress X offset ` {i..<i + n} \<longrightarrow> accs a = acc a)"
proof (induction n arbitrary: i acc)
  case (Suc n)
  define a where "a = calleeAddress X offset"
  obtain c where c: "codeFn i sz = Some c" using code [of i] by auto
  define acc1 where "acc1 = acc(a i \<mapsto> callee_account c)"
  from Suc.IH [of "Suc i" acc1] Suc.prems obtain accs where accs:
    "calleeAccounts X offset sz codeFn n (Suc i) acc1 = Some accs"
    "dom accs = dom acc1 \<union> a ` {Suc i..<Suc i + n}"
    "\<forall>k \<in> {Suc i..<Suc i + n}. \<exists>c. codeFn k sz = Some c \<and>
      accs (a k) = Some (callee_account c)"
    "\<forall>b. b \<notin> a ` {Suc i..<Suc i + n} \<longrightarrow> accs b = acc1 b"
    unfolding a_def by auto
  have "a i \<notin> a ` {Suc i..<Suc i + n}"
    using calleeAddress_inj [OF X, of offset i offset] Suc.prems by (force simp: a_def)
  with accs(4) have "accs (a i) = Some (callee_account c)" by (simp add: acc1_def)
  moreover have "{i..<i + Suc n} = insert i {Suc i..<Suc i + n}" by auto
  ultimately show ?case
    using accs c unfolding a_def [symmetric]
    by (intro exI [of _ accs]) (auto simp: acc1_def a_def [symmetric] Let_def)
qed auto

text \<open>The accounts written for one file: up to 65536 of them have different addresses, each with the
  code of its own call of the contract function, nonce 1 and no balance; every address starts with the
  number of the file, so that accounts of different files never collide.\<close>

theorem callee_accounts_distinct:
  assumes "lib_laws X" and "\<And>i. codeFn i sz \<noteq> None" and "n \<le> 65536"
  shows "\<exists>accs. calleeAccounts X offset sz codeFn n 0 Map.empty = Some accs \<and> card (dom accs) = n \<and>
    (\<forall>a \<in> dom accs. hd a = offset) \<and>
    (\<forall>i < n. \<exists>c. codeFn i sz = Some c \<and>
      accs (calleeAddress X offset i) = Some (callee_account c))"
proof -
  obtain accs where accs: "calleeAccounts X offset sz codeFn n 0 Map.empty = Some accs"
    "dom accs = calleeAddress X offset ` {0..<n}"
    "\<forall>k \<in> {0..<n}. \<exists>c. codeFn k sz = Some c \<and>
      accs (calleeAddress X offset k) = Some (callee_account c)"
    using calleeAccounts_spec [OF assms(1), of codeFn sz 0 n offset Map.empty] assms(2,3) by auto
  have "inj_on (calleeAddress X offset) {0..<n}"
    using calleeAddress_inj [OF assms(1), of offset _ offset] assms(3) by (intro inj_onI) auto
  then have "card (dom accs) = n" using accs(2) by (simp add: card_image)
  moreover have "\<forall>a \<in> dom accs. hd a = offset" using accs(2) by (auto simp: calleeAddress_eq [OF assms(1)])
  ultimately show ?thesis using accs by auto
qed

theorem callee_accounts_distinct_witness:
  "\<exists>accs. calleeAccounts sample_lib 8 49152 (\<lambda>i. jumpdestCalleeContract sample_program) 12000 0 Map.empty = Some accs \<and>
    card (dom accs) = 12000"
proof -
  have "jumpdestCalleeContract sample_program 49152 \<noteq> None" by (simp add: jumpdestCalleeContract_def Let_def)
  then show ?thesis
    using callee_accounts_distinct [OF sample_lib_laws, of "\<lambda>i. jumpdestCalleeContract sample_program" 49152 12000 8]
    by auto
qed

end
