(* ===== verification/BenchMain.thy ===== *)
theory BenchMain
  imports Callees
begin

text \<open>
  The search for the slowest benchmark program and the test files of the benchmark
  (\<open>findWorstCases\<close>, \<open>timeGeneration\<close>, \<open>writeOutTest\<close>, \<open>makeCallerTest\<close> and \<open>storeTest\<close> of
  \<open>cmd/precompileBench/main.go\<close>, \<open>createModexpStateTest\<close> of \<open>modexp.go\<close>).  The operating system and
  goevmlab are those of the fuzzing driver; a panic is \<open>None\<close>.
\<close>

subsection \<open>Test files\<close>

definition bench_storeTest :: "('w, 'e) os \<Rightarrow> byte list option \<Rightarrow> string \<Rightarrow> 'w \<Rightarrow> (bool \<times> 'w) option" where
  "bench_storeTest S test path w =
     (case os_Stat S w path of
        Exists \<Rightarrow> Some (True, w)
      | StatErr err \<Rightarrow> None
      | NotExist \<Rightarrow>
          (case os_OpenFile S w path of
             (Some err, w) \<Rightarrow> None
           | (None, w) \<Rightarrow>
               (case test of
                  None \<Rightarrow> None
                | Some bs \<Rightarrow>
                    (case os_Write S w path bs of
                       (Some err, w) \<Rightarrow> None
                     | (None, w) \<Rightarrow> Some (False, w)))))"

text \<open>\<open>filler.NewFiller\<close> of seven bytes \<open>0x5a\<close>, and \<open>Fill(nil, 0)\<close> with the panic on its error.\<close>

definition fixedFiller :: filler where
  "fixedFiller = NewFiller [0x5a, 0x5a, 0x5a, 0x5a, 0x5a, 0x5a, 0x5a]"

definition fill_nil :: "('g, 'e) goevmlab \<Rightarrow> 'g \<Rightarrow> unit option" where
  "fill_nil E g = (if snd (Fill E g 0) = None then Some () else None)"

definition writeOutTest ::
    "lib \<Rightarrow> (gst, 'e) goevmlab \<Rightarrow> ('w, 'e) os \<Rightarrow> byte list \<Rightarrow> nat \<Rightarrow> 'w \<Rightarrow> 'w option" where
  "writeOutTest X E S code iteration w = do {
     let f = fixedFiller;
     (testMaker, f) \<leftarrow> CreateGstMaker X f code;
     _ \<leftarrow> fill_nil E testMaker;
     (_, w) \<leftarrow> bench_storeTest S (json E testMaker ''test'') (''statetest-'' @ decimal iteration @ ''.json'') w;
     Some w
   }"

text \<open>The time is that of the clock; \<open>timeGeneration\<close> only returns it when the run does not fail.\<close>

definition timeGeneration :: "lib \<Rightarrow> (gst, 'e) goevmlab \<Rightarrow> int \<Rightarrow> byte list \<Rightarrow> int option" where
  "timeGeneration X E elapsed code = do {
     let f = fixedFiller;
     (testMaker, f) \<leftarrow> CreateGstMaker X f code;
     _ \<leftarrow> fill_nil E testMaker;
     Some elapsed
   }"

definition makeCallerTest ::
    "'p program_api \<Rightarrow> lib \<Rightarrow> (gst, 'e) goevmlab \<Rightarrow>
      ('w, 'e) os \<Rightarrow> (nat \<Rightarrow> byte list) \<Rightarrow> (nat \<Rightarrow> byte list) \<Rightarrow> 'w \<Rightarrow> 'w option"
where
  "makeCallerTest P X E S rnds rand w = do {
     let count = 1024 * 37;
     let (code, accounts) = callerContract2 P X rnds count;
     contractCode \<leftarrow> randomCalleeContract P rand (32 * 1024);
     let f = fixedFiller;
     (testMaker, f) \<leftarrow> CreateGstMaker X f code;
     _ \<leftarrow> fill_nil E testMaker;
     let testMaker = foldl (\<lambda>testMaker account.
       AddAccount account (callee_account contractCode) testMaker) testMaker accounts;
     (_, w) \<leftarrow> bench_storeTest S (json E testMaker ''test'') ''statetest-sload.json'' w;
     Some w
   }"

definition createModexpStateTest ::
    "'p program_api \<Rightarrow> lib \<Rightarrow> (gst, 'e) goevmlab \<Rightarrow> ('w, 'e) os \<Rightarrow> 'w \<Rightarrow> 'w option" where
  "createModexpStateTest P X E S w = do {
     let base = replicate 8 0xff;
     let ex = replicate 0x51 0xff;
     let md = replicate 8 0xff;
     let code = createModTestcase P X base ex md;
     let f = fixedFiller;
     (testMaker, f) \<leftarrow> CreateGstMaker X f code;
     _ \<leftarrow> fill_nil E testMaker;
     let test = json E testMaker ''statetest.json'';
     (_, w) \<leftarrow> bench_storeTest S test ''statetest.json'' w;
     Some w
   }"

subsection \<open>The search for the slowest program\<close>

text \<open>
  The shared counters and the file system.  One goroutine runs at a time (the limit of the group is
  one), so the atomic operations are executed one after the other.
\<close>

record 'w search =
  worst :: int
  count :: nat
  files :: 'w

definition CompareAndSwap :: "int \<Rightarrow> int \<Rightarrow> 'w search \<Rightarrow> bool \<times> 'w search" where
  "CompareAndSwap old new st =
     (if worst st = old then (True, st\<lparr>worst := new\<rparr>) else (False, st))"

text \<open>\<open>writeOut code cnt\<close> stands for \<open>writeOutTest\<close>; a second is a thousand million nanoseconds.\<close>

partial_function (option) worst_loop ::
    "(byte list \<Rightarrow> nat \<Rightarrow> 'w \<Rightarrow> 'w option) \<Rightarrow> bool \<Rightarrow> byte list \<Rightarrow> int \<Rightarrow> int \<Rightarrow> 'w search \<Rightarrow> 'w search option"
where
  "worst_loop writeOut writeTest code d w st =
     (if d > w then
        (let (swapped, st) = CompareAndSwap w d st
         in if \<not> swapped then
              (let st = st\<lparr>count := count st + 1\<rparr>;
                   cnt = count st
               in if writeTest \<or> d > 1000000000 then do {
                    fs \<leftarrow> writeOut code cnt (files st);
                    let st = st\<lparr>files := fs\<rparr>;
                    (if writeTest then None else Some st)
                  } else Some st)
            else worst_loop writeOut writeTest code d w st)
      else Some st)"

text \<open>One round of the search on random bytes, of which the measurement takes \<open>elapsed\<close>.\<close>

definition findWorstCases_step ::
    "(byte list \<Rightarrow> int \<Rightarrow> int option) \<Rightarrow> (byte list \<Rightarrow> nat \<Rightarrow> 'w \<Rightarrow> 'w option) \<Rightarrow> test \<Rightarrow> bool \<Rightarrow>
      byte list \<times> int \<Rightarrow> 'w search \<Rightarrow> 'w search option"
where
  "findWorstCases_step timeGen writeOut gen writeTest = (\<lambda>(rnd, elapsed) st. do {
     (code, f) \<leftarrow> gen (NewFiller rnd);
     d \<leftarrow> timeGen code elapsed;
     let w = worst st;
     worst_loop writeOut writeTest code d w st
   })"

fun findWorstCases ::
    "(byte list \<Rightarrow> int \<Rightarrow> int option) \<Rightarrow> (byte list \<Rightarrow> nat \<Rightarrow> 'w \<Rightarrow> 'w option) \<Rightarrow> test \<Rightarrow> bool \<Rightarrow>
      (byte list \<times> int) list \<Rightarrow> 'w search \<Rightarrow> 'w search option"
where
  "findWorstCases timeGen writeOut gen writeTest [] st = Some st"
| "findWorstCases timeGen writeOut gen writeTest (r # rs) st =
     findWorstCases_step timeGen writeOut gen writeTest r st \<bind> findWorstCases timeGen writeOut gen writeTest rs"

subsection \<open>The search keeps the maximum\<close>

text \<open>How often a value exceeds all before it, starting from \<open>m\<close>.\<close>

fun improvements :: "int \<Rightarrow> int list \<Rightarrow> nat" where
  "improvements m [] = 0"
| "improvements m (d # ds) = (if m < d then Suc (improvements d ds) else improvements m ds)"

text \<open>
  The loop variable is not read again.  When the swap succeeds the loop goes on, and its next swap
  fails because of the first one; the failure is what counts and reports.
\<close>

lemma worst_loop_eq:
  "worst_loop writeOut writeTest code d (worst st) st =
     (if worst st < d then
        (let st = st\<lparr>worst := d, count := count st + 1\<rparr>
         in if writeTest \<or> d > 1000000000 then do {
              fs \<leftarrow> writeOut code (count st) (files st);
              (if writeTest then None else Some (st\<lparr>files := fs\<rparr>))
            } else Some st)
      else Some st)"
proof (cases "worst st < d")
  case True
  then have "worst_loop writeOut writeTest code d (worst st) st =
      worst_loop writeOut writeTest code d (worst st) (st\<lparr>worst := d\<rparr>)"
    by (subst worst_loop.simps) (simp add: CompareAndSwap_def)
  also have "\<dots> = (let st = st\<lparr>worst := d, count := count st + 1\<rparr>
         in if writeTest \<or> d > 1000000000 then do {
              fs \<leftarrow> writeOut code (count st) (files st);
              (if writeTest then None else Some (st\<lparr>files := fs\<rparr>))
            } else Some st)"
    using True by (subst worst_loop.simps) (simp add: CompareAndSwap_def Let_def)
  finally show ?thesis using True by simp
next
  case False
  then show ?thesis by (subst worst_loop.simps) simp
qed

text \<open>What the search relies on: programs are generated, measured and written without a panic.\<close>

definition search_total ::
    "(byte list \<Rightarrow> int \<Rightarrow> int option) \<Rightarrow> (byte list \<Rightarrow> nat \<Rightarrow> 'w \<Rightarrow> 'w option) \<Rightarrow> test \<Rightarrow> bool"
where
  "search_total timeGen writeOut gen \<longleftrightarrow> (\<forall>rnd. gen (NewFiller rnd) \<noteq> None) \<and>
     (\<forall>code t. timeGen code t = Some t) \<and> (\<forall>code n fs. writeOut code n fs \<noteq> None)"

lemma findWorstCases_step_eq:
  assumes "search_total timeGen writeOut gen"
  shows "\<exists>fs. findWorstCases_step timeGen writeOut gen False (rnd, t) st =
      Some (if worst st < t then st\<lparr>worst := t, count := count st + 1, files := fs\<rparr> else st)"
    and "worst st < t \<Longrightarrow> findWorstCases_step timeGen writeOut gen True (rnd, t) st = None"
    and "\<not> worst st < t \<Longrightarrow> findWorstCases_step timeGen writeOut gen True (rnd, t) st = Some st"
proof -
  obtain code f where gen: "gen (NewFiller rnd) = Some (code, f)"
    using assms unfolding search_total_def by (metis option.exhaust surj_pair)
  obtain fs where fs: "writeOut code (Suc (count st)) (files st) = Some fs"
    using assms unfolding search_total_def by (metis option.exhaust)
  have tm: "timeGen code t = Some t" using assms by (simp add: search_total_def)
  have run: "findWorstCases_step timeGen writeOut gen b (rnd, t) st = worst_loop writeOut b code t (worst st) st" for b
    by (simp add: findWorstCases_step_def gen tm)
  show "\<exists>fs. findWorstCases_step timeGen writeOut gen False (rnd, t) st =
      Some (if worst st < t then st\<lparr>worst := t, count := count st + 1, files := fs\<rparr> else st)"
  proof (cases "t > 1000000000")
    case True
    with fs show ?thesis unfolding run worst_loop_eq by (intro exI [of _ fs]) (simp add: Let_def)
  next
    case False
    then show ?thesis unfolding run worst_loop_eq by (intro exI [of _ "files st"]) (cases st, simp add: Let_def)
  qed
  show "worst st < t \<Longrightarrow> findWorstCases_step timeGen writeOut gen True (rnd, t) st = None"
    "\<not> worst st < t \<Longrightarrow> findWorstCases_step timeGen writeOut gen True (rnd, t) st = Some st"
    unfolding run worst_loop_eq by (simp_all add: Let_def fs)
qed

lemma findWorstCases_spec:
  assumes "search_total timeGen writeOut gen"
  shows "\<exists>st'. findWorstCases timeGen writeOut gen False rs st = Some st' \<and>
    worst st' = foldl max (worst st) (map snd rs) \<and> count st' = count st + improvements (worst st) (map snd rs)"
proof (induction rs arbitrary: st)
  case (Cons r rs)
  obtain rnd t where r: "r = (rnd, t)" by force
  obtain fs where step: "findWorstCases_step timeGen writeOut gen False (rnd, t) st =
      Some (if worst st < t then st\<lparr>worst := t, count := count st + 1, files := fs\<rparr> else st)"
    using findWorstCases_step_eq(1) [OF assms] by blast
  show ?case
    using Cons.IH [of "if worst st < t then st\<lparr>worst := t, count := count st + 1, files := fs\<rparr> else st"]
    by (auto simp: r step max_def not_less)
qed simp

lemma findWorstCases_first:
  assumes "search_total timeGen writeOut gen"
  shows "findWorstCases timeGen writeOut gen True rs st =
    (if improvements (worst st) (map snd rs) = 0 then Some st else None)"
proof (induction rs)
  case (Cons r rs)
  obtain rnd t where r: "r = (rnd, t)" by force
  show ?case
    using findWorstCases_step_eq(2,3) [OF assms, of st t rnd] Cons.IH by (cases "worst st < t") (simp_all add: r)
qed simp

text \<open>The search returns after any number of rounds with the largest time measured, and counts each
  time that exceeded all before it once, although it reports when its compare-and-swap fails and never
  reads the shared maximum again.  When asked to write a test out it stops at the first such time.\<close>

theorem search_keeps_maximum:
  assumes "search_total timeGen writeOut gen"
  shows "(\<exists>st'. findWorstCases timeGen writeOut gen False rs st = Some st' \<and>
      worst st' = foldl max (worst st) (map snd rs) \<and> count st' = count st + improvements (worst st) (map snd rs)) \<and>
    findWorstCases timeGen writeOut gen True rs st =
      (if improvements (worst st) (map snd rs) = 0 then Some st else None)"
  using findWorstCases_spec [OF assms, of rs st] findWorstCases_first [OF assms, of rs st] by blast

theorem search_keeps_maximum_witness:
  "\<exists>st'. findWorstCases (\<lambda>code t. Some t) (\<lambda>code n fs. Some fs) (makeSStore sample_program) False
      [([1], 5), ([2], 3), ([3], 9)] \<lparr>worst = 0, count = 0, files = ()\<rparr> = Some st' \<and> worst st' = 9 \<and> count st' = 2"
proof -
  have "search_total (\<lambda>code t. Some t) (\<lambda>code n fs. Some fs) (makeSStore sample_program)"
    by (simp add: search_total_def makeSStore_def split_beta Let_def)
  from search_keeps_maximum [OF this, of "[([1], 5), ([2], 3), ([3], 9)]" "\<lparr>worst = 0, count = 0, files = ()\<rparr>"]
  show ?thesis by (simp add: numeral_2_eq_2 del: findWorstCases.simps)
qed

end
