(* ===== verification/System.thy ===== *)
theory System
  imports Prelude
begin

text \<open>
  The operating system as the commands of \<open>cmd/fuzzyvm-db\<close> and \<open>cmd/fuzzyvm\<close> use it: processes they
  start, with their arguments and environment, and \<open>packageDir\<close> of \<open>cmd/fuzzyvm-db/main.go\<close>.  What a
  process answers may depend on everything started before it, so that it is an arbitrary function of
  the commands run so far.
\<close>

subsection \<open>Processes\<close>

text \<open>The arguments begin with the name of the program; \<open>None\<close> is the environment of the caller.\<close>

record command =
  cmd_Args :: "string list"
  cmd_Env :: "string list option"

record 'e system =
  sys_Abs :: "string \<Rightarrow> 'e + string"
  sys_Environ :: "string list"
  sys_Exec :: "command list \<Rightarrow> command \<Rightarrow> 'e + string"
  Duration_String :: "int \<Rightarrow> string"

text \<open>\<open>fmt.Errorf\<close> with \<open>%w\<close> is \<open>Wrap\<close>; \<open>TooLong\<close> is \<open>bufio.ErrTooLong\<close>.\<close>

datatype 'e cmd_error = Err 'e | Wrap string 'e | TooLong

definition Command :: "string list \<Rightarrow> command" where
  "Command args = \<lparr>cmd_Args = args, cmd_Env = None\<rparr>"

subsection \<open>The environment\<close>

definition assign :: "string \<Rightarrow> string \<Rightarrow> string" where
  "assign key v = key @ ''='' @ v"

text \<open>Of several assignments to a variable \<open>os/exec\<close> uses the last one.\<close>

fun lookup_env :: "string list \<Rightarrow> string \<Rightarrow> string option" where
  "lookup_env [] key = None"
| "lookup_env (e # es) key =
     (case lookup_env es key of
        Some v \<Rightarrow> Some v
      | None \<Rightarrow> if prefix (key @ ''='') e then Some (drop (length key + 1) e) else None)"

lemma lookup_env_append:
  "lookup_env (es @ fs) key = (case lookup_env fs key of Some v \<Rightarrow> Some v | None \<Rightarrow> lookup_env es key)"
  by (induction es) (auto split: option.splits)

lemma lookup_env_assign [simp]: "lookup_env [assign key v] key = Some v"
  by (simp add: assign_def)

subsection \<open>The directory of the package\<close>

definition is_space :: "char \<Rightarrow> bool" where
  "is_space c \<longleftrightarrow> c \<in> {CHR 0x09, CHR 0x0A, CHR 0x0B, CHR 0x0C, CHR 0x0D, CHR 0x20}"

definition TrimSpace :: "string \<Rightarrow> string" where
  "TrimSpace s = rev (dropWhile is_space (rev (dropWhile is_space s)))"

definition list_command :: command where
  "list_command = Command
     [''go'', ''list'', ''-f'', ''{{.Dir}}'', ''github.com/MariusVanDerWijden/FuzzyVM/cmd/fuzzyvm-db'']"

definition packageDir :: "'e system \<Rightarrow> command list \<Rightarrow> 'e cmd_error + string" where
  "packageDir S h =
     (case sys_Exec S h list_command of
        Inl err \<Rightarrow> Inl (Wrap ''locating fuzzyvm-db package (is the Go toolchain available?)'' err)
      | Inr out \<Rightarrow> Inr (TrimSpace out))"

end
