(* ===== verification/Replay.thy ===== *)
theory Replay
  imports System "HOL-Library.Multiset" "HOL-Library.Char_ord" "HOL-Library.List_Lexorder"
    "HOL-Library.Product_Lexorder"
begin

text \<open>
  The replay command and its coverage report (\<open>replay\<close> and \<open>summarize\<close> of \<open>cmd/fuzzyvm-db/replay.go\<close>).  The
  processes it starts are those of theory \<open>System\<close>; what the code uses of \<open>bufio.Scanner\<close>, \<open>strings\<close> and \<open>sort\<close> is written out
  for ASCII text.  The report is the data that is printed.
\<close>

subsection \<open>Strings\<close>

abbreviation newline :: char where "newline \<equiv> CHR 0x0A"

text \<open>\<open>strings.Fields\<close>: the maximal runs of characters that are not space.\<close>

function Fields :: "string \<Rightarrow> string list" where
  "Fields s =
     (let t = dropWhile is_space s
      in if t = [] then [] else takeWhile (\<lambda>c. \<not> is_space c) t # Fields (dropWhile (\<lambda>c. \<not> is_space c) t))"
  by pat_completeness auto

lemma dropWhile_length: "length (dropWhile P xs) \<le> length xs"
  by (induction xs) simp_all

termination Fields
proof (relation "measure length")
  fix s t :: string
  assume t: "t = dropWhile is_space s" "t \<noteq> []"
  from t(2) obtain c u where u: "t = c # u" by (cases t) simp_all
  then have "\<not> is_space c" using t(1) hd_dropWhile [of is_space s] by simp
  with u have "length (dropWhile (\<lambda>c. \<not> is_space c) t) < length t"
    using dropWhile_length [of "\<lambda>c. \<not> is_space c" u] by simp
  also have "length t \<le> length s" unfolding t(1) by (rule dropWhile_length)
  finally show "(dropWhile (\<lambda>c. \<not> is_space c) t, s) \<in> measure length" by simp
qed simp

declare Fields.simps [simp del]

definition TrimSuffix :: "string \<Rightarrow> string \<Rightarrow> string" where
  "TrimSuffix s suf = (if suffix suf s then take (length s - length suf) s else s)"

text \<open>\<open>strings.IndexByte\<close>, \<open>None\<close> for its result -1.\<close>

fun IndexByte :: "string \<Rightarrow> char \<Rightarrow> nat option" where
  "IndexByte [] c = None"
| "IndexByte (x # xs) c = (if x = c then Some 0 else map_option Suc (IndexByte xs c))"

text \<open>
  \<open>bufio.Scanner\<close> over the whole output: the lines without their line ends, and whether it stopped at a
  line that does not fit its buffer of 64 KiB.
\<close>

definition MaxScanTokenSize :: nat where "MaxScanTokenSize = 64 * 1024"

definition drop_cr :: "string \<Rightarrow> string" where
  "drop_cr l = (if l \<noteq> [] \<and> last l = CHR 0x0D then butlast l else l)"

function scan_lines :: "string \<Rightarrow> string list \<times> bool" where
  "scan_lines s =
     (if s = [] then ([], False)
      else let l = takeWhile (\<lambda>c. c \<noteq> newline) s; r = dropWhile (\<lambda>c. c \<noteq> newline) s
        in if length l \<ge> MaxScanTokenSize then ([], True)
           else let (ls, e) = scan_lines (tl r) in (drop_cr l # ls, e))"
  by pat_completeness auto
termination scan_lines
proof (relation "measure length")
  fix s l r :: string
  assume "s \<noteq> []" "r = dropWhile (\<lambda>c. c \<noteq> newline) s"
  then show "(tl r, s) \<in> measure length"
    using dropWhile_length [of "\<lambda>c. c \<noteq> newline" s] by (cases s) (auto simp: less_Suc_eq_le intro: order_trans [OF _ le_refl])
qed simp

declare scan_lines.simps [simp del]

subsection \<open>The summary\<close>

text \<open>
  \<open>is_zero s\<close> says that \<open>strconv.ParseFloat\<close> accepts \<open>s\<close> with the value zero.  The state of the loop is
  the map \<open>uncovered\<close>, the files in the order they were first seen, and the total.
\<close>

record coverage =
  uncovered :: "string \<rightharpoonup> string list"
  cov_files :: "string list"
  cov_total :: string

definition summarize_line :: "(string \<Rightarrow> bool) \<Rightarrow> string \<Rightarrow> coverage \<Rightarrow> coverage" where
  "summarize_line is_zero line s =
     (let fs = Fields line
      in if length fs < 3 then s
         else let loc = fs ! 0; fn = fs ! 1; pct = fs ! (length fs - 1)
           in if prefix ''total:'' loc then s\<lparr>cov_total := pct\<rparr>
              else if \<not> is_zero (TrimSuffix pct ''%'') then s
              else let file = (case IndexByte loc CHR '':'' of Some i \<Rightarrow> take i loc | None \<Rightarrow> loc);
                       s = (if uncovered s file = None then s\<lparr>cov_files := cov_files s @ [file]\<rparr> else s);
                       old = (case uncovered s file of None \<Rightarrow> [] | Some fns \<Rightarrow> fns)
                in s\<lparr>uncovered := (uncovered s)(file \<mapsto> old @ [fn])\<rparr>)"

text \<open>The order of \<open>sort.Slice\<close>; it is total, so that the sorted list is unique.\<close>

definition file_key :: "coverage \<Rightarrow> string \<Rightarrow> int \<times> string" where
  "file_key s file = (- int (length (the (uncovered s file))), file)"

record report =
  rep_total :: string
  rep_files :: "(string \<times> string list) list"

definition cover_func :: "string \<Rightarrow> command" where
  "cover_func profile = Command [''go'', ''tool'', ''cover'', ''-func='' @ profile]"

definition summarize :: "(command \<Rightarrow> 'e + string) \<Rightarrow> (string \<Rightarrow> bool) \<Rightarrow> string \<Rightarrow> 'e cmd_error + report" where
  "summarize output is_zero profile =
     (case output (cover_func profile) of
        Inl err \<Rightarrow> Inl (Wrap ''summarising coverage'' err)
      | Inr out \<Rightarrow>
          (let (lines, too_long) = scan_lines out;
               s = foldl (\<lambda>s line. summarize_line is_zero line s)
                 \<lparr>uncovered = Map.empty, cov_files = [], cov_total = []\<rparr> lines
           in if too_long then Inl TooLong
              else let files = sort_key (file_key s) (cov_files s)
                in Inr \<lparr>rep_total = cov_total s,
                     rep_files = map (\<lambda>file. (file, sort (the (uncovered s file)))) files\<rparr>))"

subsection \<open>The command\<close>

record replay_flags =
  rf_db :: string
  rf_coverpkg :: string
  rf_coverprofile :: string
  rf_html :: string
  rf_limit :: int
  rf_workers :: int
  rf_timeout :: int

definition replayDBEnv :: string where "replayDBEnv = ''FUZZYVM_REPLAY_DB''"
definition replayLimitEnv :: string where "replayLimitEnv = ''FUZZYVM_REPLAY_LIMIT''"
definition replayWorkersEnv :: string where "replayWorkersEnv = ''FUZZYVM_REPLAY_WORKERS''"

text \<open>The \<open>go test\<close> that replays the database under \<open>dbPath\<close> and writes \<open>profile\<close>.\<close>

definition replay_test :: "'e system \<Rightarrow> replay_flags \<Rightarrow> string \<Rightarrow> string \<Rightarrow> string \<Rightarrow> command" where
  "replay_test S fl dbPath profile pkgDir =
     (let args = [''go'', ''test'', ''-run=^TestReplayCorpus$'', ''-coverpkg='' @ rf_coverpkg fl,
            ''-coverprofile='' @ profile, ''-covermode=atomic'', ''-v''];
          args = (if 0 < rf_timeout fl then args @ [''-timeout='' @ Duration_String S (rf_timeout fl)]
                  else args @ [''-timeout=2h'']);
          args = args @ [pkgDir];
          env = sys_Environ S @ [assign replayDBEnv dbPath];
          env = (if 0 < rf_limit fl then env @ [assign replayLimitEnv (decimal (nat (rf_limit fl)))] else env);
          env = (if 0 < rf_workers fl then env @ [assign replayWorkersEnv (decimal (nat (rf_workers fl)))] else env)
      in \<lparr>cmd_Args = args, cmd_Env = Some env\<rparr>)"

definition cover_html :: "string \<Rightarrow> string \<Rightarrow> command" where
  "cover_html profile htmlAbs = Command [''go'', ''tool'', ''cover'', ''-html='' @ profile, ''-o='' @ htmlAbs]"

text \<open>The result is the error, the report printed and the processes started, in order.\<close>

definition replay ::
    "'e system \<Rightarrow> (string \<Rightarrow> bool) \<Rightarrow> replay_flags \<Rightarrow> 'e cmd_error option \<times> report option \<times> command list" where
  "replay S is_zero fl =
     (case sys_Abs S (rf_db fl) of
        Inl err \<Rightarrow> (Some (Err err), None, [])
      | Inr dbPath \<Rightarrow>
     (case sys_Abs S (rf_coverprofile fl) of
        Inl err \<Rightarrow> (Some (Err err), None, [])
      | Inr profile \<Rightarrow>
     (case packageDir S [] of
        Inl err \<Rightarrow> (Some err, None, [list_command])
      | Inr pkgDir \<Rightarrow>
          (let h = [list_command]; cmd = replay_test S fl dbPath profile pkgDir
           in case sys_Exec S h cmd of
                Inl err \<Rightarrow> (Some (Wrap ''replay test failed'' err), None, h @ [cmd])
              | Inr _ \<Rightarrow>
          (let h = h @ [cmd]
           in case summarize (sys_Exec S h) is_zero profile of
                Inl err \<Rightarrow> (Some err, None, h @ [cover_func profile])
              | Inr rep \<Rightarrow>
          (let h = h @ [cover_func profile]
           in if rf_html fl = [] then (None, Some rep, h)
              else case sys_Abs S (rf_html fl) of
                     Inl err \<Rightarrow> (Some (Err err), Some rep, h)
                   | Inr htmlAbs \<Rightarrow>
                       (let out = cover_html profile htmlAbs
                        in case sys_Exec S h out of
                             Inl err \<Rightarrow> (Some (Wrap ''rendering HTML report'' err), Some rep, h @ [out])
                           | Inr _ \<Rightarrow> (None, Some rep, h @ [out]))))))))"

subsection \<open>Scanning gives the lines back\<close>

definition plain_line :: "string \<Rightarrow> bool" where
  "plain_line l \<longleftrightarrow> newline \<notin> set l \<and> (l = [] \<or> last l \<noteq> CHR 0x0D) \<and> length l < MaxScanTokenSize"

lemma scan_lines_line:
  assumes "plain_line l"
  shows "scan_lines (l @ newline # s) = (let (ls, e) = scan_lines s in (l # ls, e))"
proof -
  have "takeWhile (\<lambda>c. c \<noteq> newline) (l @ newline # s) = l" "dropWhile (\<lambda>c. c \<noteq> newline) (l @ newline # s) = newline # s"
    using assms by (auto simp: plain_line_def takeWhile_append dropWhile_append)
  then show ?thesis
    using assms by (subst scan_lines.simps) (auto simp: plain_line_def drop_cr_def Let_def)
qed

lemma scan_lines_lines:
  "\<forall>l \<in> set ls. plain_line l \<Longrightarrow> scan_lines (concat (map (\<lambda>l. l @ [newline]) ls)) = (ls, False)"
  by (induction ls) (simp_all add: scan_lines_line scan_lines.simps [of "[]"])

subsection \<open>What the loop collects\<close>

text \<open>The file and function of a line that reports no coverage, and the value of a line with the total.\<close>

definition zero_entry :: "(string \<Rightarrow> bool) \<Rightarrow> string \<Rightarrow> (string \<times> string) option" where
  "zero_entry is_zero line =
     (let fs = Fields line
      in if 3 \<le> length fs \<and> \<not> prefix ''total:'' (fs ! 0) \<and> is_zero (TrimSuffix (last fs) ''%'')
         then Some (takeWhile (\<lambda>c. c \<noteq> CHR '':'') (fs ! 0), fs ! 1) else None)"

definition total_entry :: "string \<Rightarrow> string option" where
  "total_entry line =
     (let fs = Fields line
      in if 3 \<le> length fs \<and> prefix ''total:'' (fs ! 0) then Some (last fs) else None)"

definition of_file :: "string \<Rightarrow> (string \<times> string) list \<Rightarrow> string list" where
  "of_file file zs = map snd (filter (\<lambda>z. fst z = file) zs)"

lemma IndexByte_take: "(case IndexByte s c of Some i \<Rightarrow> take i s | None \<Rightarrow> s) = takeWhile (\<lambda>x. x \<noteq> c) s"
  by (induction s) (auto split: option.splits)

lemma summarize_line_eq:
  "summarize_line is_zero line s =
     (case total_entry line of
        Some t \<Rightarrow> s\<lparr>cov_total := t\<rparr>
      | None \<Rightarrow>
          (case zero_entry is_zero line of
             None \<Rightarrow> s
           | Some (file, fn) \<Rightarrow>
               s\<lparr>uncovered := (uncovered s)(file \<mapsto> (case uncovered s file of None \<Rightarrow> [] | Some fns \<Rightarrow> fns) @ [fn]),
                 cov_files := (if uncovered s file = None then cov_files s @ [file] else cov_files s)\<rparr>))"
proof -
  define fs where "fs = Fields line"
  have "fs ! (length fs - 1) = last fs" if "3 \<le> length fs" using that by (cases fs) (simp_all add: last_conv_nth)
  then show ?thesis
    by (cases "length fs < 3")
      (simp_all add: summarize_line_def total_entry_def zero_entry_def Let_def IndexByte_take flip: fs_def)
qed

definition collected :: "(string \<times> string) list \<Rightarrow> coverage \<Rightarrow> bool" where
  "collected zs s \<longleftrightarrow> distinct (cov_files s) \<and> set (cov_files s) = fst ` set zs \<and>
     (\<forall>file. uncovered s file = (if of_file file zs = [] then None else Some (of_file file zs)))"

lemma of_file_Nil: "of_file file zs = [] \<longleftrightarrow> file \<notin> fst ` set zs"
  by (auto simp: of_file_def filter_empty_conv image_iff)

definition zero_entries :: "(string \<Rightarrow> bool) \<Rightarrow> string list \<Rightarrow> (string \<times> string) list" where
  "zero_entries is_zero ls = List.map_filter (zero_entry is_zero) ls"

lemma total_not_zero: "total_entry line = Some t \<Longrightarrow> zero_entry is_zero line = None"
  by (auto simp: total_entry_def zero_entry_def Let_def split: if_splits)

lemma collected_step:
  assumes "collected zs s"
  shows "collected (zs @ zero_entries is_zero [line]) (summarize_line is_zero line s)"
proof (cases "zero_entry is_zero line")
  case None
  with assms show ?thesis
    by (cases "total_entry line") (simp_all add: summarize_line_eq collected_def zero_entries_def map_filter_simps)
next
  case (Some z)
  obtain fl fn where z: "z = (fl, fn)" by (cases z)
  have new: "of_file f (zs @ [(fl, fn)]) = (if f = fl then of_file f zs @ [fn] else of_file f zs)" for f
    by (simp add: of_file_def)
  have "uncovered s fl = None \<longleftrightarrow> fl \<notin> fst ` set zs"
    using assms by (auto simp: collected_def of_file_Nil)
  moreover have "total_entry line = None" using Some total_not_zero [of line] by (cases "total_entry line") auto
  ultimately show ?thesis
    using Some z assms by (auto simp: summarize_line_eq collected_def new zero_entries_def map_filter_simps)
qed

lemma summarize_fold:
  "collected zs s \<Longrightarrow>
    collected (zs @ zero_entries is_zero ls) (foldl (\<lambda>s line. summarize_line is_zero line s) s ls) \<and>
    cov_total (foldl (\<lambda>s line. summarize_line is_zero line s) s ls) =
      last (cov_total s # List.map_filter total_entry ls)"
proof (induction ls arbitrary: zs s)
  case (Cons l ls)
  have "cov_total (summarize_line is_zero l s) = (case total_entry l of Some t \<Rightarrow> t | None \<Rightarrow> cov_total s)"
    by (auto simp: summarize_line_eq split: option.splits)
  then show ?case
    using Cons.IH [OF collected_step [OF Cons.prems, of is_zero l]]
    by (auto simp: zero_entries_def map_filter_simps split: option.splits)
qed (simp add: zero_entries_def map_filter_simps)

lemma collected_start: "collected [] \<lparr>uncovered = Map.empty, cov_files = [], cov_total = []\<rparr>"
  by (simp add: collected_def of_file_def)

text \<open>Sorting by number of functions, most first, and then by name.\<close>

definition before :: "string \<times> string list \<Rightarrow> string \<times> string list \<Rightarrow> bool" where
  "before a b \<longleftrightarrow> length (snd b) < length (snd a) \<or> length (snd a) = length (snd b) \<and> fst a < fst b"

lemma sorted_files:
  assumes "distinct fs"
  shows "sorted_wrt before (map (\<lambda>f. (f, sort (the (uncovered s f)))) (sort_key (file_key s) fs))"
proof -
  define gs where "gs = sort_key (file_key s) fs"
  have "sorted_wrt (\<lambda>a b. file_key s a \<le> file_key s b) gs"
    using sorted_sort_key [of "file_key s" fs] by (simp add: gs_def sorted_map)
  moreover have "distinct gs" using assms by (simp add: gs_def)
  ultimately have "sorted_wrt (\<lambda>a b. file_key s a \<le> file_key s b \<and> a \<noteq> b) gs"
    by (induction gs) auto
  then have "sorted_wrt (\<lambda>a b. before (a, sort (the (uncovered s a))) (b, sort (the (uncovered s b)))) gs"
    by (rule sorted_wrt_mono_rel [rotated]) (auto simp: before_def file_key_def less_le)
  then show ?thesis by (simp add: sorted_wrt_map gs_def)
qed

subsection \<open>Properties\<close>

text \<open>C34. The coverage report loses nothing: for any output made of lines that fit the scanner, the files
  of the report are those with a function of coverage zero, each once, those with more such functions
  first and then by name; with each file stand exactly its functions, in order; and the total is that
  of the last total line.\<close>

theorem summarize_complete:
  assumes "output (cover_func profile) = Inr (concat (map (\<lambda>l. l @ [newline]) ls))" and "\<forall>l \<in> set ls. plain_line l"
  shows "\<exists>r. summarize output is_zero profile = Inr r \<and>
    rep_total r = last ([] # List.map_filter total_entry ls) \<and>
    set (map fst (rep_files r)) = fst ` set (zero_entries is_zero ls) \<and>
    sorted_wrt before (rep_files r) \<and>
    (\<forall>(file, fns) \<in> set (rep_files r). sorted fns \<and> mset fns = mset (of_file file (zero_entries is_zero ls)))"
proof -
  define s where "s = foldl (\<lambda>s line. summarize_line is_zero line s)
    \<lparr>uncovered = Map.empty, cov_files = [], cov_total = []\<rparr> ls"
  have s: "collected (zero_entries is_zero ls) s" "cov_total s = last ([] # List.map_filter total_entry ls)"
    using summarize_fold [OF collected_start, of is_zero ls] by (simp_all add: s_def)
  define r where "r = \<lparr>rep_total = cov_total s,
    rep_files = map (\<lambda>f. (f, sort (the (uncovered s f)))) (sort_key (file_key s) (cov_files s))\<rparr>"
  have "summarize output is_zero profile = Inr r"
    using assms(1) scan_lines_lines [OF assms(2)] by (simp add: summarize_def r_def s_def Let_def)
  moreover have "sorted_wrt before (rep_files r)"
    using sorted_files [of "cov_files s" s] s(1) by (simp add: r_def collected_def)
  moreover have "set (map fst (rep_files r)) = fst ` set (zero_entries is_zero ls)"
    using s(1) by (simp add: r_def collected_def)
  moreover have "\<forall>(fl, fns) \<in> set (rep_files r). sorted fns \<and> mset fns = mset (of_file fl (zero_entries is_zero ls))"
    using s(1) by (auto simp: r_def collected_def of_file_Nil)
  ultimately show ?thesis using s(2) by (intro exI [of _ r]) (simp add: r_def)
qed

theorem summarize_complete_witness:
  "\<exists>r. summarize (\<lambda>_. Inr (concat (map (\<lambda>l. l @ [newline]) [''vm/evm.go:12: Call 0.0%'', ''total: (statements) 71.3%''])))
      (\<lambda>s. s = ''0.0'') ''cover.out'' = Inr r \<and> sorted_wrt before (rep_files r)"
  using summarize_complete [of "\<lambda>_. Inr (concat (map (\<lambda>l. l @ [newline]) [''vm/evm.go:12: Call 0.0%'', ''total: (statements) 71.3%'']))"
      "''cover.out''" "[''vm/evm.go:12: Call 0.0%'', ''total: (statements) 71.3%'']" "\<lambda>s. s = ''0.0''"]
  by (auto simp: plain_line_def MaxScanTokenSize_def)

subsection \<open>The replay command\<close>

text \<open>The processes of a replay that goes through; each sees those before it.\<close>

definition replay_plan :: "'e system \<Rightarrow> replay_flags \<Rightarrow> string \<Rightarrow> string \<Rightarrow> string \<Rightarrow> string \<Rightarrow> command list" where
  "replay_plan S fl dbPath profile pkgDir htmlAbs =
     [list_command, replay_test S fl dbPath profile pkgDir, cover_func profile] @
     (if rf_html fl = [] then [] else [cover_html profile htmlAbs])"

definition succeeds :: "'e system \<Rightarrow> command list \<Rightarrow> bool" where
  "succeeds S cmds \<longleftrightarrow> (\<forall>i < length cmds. \<exists>out. sys_Exec S (take i cmds) (cmds ! i) = Inr out)"

lemma succeeds_snoc:
  "succeeds S (cmds @ [c]) \<longleftrightarrow> succeeds S cmds \<and> (\<exists>out. sys_Exec S cmds c = Inr out)"
  by (auto simp: succeeds_def nth_append less_Suc_eq)

lemma succeeds_Nil: "succeeds S []"
  by (simp add: succeeds_def)

text \<open>A replay runs its processes in the order list, test, report, page, each on the profile and the
  directory found before, and stops at the first that fails: what it started is a prefix of that plan,
  everything before the last one has succeeded, and it returns no error exactly when the whole plan
  has run, all of it has succeeded and the report could be read.\<close>

theorem replay_follows_plan:
  assumes "\<forall>p. sys_Abs S p = Inr (absp p)" and "replay S z fl = (err, rep, cmds)"
  shows "\<exists>pkgDir plan. plan = replay_plan S fl (absp (rf_db fl)) (absp (rf_coverprofile fl)) pkgDir (absp (rf_html fl)) \<and>
    prefix cmds plan \<and> succeeds S (butlast cmds) \<and>
    (err = None \<longleftrightarrow> cmds = plan \<and> succeeds S cmds \<and> rep \<noteq> None)"
proof -
  let ?prof = "absp (rf_coverprofile fl)"
  let ?plan = "\<lambda>pkgDir. replay_plan S fl (absp (rf_db fl)) ?prof pkgDir (absp (rf_html fl))"
  have one: "succeeds S [c] \<longleftrightarrow> (\<exists>out. sys_Exec S [] c = Inr out)" for c
    using succeeds_snoc [of S "[]" c] by (simp add: succeeds_Nil)
  have two: "succeeds S [c, d] \<longleftrightarrow> succeeds S [c] \<and> (\<exists>out. sys_Exec S [c] d = Inr out)" for c d
    using succeeds_snoc [of S "[c]" d] by simp
  have three: "succeeds S [c, d, e] \<longleftrightarrow> succeeds S [c, d] \<and> (\<exists>out. sys_Exec S [c, d] e = Inr out)" for c d e
    using succeeds_snoc [of S "[c, d]" e] by simp
  have four: "succeeds S [c, d, e, k] \<longleftrightarrow> succeeds S [c, d, e] \<and> (\<exists>out. sys_Exec S [c, d, e] k = Inr out)" for c d e k
    using succeeds_snoc [of S "[c, d, e]" k] by simp
  have sum: "summarize ans z p = Inr r \<Longrightarrow> \<exists>out. ans (cover_func p) = Inr out" for ans p r
    by (auto simp: summarize_def split: sum.splits)
  have "\<exists>pkgDir. prefix cmds (?plan pkgDir) \<and> succeeds S (butlast cmds) \<and>
    (err = None \<longleftrightarrow> cmds = ?plan pkgDir \<and> succeeds S cmds \<and> rep \<noteq> None)"
    using assms(2) unfolding replay_def replay_plan_def
    by (auto simp: assms(1) Let_def packageDir_def one two three four succeeds_Nil
        split: sum.splits if_splits dest!: sum)
  then show ?thesis by auto
qed

text \<open>For the witness: a system where only the test run fails.\<close>

definition failing_test :: "string system" where
  "failing_test = \<lparr>sys_Abs = (\<lambda>p. Inr (''/w/'' @ p)), sys_Environ = [],
     sys_Exec = (\<lambda>h c. if length h = 1 then Inl ''exit status 1'' else Inr ''/src''),
     Duration_String = (\<lambda>d. ''1h'')\<rparr>"

definition default_flags :: replay_flags where
  "default_flags = \<lparr>rf_db = ''db'', rf_coverpkg = ''core/vm'', rf_coverprofile = ''cover.out'', rf_html = [],
     rf_limit = 0, rf_workers = 2, rf_timeout = 0\<rparr>"

theorem replay_follows_plan_witness:
  "\<exists>rep cmds pkgDir. replay failing_test (\<lambda>s. s = ''0.0'') default_flags = (Some (Wrap ''replay test failed'' ''exit status 1''), rep, cmds) \<and>
     prefix cmds (replay_plan failing_test default_flags ''/w/db'' ''/w/cover.out'' pkgDir ''/w/'') \<and>
     succeeds failing_test (butlast cmds)"
proof -
  obtain err rep cmds where r: "replay failing_test (\<lambda>s. s = ''0.0'') default_flags = (err, rep, cmds)"
    by (cases "replay failing_test (\<lambda>s. s = ''0.0'') default_flags")
  have "err = Some (Wrap ''replay test failed'' ''exit status 1'')"
    using r by (simp add: replay_def failing_test_def default_flags_def packageDir_def Let_def)
  moreover have "\<forall>p. sys_Abs failing_test p = Inr (''/w/'' @ p)"
    by (simp add: failing_test_def)
  then have "\<exists>pkgDir plan. plan = replay_plan failing_test default_flags (''/w/'' @ rf_db default_flags)
      (''/w/'' @ rf_coverprofile default_flags) pkgDir (''/w/'' @ rf_html default_flags) \<and>
      prefix cmds plan \<and> succeeds failing_test (butlast cmds) \<and>
      (err = None \<longleftrightarrow> cmds = plan \<and> succeeds failing_test cmds \<and> rep \<noteq> None)"
    using r by (rule replay_follows_plan)
  then have "\<exists>pkgDir. prefix cmds (replay_plan failing_test default_flags ''/w/db'' ''/w/cover.out'' pkgDir ''/w/'') \<and>
      succeeds failing_test (butlast cmds)"
    by (simp add: default_flags_def) blast
  ultimately show ?thesis using r by blast
qed

text \<open>The test of a replay is pointed at the database: in its environment the variable of the database
  is the path given, the limit is the one given when it is positive, and so are the workers.  Without a
  positive limit nothing is added, so that a limit already in the environment of the caller stays.\<close>

theorem replay_test_environment:
  "\<exists>env. cmd_Env (replay_test S fl dbPath profile pkgDir) = Some env \<and>
    lookup_env env replayDBEnv = Some dbPath \<and>
    lookup_env env replayLimitEnv =
      (if 0 < rf_limit fl then Some (decimal (nat (rf_limit fl))) else lookup_env (sys_Environ S) replayLimitEnv) \<and>
    lookup_env env replayWorkersEnv =
      (if 0 < rf_workers fl then Some (decimal (nat (rf_workers fl)))
       else lookup_env (sys_Environ S) replayWorkersEnv)"
  by (simp add: replay_test_def Let_def lookup_env_append replayDBEnv_def replayLimitEnv_def
      replayWorkersEnv_def assign_def split: option.splits)

end
