(* ===== verification/Protocol.thy ===== *)
theory Protocol
  imports Prelude
begin

text \<open>
  The wire protocol between the server that owns the database and the fuzzing workers
  (\<open>cmd/fuzzyvm-db/protocol.go\<close>): frames with an opcode and a length, and the encoding of code
  blobs in a PUT.  \<open>io.Writer\<close> and \<open>io.Reader\<close> are what the standard library makes of them: a
  write of some bytes, and \<open>io.ReadFull\<close> of a number of bytes, on a connection of any type.
\<close>

datatype io_error =
    EOF
  | UnexpectedEOF
  | ErrClosed
  | FrameTooLarge nat
  | TruncatedLength
  | TruncatedBody u32 nat

type_synonym 'c writer = "'c \<Rightarrow> byte list \<Rightarrow> io_error option \<times> 'c"
type_synonym 'c reader = "'c \<Rightarrow> nat \<Rightarrow> (io_error + byte list) \<times> 'c"
type_synonym 'c closer = "'c \<Rightarrow> io_error option \<times> 'c"

definition opHas :: byte where "opHas = 0x48"
definition opPut :: byte where "opPut = 0x50"
definition respAbsent :: byte where "respAbsent = 0"
definition respPresent :: byte where "respPresent = 1"
definition respAck :: byte where "respAck = 2"
definition maxFrame :: nat where "maxFrame = 1 * 2 ^ 20"

definition writeFrame :: "'c writer \<Rightarrow> 'c \<Rightarrow> byte \<Rightarrow> byte list \<Rightarrow> io_error option \<times> 'c" where
  "writeFrame Write w op payload =
     (if length payload > maxFrame then (Some (FrameTooLarge (length payload)), w)
      else
        (let hdr = replicate 5 0;
             hdr = hdr[0 := op];
             hdr = copy_range hdr 1 5 (be_bytes 4 (unat (of_nat (length payload) :: u32)))
         in case Write w hdr of
              (Some err, w) \<Rightarrow> (Some err, w)
            | (None, w) \<Rightarrow> Write w payload))"

definition readByte :: "'c reader \<Rightarrow> 'c \<Rightarrow> (io_error + byte) \<times> 'c" where
  "readByte ReadFull r =
     (case ReadFull r 1 of
        (Inl err, r) \<Rightarrow> (Inl err, r)
      | (Inr b, r) \<Rightarrow> (Inr (b ! 0), r))"

definition readFrame :: "'c reader \<Rightarrow> 'c \<Rightarrow> (io_error + byte \<times> byte list) \<times> 'c" where
  "readFrame ReadFull r =
     (case ReadFull r 5 of
        (Inl err, r) \<Rightarrow> (Inl err, r)
      | (Inr hdr, r) \<Rightarrow>
          (let n = (of_nat (be_val (drop 1 hdr)) :: u32)
           in if unat n > maxFrame then (Inl (FrameTooLarge (unat n)), r)
              else case ReadFull r (unat n) of
                (Inl err, r) \<Rightarrow> (Inl err, r)
              | (Inr payload, r) \<Rightarrow> (Inr (hdr ! 0, payload), r)))"

definition encodeBlobs :: "byte list list \<Rightarrow> byte list" where
  "encodeBlobs blobs =
     foldl (\<lambda>out b. out @ be_bytes 4 (unat (of_nat (length b) :: u32)) @ b) [] blobs"

function decodeBlobs_loop :: "byte list list \<Rightarrow> byte list \<Rightarrow> io_error + byte list list" where
  "decodeBlobs_loop blobs payload =
     (if length payload > 0 then
        (if length payload < 4 then Inl TruncatedLength
         else
           (let n = (of_nat (be_val (take 4 payload)) :: u32);
                payload = drop 4 payload
            in if (of_nat (length payload) :: u32) < n
               then Inl (TruncatedBody n (length payload))
               else decodeBlobs_loop (blobs @ [take (unat n) payload]) (drop (unat n) payload)))
      else Inr blobs)"
  by pat_completeness auto
termination by (relation "measure (\<lambda>(blobs, payload). length payload)") auto

declare decodeBlobs_loop.simps [simp del]

definition decodeBlobs :: "byte list \<Rightarrow> io_error + byte list list" where
  "decodeBlobs payload = decodeBlobs_loop [] payload"

subsection \<open>Connections\<close>

text \<open>
  One end of a socket: the bytes received and not yet read, the bytes sent, and whether this end
  is open.  \<open>ReadFull\<close> is the read on a connection on which nothing more will arrive than what has.
\<close>

record conn =
  recvd :: "byte list"
  sent :: "byte list"
  opened :: bool

definition conn_Write :: "conn \<Rightarrow> byte list \<Rightarrow> io_error option \<times> conn" where
  "conn_Write c bs = (if opened c then (None, c\<lparr>sent := sent c @ bs\<rparr>) else (Some ErrClosed, c))"

definition ReadFull :: "conn \<Rightarrow> nat \<Rightarrow> (io_error + byte list) \<times> conn" where
  "ReadFull c n =
     (if n = 0 then (Inr [], c)
      else if \<not> opened c then (Inl ErrClosed, c)
      else if recvd c = [] then (Inl EOF, c)
      else if length (recvd c) < n then (Inl UnexpectedEOF, c\<lparr>recvd := []\<rparr>)
      else (Inr (take n (recvd c)), c\<lparr>recvd := drop n (recvd c)\<rparr>))"

subsection \<open>Frames\<close>

lemma unat_length_u32: "n < 2 ^ 32 \<Longrightarrow> unat (of_nat n :: u32) = n"
  by (simp add: unat_of_nat)

lemma maxFrame_small: "n \<le> maxFrame \<Longrightarrow> n < 2 ^ 32"
  by (simp add: maxFrame_def)

definition frame :: "byte \<Rightarrow> byte list \<Rightarrow> byte list" where
  "frame op payload = op # be_bytes 4 (length payload) @ payload"

lemma frame_header: "copy_range ((replicate 5 0)[0 := op]) 1 5 (be_bytes 4 n) = op # be_bytes 4 n"
proof -
  have "(replicate 5 0)[0 := op] = [op] @ replicate 4 0"
    by (simp add: numeral_eq_Suc)
  moreover have "copy_range ([op] @ replicate 4 0) 1 5 (be_bytes 4 n) = ([op] @ be_bytes 4 n) @ replicate (4 - 4) 0"
    using copy_range_fill [of "[op]" 1 5 "be_bytes 4 n" 4 0] by simp
  ultimately show ?thesis by simp
qed

lemma writeFrame_writes:
  "length payload \<le> maxFrame \<Longrightarrow>
    writeFrame Write w op payload =
      (case Write w (op # be_bytes 4 (length payload)) of
         (Some err, w) \<Rightarrow> (Some err, w)
       | (None, w) \<Rightarrow> Write w payload)"
  using maxFrame_small [of "length payload"] frame_header [of op "length payload"]
  by (simp add: writeFrame_def unat_length_u32 Let_def)

lemma writeFrame_sends:
  "opened w \<Longrightarrow> length payload \<le> maxFrame \<Longrightarrow>
    writeFrame conn_Write w op payload = (None, w\<lparr>sent := sent w @ frame op payload\<rparr>)"
  by (simp add: writeFrame_writes conn_Write_def frame_def)

lemma ReadFull_append:
  "opened r \<Longrightarrow> recvd r = bs @ rest \<Longrightarrow> ReadFull r (length bs) = (Inr bs, r\<lparr>recvd := rest\<rparr>)"
  by (cases "bs = []") (auto simp: ReadFull_def)

lemma readFrame_frame:
  assumes "opened r" and "recvd r = frame op payload @ rest" and "length payload \<le> maxFrame"
  shows "readFrame ReadFull r = (Inr (op, payload), r\<lparr>recvd := rest\<rparr>)"
proof -
  define hdr where "hdr = op # be_bytes 4 (length payload)"
  have 1: "ReadFull r 5 = (Inr hdr, r\<lparr>recvd := payload @ rest\<rparr>)"
    using ReadFull_append [OF assms(1), of hdr "payload @ rest"] assms(2)
    by (simp add: hdr_def frame_def)
  have "be_val (drop 1 hdr) = length payload"
    using maxFrame_small [OF assms(3)] by (simp add: hdr_def be_val_be_bytes)
  then have "unat (of_nat (be_val (drop 1 hdr)) :: u32) = length payload"
    using maxFrame_small [OF assms(3)] by (simp add: unat_of_nat)
  moreover have "ReadFull (r\<lparr>recvd := payload @ rest\<rparr>) (length payload) = (Inr payload, r\<lparr>recvd := rest\<rparr>)"
    using ReadFull_append [of "r\<lparr>recvd := payload @ rest\<rparr>" payload rest] assms(1) by simp
  ultimately show ?thesis
    using assms(3) by (simp add: readFrame_def 1 Let_def) (simp add: hdr_def)
qed

lemma readFrame_consumes:
  "readFrame ReadFull r = (Inr x, r') \<Longrightarrow> length (recvd r') + 5 \<le> length (recvd r) \<and>
    sent r' = sent r \<and> opened r' = opened r"
  by (auto simp: readFrame_def ReadFull_def Let_def split: prod.splits sum.splits if_splits)

subsection \<open>Blobs\<close>

lemma encodeBlobs_simps:
  "encodeBlobs [] = []"
  "encodeBlobs (bs @ [b]) = encodeBlobs bs @ be_bytes 4 (unat (of_nat (length b) :: u32)) @ b"
  by (simp_all add: encodeBlobs_def)

lemma encodeBlobs_Cons:
  "encodeBlobs (b # bs) = be_bytes 4 (unat (of_nat (length b) :: u32)) @ b @ encodeBlobs bs"
  by (induction bs rule: rev_induct) (simp_all add: encodeBlobs_simps flip: append_Cons, simp add: encodeBlobs_def)

lemma decodeBlobs_step:
  assumes "length b < 2 ^ 32" and "length b + length rest < 2 ^ 32"
  shows "decodeBlobs_loop acc (be_bytes 4 (length b) @ b @ rest) = decodeBlobs_loop (acc @ [b]) rest"
proof -
  have "256 ^ 4 = (2 ^ 32 :: nat)" by simp
  with assms(1) have n: "of_nat (be_val (be_bytes 4 (length b))) = (of_nat (length b) :: u32)"
    by (simp add: be_val_be_bytes)
  have "\<not> (of_nat (length (b @ rest)) :: u32) < of_nat (length b)"
    unfolding word_less_nat_alt using assms by (subst (1 2) unat_length_u32) simp_all
  then show ?thesis
    using assms(1)
    by (subst decodeBlobs_loop.simps) (simp add: n Let_def unat_length_u32 del: of_nat_add)
qed

lemma decodeBlobs_loop_encode:
  "length (encodeBlobs bs) < 2 ^ 32 \<Longrightarrow> decodeBlobs_loop acc (encodeBlobs bs) = Inr (acc @ bs)"
proof (induction bs arbitrary: acc)
  case Nil
  show ?case by (simp add: encodeBlobs_simps decodeBlobs_loop.simps)
next
  case (Cons b bs)
  then have l: "length b < 2 ^ 32" "length b + length (encodeBlobs bs) < 2 ^ 32"
    by (simp_all add: encodeBlobs_Cons)
  then show ?case
    using Cons.IH [of "acc @ [b]"] decodeBlobs_step [OF l, of acc]
    by (simp add: encodeBlobs_Cons unat_length_u32)
qed

lemma decodeBlobs_loop_inv:
  "decodeBlobs_loop acc p = Inr r \<Longrightarrow> length p < 2 ^ 32 \<Longrightarrow> \<exists>bs. r = acc @ bs \<and> encodeBlobs bs = p"
proof (induction acc p rule: decodeBlobs_loop.induct)
  case (1 acc p)
  define n where "n = (of_nat (be_val (take 4 p)) :: u32)"
  define q where "q = drop 4 p"
  show ?case
  proof (cases "p = []")
    case True
    with "1.prems" show ?thesis
      by (intro exI [of _ "[]"]) (simp add: decodeBlobs_loop.simps encodeBlobs_simps)
  next
    case False
    with "1.prems"(1) have len: "4 \<le> length p" and ge: "\<not> (of_nat (length q) :: u32) < n"
      and rec: "decodeBlobs_loop (acc @ [take (unat n) q]) (drop (unat n) q) = Inr r"
      by (subst (asm) decodeBlobs_loop.simps; simp add: Let_def n_def q_def split: if_splits)+
    have "length q < 2 ^ 32" using "1.prems"(2) by (simp add: q_def)
    then have nq: "unat n \<le> length q"
      using ge unat_length_u32 [of "length q"] by (simp add: word_less_nat_alt)
    have shorter: "length (drop (unat n) q) < 2 ^ 32"
      using \<open>length q < 2 ^ 32\<close> by (simp add: less_imp_diff_less)
    obtain bs where bs: "r = (acc @ [take (unat n) q]) @ bs" "encodeBlobs bs = drop (unat n) q"
      using "1.IH" [OF _ _ n_def q_def ge rec] False len shorter by auto
    have four: "length (take 4 p) = 4" using len by simp
    have "be_val (take 4 p) < 2 ^ 32"
      using be_val_bound [of "take 4 p", unfolded four] by simp
    then have "unat n = be_val (take 4 p)"
      unfolding n_def by (rule unat_length_u32)
    then have "be_bytes 4 (unat n) = take 4 p"
      using be_bytes_be_val [of "take 4 p", unfolded four] by simp
    then have "encodeBlobs (take (unat n) q # bs) = p"
      using nq bs(2) append_take_drop_id [of 4 p]
      by (simp add: encodeBlobs_Cons min_absorb2 flip: q_def)
    with bs(1) show ?thesis
      by (intro exI [of _ "take (unat n) q # bs"]) simp
  qed
qed

text \<open>C27. A frame written by \<open>writeFrame\<close> is read back by \<open>readFrame\<close> at the other end, opcode and
  payload unchanged and nothing of what follows it consumed; a payload of more than 1 MiB is
  refused before anything is sent, and a header that announces more is refused on reading.\<close>

theorem frame_roundtrip:
  assumes "opened w" and "opened r" and "length payload \<le> maxFrame"
    and "length big > maxFrame"
  shows "\<exists>w'. writeFrame conn_Write w op payload = (None, w') \<and>
      (\<exists>bs. sent w' = sent w @ bs \<and>
        readFrame ReadFull (r\<lparr>recvd := bs @ rest\<rparr>) = (Inr (op, payload), r\<lparr>recvd := rest\<rparr>)) \<and>
      writeFrame conn_Write w op big = (Some (FrameTooLarge (length big)), w) \<and>
      (length big < 2 ^ 32 \<longrightarrow>
        fst (readFrame ReadFull (r\<lparr>recvd := op # be_bytes 4 (length big) @ rest\<rparr>)) =
          Inl (FrameTooLarge (length big)))"
proof -
  have "fst (readFrame ReadFull (r\<lparr>recvd := op # be_bytes 4 (length big) @ rest\<rparr>)) =
      Inl (FrameTooLarge (length big))" if "length big < 2 ^ 32"
  proof -
    have "ReadFull (r\<lparr>recvd := op # be_bytes 4 (length big) @ rest\<rparr>) 5 =
        (Inr (op # be_bytes 4 (length big)), r\<lparr>recvd := rest\<rparr>)"
      using ReadFull_append [of "r\<lparr>recvd := op # be_bytes 4 (length big) @ rest\<rparr>"
          "op # be_bytes 4 (length big)" rest] assms(2) by simp
    then show ?thesis
      using that assms(4) by (simp add: readFrame_def Let_def be_val_be_bytes unat_of_nat)
  qed
  with writeFrame_sends [OF assms(1,3), of op] assms(4)
    readFrame_frame [of "r\<lparr>recvd := frame op payload @ rest\<rparr>" op payload rest] assms(2,3)
  show ?thesis
    by (simp add: writeFrame_def [of _ _ _ big])
qed

text \<open>C26. \<open>decodeBlobs\<close> and \<open>encodeBlobs\<close> are inverse to each other: a PUT payload of less than
  4 GiB decodes to a list of blobs exactly when it is the encoding of that list, so every list of
  blobs survives the wire and a malformed payload is an error.\<close>

theorem decodeBlobs_encodeBlobs:
  assumes "length p < 2 ^ 32"
  shows "decodeBlobs p = Inr bs \<longleftrightarrow> encodeBlobs bs = p"
  using decodeBlobs_loop_encode [of bs "[]"] decodeBlobs_loop_inv [of "[]" p bs] assms
  by (auto simp: decodeBlobs_def)

theorem decodeBlobs_encodeBlobs_witness:
  "decodeBlobs [0, 0, 0, 1, 7, 0, 0, 0, 0] = Inr [[7], []]"
proof -
  have "encodeBlobs [[7], []] = [0, 0, 0, 1, 7, 0, 0, 0, 0]"
    by code_simp
  then show ?thesis
    using decodeBlobs_encodeBlobs [of "[0, 0, 0, 1, 7, 0, 0, 0, 0]" "[[7], []]"] by simp
qed

text \<open>A fresh connection.\<close>

definition new_conn :: conn where
  "new_conn = \<lparr>recvd = [], sent = [], opened = True\<rparr>"

theorem frame_roundtrip_witness:
  "\<exists>w' bs. writeFrame conn_Write new_conn opHas [1, 2, 3] = (None, w') \<and> sent w' = bs \<and>
    readFrame ReadFull (new_conn\<lparr>recvd := bs\<rparr>) = (Inr (opHas, [1, 2, 3]), new_conn\<lparr>recvd := []\<rparr>)"
proof -
  have "opened new_conn" "length [1, 2, 3 :: byte] \<le> maxFrame"
    "length (replicate (Suc maxFrame) (0 :: byte)) > maxFrame"
    by (simp_all add: new_conn_def maxFrame_def del: replicate.simps)
  from frame_roundtrip [OF this(1,1,2,3), of opHas "[]"] show ?thesis
    by (auto simp: new_conn_def)
qed

lemma decode_encode:
  "length (encodeBlobs bs) < 2 ^ 32 \<Longrightarrow> decodeBlobs (encodeBlobs bs) = Inr bs"
  by (simp add: decodeBlobs_def decodeBlobs_loop_encode)

end
