(* ===== verification/Store.thy ===== *)
theory Store
  imports Libraries Protocol
begin

text \<open>
  The database of bytecodes (\<open>cmd/fuzzyvm-db/main.go\<close>): the interface \<open>db\<close> as a record of methods
  over a state, its implementation \<open>pebbleDB\<close>, and the operations on codes.  The pebble package is
  a parameter; \<open>pebble_laws\<close> states what its documentation promises: \<open>Get\<close> finds what is stored, a
  write that fails changes nothing, and a batch is applied as a whole or not at all.

  The locales state what the clients of the interface may rely on.  \<open>db_store\<close>: whatever
  errors occur, the contents change only by codes stored under their own hash, all of a batch or
  none.  \<open>db_durable\<close>: in addition an answer can be trusted, so that a write that reports no error has
  stored the code.
\<close>

text \<open>
  \<open>ErrSocket\<close> and \<open>ErrResponse\<close> are the errors that wrap \<open>errSocket\<close> (\<open>client.go\<close>); \<open>ErrConn\<close> is an error
  of the connection that is returned as it is.
\<close>

datatype 'e db_error =
    ErrNotFound
  | DBFailure 'e
  | ErrSocket io_error
  | ErrResponse byte
  | ErrConn io_error

record ('s, 'e) db =
  db_Get :: "'s \<Rightarrow> byte list \<Rightarrow> ('e db_error + byte list) \<times> 's"
  db_Set :: "'s \<Rightarrow> byte list \<Rightarrow> byte list \<Rightarrow> 'e db_error option \<times> 's"
  db_SetBatch :: "'s \<Rightarrow> byte list list \<Rightarrow> byte list list \<Rightarrow> ('e db_error option \<times> 's) option"
  db_Close :: "'s \<Rightarrow> 'e db_error option \<times> 's"

definition makeKey :: "lib \<Rightarrow> byte list \<Rightarrow> byte list" where
  "makeKey X code = sha256_Sum256 X code"

definition isNotFound :: "'e db_error \<Rightarrow> bool" where
  "isNotFound err \<longleftrightarrow> err = ErrNotFound"

definition hasCode ::
    "('s, 'e) db \<Rightarrow> lib \<Rightarrow> 's \<Rightarrow> byte list \<Rightarrow> ('e db_error + bool) \<times> 's" where
  "hasCode D X s code =
     (case db_Get D s (makeKey X code) of
        (Inl err, s) \<Rightarrow> if isNotFound err then (Inr False, s) else (Inl err, s)
      | (Inr _, s) \<Rightarrow> (Inr True, s))"

definition putCode ::
    "('s, 'e) db \<Rightarrow> lib \<Rightarrow> 's \<Rightarrow> byte list \<Rightarrow> 'e db_error option \<times> 's" where
  "putCode D X s code = db_Set D s (makeKey X code) code"

subsection \<open>The pebble database\<close>

record ('p, 'b, 'e) pebble =
  peb_Get :: "'p \<Rightarrow> byte list \<Rightarrow> 'e db_error + byte list"
  peb_Set :: "'p \<Rightarrow> byte list \<Rightarrow> byte list \<Rightarrow> 'e db_error option \<times> 'p"
  peb_NewBatch :: "'p \<Rightarrow> 'b"
  batch_Set :: "'b \<Rightarrow> byte list \<Rightarrow> byte list \<Rightarrow> 'e db_error option \<times> 'b"
  batch_Commit :: "'b \<Rightarrow> 'p \<Rightarrow> 'e db_error option \<times> 'p"
  peb_Close :: "'p \<Rightarrow> 'e db_error option \<times> 'p"

definition pebbleDB_Get ::
    "('p, 'b, 'e) pebble \<Rightarrow> 'p \<Rightarrow> byte list \<Rightarrow> ('e db_error + byte list) \<times> 'p" where
  "pebbleDB_Get P s key =
     (case peb_Get P s key of
        Inl err \<Rightarrow> (Inl err, s)
      | Inr val \<Rightarrow> (Inr val, s))"

definition pebbleDB_Set ::
    "('p, 'b, 'e) pebble \<Rightarrow> 'p \<Rightarrow> byte list \<Rightarrow> byte list \<Rightarrow> 'e db_error option \<times> 'p" where
  "pebbleDB_Set P s key val = peb_Set P s key val"

fun pebbleDB_SetBatch_loop ::
    "('p, 'b, 'e) pebble \<Rightarrow> nat \<Rightarrow> byte list list \<Rightarrow> byte list list \<Rightarrow> 'b \<Rightarrow> ('e db_error option \<times> 'b) option"
where
  "pebbleDB_SetBatch_loop P i [] vals batch = Some (None, batch)"
| "pebbleDB_SetBatch_loop P i (key # keys) vals batch = do {
     val \<leftarrow> index vals i;
     case batch_Set P batch key val of
       (Some err, batch) \<Rightarrow> Some (Some err, batch)
     | (None, batch) \<Rightarrow> pebbleDB_SetBatch_loop P (i + 1) keys vals batch
   }"

definition pebbleDB_SetBatch ::
    "('p, 'b, 'e) pebble \<Rightarrow> 'p \<Rightarrow> byte list list \<Rightarrow> byte list list \<Rightarrow> ('e db_error option \<times> 'p) option" where
  "pebbleDB_SetBatch P s keys vals = do {
     let batch = peb_NewBatch P s;
     (err, batch) \<leftarrow> pebbleDB_SetBatch_loop P 0 keys vals batch;
     case err of
       Some err \<Rightarrow> Some (Some err, s)
     | None \<Rightarrow> Some (batch_Commit P batch s)
   }"

definition pebbleDB_Close :: "('p, 'b, 'e) pebble \<Rightarrow> 'p \<Rightarrow> 'e db_error option \<times> 'p" where
  "pebbleDB_Close P s = peb_Close P s"

definition pebbleDB :: "('p, 'b, 'e) pebble \<Rightarrow> ('p, 'e) db" where
  "pebbleDB P =
     \<lparr>db_Get = pebbleDB_Get P, db_Set = pebbleDB_Set P, db_SetBatch = pebbleDB_SetBatch P,
      db_Close = pebbleDB_Close P\<rparr>"

type_synonym contents = "byte list \<Rightarrow> byte list option"

definition pebble_laws ::
    "('p, 'b, 'e) pebble \<Rightarrow> ('p \<Rightarrow> contents) \<Rightarrow> ('b \<Rightarrow> (byte list \<times> byte list) list) \<Rightarrow> bool" where
  "pebble_laws P C B \<longleftrightarrow>
     (\<forall>s k v. peb_Get P s k = Inr v \<longrightarrow> C s k = Some v) \<and>
     (\<forall>s k. peb_Get P s k = Inl ErrNotFound \<longrightarrow> C s k = None) \<and>
     (\<forall>s k v. C (snd (peb_Set P s k v)) =
        (if fst (peb_Set P s k v) = None then (C s)(k \<mapsto> v) else C s)) \<and>
     (\<forall>s. B (peb_NewBatch P s) = []) \<and>
     (\<forall>b k v. fst (batch_Set P b k v) = None \<longrightarrow> B (snd (batch_Set P b k v)) = B b @ [(k, v)]) \<and>
     (\<forall>b s. C (snd (batch_Commit P b s)) =
        (if fst (batch_Commit P b s) = None then C s ++ map_of (rev (B b)) else C s))"

text \<open>No call fails, other than by \<open>ErrNotFound\<close>.\<close>

definition never_fails :: "('p, 'b, 'e) pebble \<Rightarrow> bool" where
  "never_fails P \<longleftrightarrow>
     (\<forall>s k e. peb_Get P s k = Inl e \<longrightarrow> e = ErrNotFound) \<and>
     (\<forall>s k v. fst (peb_Set P s k v) = None) \<and>
     (\<forall>b k v. fst (batch_Set P b k v) = None) \<and>
     (\<forall>b s. fst (batch_Commit P b s) = None)"

subsection \<open>The contract of the interface\<close>

text \<open>Codes of \<open>vs\<close> may have been stored under their hash, and nothing else has changed.\<close>

definition changes ::
    "(byte list \<Rightarrow> byte list) \<Rightarrow> contents \<Rightarrow> byte list list \<Rightarrow> contents \<Rightarrow> bool" where
  "changes h c vs c' \<longleftrightarrow>
     (\<forall>k. c' k = c k \<or> (\<exists>v \<in> set vs. k = h v \<and> c' k = Some v)) \<and>
     (c' = c \<or> (\<forall>v \<in> set vs. h v \<in> dom c'))"

definition content_addressed :: "(byte list \<Rightarrow> byte list) \<Rightarrow> contents \<Rightarrow> bool" where
  "content_addressed h c \<longleftrightarrow> (\<forall>k v. c k = Some v \<longrightarrow> k = h v)"

lemma changes_refl [simp]: "changes h c vs c"
  by (simp add: changes_def)

lemma changes_content_addressed:
  "changes h c vs c' \<Longrightarrow> content_addressed h c \<Longrightarrow> content_addressed h c'"
  unfolding changes_def content_addressed_def by (metis option.inject)

lemma changes_dom: "changes h c vs c' \<Longrightarrow> dom c \<subseteq> dom c'"
  unfolding changes_def dom_def by force

lemma changes_more:
  assumes "changes h c new c'" and "\<forall>b \<in> set new. b \<in> set vs"
    and "\<forall>b \<in> set vs. b \<in> set new \<or> h b \<in> dom c"
  shows "changes h c vs c'"
  unfolding changes_def
proof (intro conjI allI)
  fix k
  show "c' k = c k \<or> (\<exists>v \<in> set vs. k = h v \<and> c' k = Some v)"
    using assms(1,2) unfolding changes_def by blast
next
  have "c' = c \<or> (\<forall>v \<in> set new. h v \<in> dom c')"
    using assms(1) unfolding changes_def by blast
  then show "c' = c \<or> (\<forall>v \<in> set vs. h v \<in> dom c')"
    using assms(3) changes_dom [OF assms(1)] by blast
qed

lemma changes_all: "changes h c vs c' \<Longrightarrow> k \<in> dom c' \<Longrightarrow> k \<notin> dom c \<Longrightarrow> v \<in> set vs \<Longrightarrow> h v \<in> dom c'"
  unfolding changes_def by metis

locale db_store =
  fixes ok :: bool
    and inv :: "'s \<Rightarrow> bool"
    and D :: "('s, 'e) db"
    and C :: "'s \<Rightarrow> contents"
    and X :: lib
  assumes get: "ok \<Longrightarrow> inv s \<Longrightarrow> db_Get D s k = (res, s') \<Longrightarrow>
      inv s' \<and> C s' = C s \<and> (\<forall>v. res = Inr v \<longrightarrow> k \<in> dom (C s))"
    and set: "ok \<Longrightarrow> inv s \<Longrightarrow> db_Set D s (makeKey X v) v = (r, s') \<Longrightarrow>
      inv s' \<and> changes (makeKey X) (C s) [v] (C s')"
    and set_batch: "ok \<Longrightarrow> inv s \<Longrightarrow>
      \<exists>r s'. db_SetBatch D s (map (makeKey X) vs) vs = Some (r, s') \<and>
        inv s' \<and> changes (makeKey X) (C s) vs (C s')"
begin

lemma hasCode_spec:
  "ok \<Longrightarrow> inv s \<Longrightarrow> hasCode D X s code = (r, s') \<Longrightarrow>
    inv s' \<and> C s' = C s \<and> (r = Inr True \<longrightarrow> makeKey X code \<in> dom (C s))"
  using get [of s "makeKey X code"]
  by (auto simp: hasCode_def split: prod.splits sum.splits if_splits)

lemma putCode_spec:
  "ok \<Longrightarrow> inv s \<Longrightarrow> putCode D X s code = (r, s') \<Longrightarrow>
    inv s' \<and> changes (makeKey X) (C s) [code] (C s')"
  using set by (simp add: putCode_def)

end

lemma db_store_conj:
  assumes S: "db_store ok I D C X"
  shows "db_store (ok \<and> p) I D C X"
proof (rule db_store.intro)
  fix s s' k v vs r res
  assume "ok \<and> p" and I: "I s"
  from \<open>ok \<and> p\<close> have ok by (rule conjunct1)
  show "db_Get D s k = (res, s') \<Longrightarrow> I s' \<and> C s' = C s \<and> (\<forall>v. res = Inr v \<longrightarrow> k \<in> dom (C s))"
    by (rule db_store.get [OF S \<open>ok\<close> I])
  show "db_Set D s (makeKey X v) v = (r, s') \<Longrightarrow> I s' \<and> changes (makeKey X) (C s) [v] (C s')"
    by (rule db_store.set [OF S \<open>ok\<close> I])
  show "\<exists>r s'. db_SetBatch D s (map (makeKey X) vs) vs = Some (r, s') \<and>
      I s' \<and> changes (makeKey X) (C s) vs (C s')"
    by (rule db_store.set_batch [OF S \<open>ok\<close> I])
qed

locale db_durable = db_store +
  assumes get_absent: "ok \<Longrightarrow> inv s \<Longrightarrow> db_Get D s k = (Inl ErrNotFound, s') \<Longrightarrow> k \<notin> dom (C s)"
    and set_stored: "ok \<Longrightarrow> inv s \<Longrightarrow> db_Set D s (makeKey X v) v = (None, s') \<Longrightarrow>
      makeKey X v \<in> dom (C s')"
    and batch_stored: "ok \<Longrightarrow> inv s \<Longrightarrow> db_SetBatch D s (map (makeKey X) vs) vs = Some (None, s') \<Longrightarrow>
      v \<in> set vs \<Longrightarrow> makeKey X v \<in> dom (C s')"
begin

lemma hasCode_iff:
  "ok \<Longrightarrow> inv s \<Longrightarrow> hasCode D X s code = (Inr b, s') \<Longrightarrow> b \<longleftrightarrow> makeKey X code \<in> dom (C s)"
  using get [of s "makeKey X code"] get_absent [of s "makeKey X code"]
  by (auto simp: hasCode_def isNotFound_def split: prod.splits sum.splits if_splits)

end

lemma batch_loop_spec:
  assumes laws: "pebble_laws P C B"
  shows "length keys + i \<le> length vals \<Longrightarrow>
    \<exists>err b'. pebbleDB_SetBatch_loop P i keys vals b = Some (err, b') \<and>
      (err = None \<longrightarrow> B b' = B b @ zip keys (drop i vals)) \<and>
      (never_fails P \<longrightarrow> err = None)"
proof (induction keys arbitrary: i b)
  case (Cons key keys)
  then have i: "i < length vals" by simp
  obtain e b1 where b1: "batch_Set P b key (vals ! i) = (e, b1)" by force
  show ?case
  proof (cases e)
    case None
    with b1 laws have "B b1 = B b @ [(key, vals ! i)]"
      unfolding pebble_laws_def by (metis fst_conv snd_conv)
    with Cons.IH [of "i + 1" b1] Cons.prems i show ?thesis
      by (fastforce simp: b1 None Cons_nth_drop_Suc [symmetric])
  next
    case (Some x)
    with b1 show ?thesis by (auto simp: i never_fails_def) (metis fst_conv option.distinct(1))
  qed
qed simp

lemma map_of_zip_hash:
  "map_of (rev (zip (map h vs) vs)) k = Some v \<Longrightarrow> v \<in> set vs \<and> k = h v"
  by (drule map_of_SomeD) (auto simp: set_zip)

lemma dom_zip_hash: "dom (map_of (rev (zip (map h vs) vs))) = h ` set vs"
  by (force simp: dom_map_of_conv_image_fst set_zip in_set_conv_nth image_iff)

lemma changes_batch: "changes h c vs (c ++ map_of (rev (zip (map h vs) vs)))"
  unfolding changes_def
proof (intro conjI allI)
  fix k
  show "(c ++ map_of (rev (zip (map h vs) vs))) k = c k \<or>
      (\<exists>v \<in> set vs. k = h v \<and> (c ++ map_of (rev (zip (map h vs) vs))) k = Some v)"
    using map_of_zip_hash [of h vs k]
    by (cases "map_of (rev (zip (map h vs) vs)) k") (auto simp: map_add_def)
next
  show "c ++ map_of (rev (zip (map h vs) vs)) = c \<or>
      (\<forall>v \<in> set vs. h v \<in> dom (c ++ map_of (rev (zip (map h vs) vs))))"
    unfolding dom_map_add dom_zip_hash by blast
qed

lemma pebbleDB_SetBatch_spec:
  assumes laws: "pebble_laws P C B"
  shows "\<exists>err s'. pebbleDB_SetBatch P s (map h vs) vs = Some (err, s') \<and>
    (C s' = C s \<and> err \<noteq> None \<or> C s' = C s ++ map_of (rev (zip (map h vs) vs))) \<and>
    (never_fails P \<longrightarrow> err = None)"
proof -
  obtain err b where loop: "pebbleDB_SetBatch_loop P 0 (map h vs) vs (peb_NewBatch P s) = Some (err, b)"
    and b: "err = None \<longrightarrow> B b = B (peb_NewBatch P s) @ zip (map h vs) vs"
    and nf: "never_fails P \<longrightarrow> err = None"
    using batch_loop_spec [OF laws, of "map h vs" 0 vs "peb_NewBatch P s"] by auto
  have "B (peb_NewBatch P s) = []"
    using laws by (simp add: pebble_laws_def)
  with b have B: "err = None \<longrightarrow> B b = zip (map h vs) vs" by simp
  have commit: "C (snd (batch_Commit P b s)) =
      (if fst (batch_Commit P b s) = None then C s ++ map_of (rev (B b)) else C s)"
    using laws by (simp add: pebble_laws_def)
  show ?thesis
  proof (cases err)
    case None
    have "never_fails P \<Longrightarrow> fst (batch_Commit P b s) = None"
      by (simp add: never_fails_def)
    with None commit B show ?thesis
      by (cases "batch_Commit P b s") (auto simp: pebbleDB_SetBatch_def loop split: if_splits)
  next
    case (Some e)
    with nf show ?thesis by (simp add: pebbleDB_SetBatch_def loop)
  qed
qed

interpretation pebble_store: db_store "pebble_laws P C B" "\<lambda>_. True" "pebbleDB P" C X for P C B X
proof unfold_locales
  fix s s' k v vs and r :: "'c db_error option" and res
  assume laws: "pebble_laws P C B"
  show "db_Get (pebbleDB P) s k = (res, s') \<Longrightarrow>
      True \<and> C s' = C s \<and> (\<forall>v. res = Inr v \<longrightarrow> k \<in> dom (C s))"
    using laws by (auto simp: pebbleDB_def pebbleDB_Get_def pebble_laws_def split: sum.splits)
  have "changes h c [v] (c(h v \<mapsto> v))" for h c
    by (auto simp: changes_def)
  then show "db_Set (pebbleDB P) s (makeKey X v) v = (r, s') \<Longrightarrow>
      True \<and> changes (makeKey X) (C s) [v] (C s')"
    using laws unfolding pebble_laws_def by (simp add: pebbleDB_def pebbleDB_Set_def) (metis changes_refl snd_conv)
  show "\<exists>r s'. db_SetBatch (pebbleDB P) s (map (makeKey X) vs) vs = Some (r, s') \<and>
      True \<and> changes (makeKey X) (C s) vs (C s')"
    using pebbleDB_SetBatch_spec [OF laws, of s "makeKey X" vs] changes_batch [of "makeKey X" "C s" vs]
    by (auto simp: pebbleDB_def)
qed

interpretation pebble_durable: db_durable "pebble_laws P C B" "\<lambda>_. True" "pebbleDB P" C X for P C B X
proof unfold_locales
  fix s s' k v vs
  assume laws: "pebble_laws P C B"
  show "db_Get (pebbleDB P) s k = (Inl ErrNotFound, s') \<Longrightarrow> k \<notin> dom (C s)"
    using laws by (auto simp: pebbleDB_def pebbleDB_Get_def pebble_laws_def split: sum.splits)
  show "db_Set (pebbleDB P) s (makeKey X v) v = (None, s') \<Longrightarrow> makeKey X v \<in> dom (C s')"
    using laws unfolding pebble_laws_def by (simp add: pebbleDB_def pebbleDB_Set_def) (metis domI fst_conv fun_upd_same snd_conv)
  show "db_SetBatch (pebbleDB P) s (map (makeKey X) vs) vs = Some (None, s') \<Longrightarrow>
      v \<in> set vs \<Longrightarrow> makeKey X v \<in> dom (C s')"
    using pebbleDB_SetBatch_spec [OF laws, of s "makeKey X" vs] dom_zip_hash [of "makeKey X" vs]
    by (auto simp: pebbleDB_def)
qed

text \<open>A database in memory that never fails, for the witnesses.\<close>

definition mem_pebble :: "(contents, (byte list \<times> byte list) list, string) pebble" where
  "mem_pebble =
     \<lparr>peb_Get = (\<lambda>s k. case s k of None \<Rightarrow> Inl ErrNotFound | Some v \<Rightarrow> Inr v),
      peb_Set = (\<lambda>s k v. (None, s(k \<mapsto> v))),
      peb_NewBatch = (\<lambda>s. []),
      batch_Set = (\<lambda>b k v. (None, b @ [(k, v)])),
      batch_Commit = (\<lambda>b s. (None, s ++ map_of (rev b))),
      peb_Close = (\<lambda>s. (None, s))\<rparr>"

lemma mem_pebble_laws: "pebble_laws mem_pebble (\<lambda>s. s) (\<lambda>b. b)"
  by (auto simp: pebble_laws_def mem_pebble_def split: option.splits)

lemma mem_pebble_never_fails: "never_fails mem_pebble"
  by (auto simp: never_fails_def mem_pebble_def split: option.splits)

end
