(* ===== verification/Server.thy ===== *)
theory Server
  imports Store
begin

text \<open>
  The server that owns the database (\<open>cmd/fuzzyvm-db/server.go\<close>): the requests \<open>has\<close> and \<open>put\<close> and
  the handler of a connection, over any implementation of the database interface.  The counters are
  unbounded here.  \<open>conn\<close> is the server's end of the connection; log messages are left out.  How
  connections start and end is modelled in the theory \<open>Shutdown\<close>.
\<close>

record 's server =
  sv_db :: 's
  sv_stored :: int
  sv_received :: int

datatype 'e put_error = DecodeFailed io_error | StoreFailed "'e db_error"

definition dbServer_has ::
    "('s, 'e) db \<Rightarrow> 's server \<Rightarrow> byte list \<Rightarrow> ('e db_error + bool) \<times> 's server" where
  "dbServer_has D sv hash =
     (case db_Get D (sv_db sv) hash of
        (Inl err, s) \<Rightarrow>
          if isNotFound err then (Inr False, sv\<lparr>sv_db := s\<rparr>) else (Inl err, sv\<lparr>sv_db := s\<rparr>)
      | (Inr _, s) \<Rightarrow> (Inr True, sv\<lparr>sv_db := s\<rparr>))"

fun dbServer_put_loop ::
    "('s, 'e) db \<Rightarrow> lib \<Rightarrow> byte list list \<Rightarrow> byte list list \<Rightarrow> byte list list \<Rightarrow> 's server \<Rightarrow>
      ('e put_error + byte list list \<times> byte list list) \<times> 's server" where
  "dbServer_put_loop D X [] keys vals sv = (Inr (keys, vals), sv)"
| "dbServer_put_loop D X (code # blobs) keys vals sv =
     (let sv = sv\<lparr>sv_received := sv_received sv + 1\<rparr>;
          key = makeKey X code
      in case db_Get D (sv_db sv) key of
           (Inr _, s) \<Rightarrow> dbServer_put_loop D X blobs keys vals (sv\<lparr>sv_db := s\<rparr>)
         | (Inl err, s) \<Rightarrow>
             if \<not> isNotFound err then (Inl (StoreFailed err), sv\<lparr>sv_db := s\<rparr>)
             else dbServer_put_loop D X blobs (keys @ [key]) (vals @ [code]) (sv\<lparr>sv_db := s\<rparr>))"

definition dbServer_put ::
    "('s, 'e) db \<Rightarrow> lib \<Rightarrow> 's server \<Rightarrow> byte list \<Rightarrow> ('e put_error option \<times> 's server) option" where
  "dbServer_put D X sv payload =
     (case decodeBlobs payload of
        Inl err \<Rightarrow> Some (Some (DecodeFailed err), sv)
      | Inr blobs \<Rightarrow>
          (case dbServer_put_loop D X blobs [] [] sv of
             (Inl err, sv) \<Rightarrow> Some (Some err, sv)
           | (Inr (keys, vals), sv) \<Rightarrow>
               if length keys = 0 then Some (None, sv)
               else do {
                 (err, s) \<leftarrow> db_SetBatch D (sv_db sv) keys vals;
                 case err of
                   Some e \<Rightarrow> Some (Some (StoreFailed e), sv\<lparr>sv_db := s\<rparr>)
                 | None \<Rightarrow> Some (None, sv\<lparr>sv_db := s, sv_stored := sv_stored sv + int (length keys)\<rparr>)
               }))"

definition writeByte :: "'c writer \<Rightarrow> 'c \<Rightarrow> byte \<Rightarrow> io_error option \<times> 'c" where
  "writeByte Write w b = Write w [b]"

text \<open>One round of the loop of \<open>handle\<close>: whether it goes on, the server and the connection.\<close>

definition handle_round ::
    "('s, 'e) db \<Rightarrow> lib \<Rightarrow> 's server \<Rightarrow> conn \<Rightarrow> (bool \<times> 's server \<times> conn) option" where
  "handle_round D X sv c =
     (case readFrame ReadFull c of
        (Inl err, c) \<Rightarrow> Some (False, sv, c)
      | (Inr (op, payload), c) \<Rightarrow>
          if op = opHas then
            (let (r, sv) = dbServer_has D sv payload;
                 resp = (case r of Inl err \<Rightarrow> respAbsent
                                 | Inr have \<Rightarrow> if have then respPresent else respAbsent);
                 (err, c) = writeByte conn_Write c resp
             in Some (err = None, sv, c))
          else if op = opPut then do {
            (_, sv) \<leftarrow> dbServer_put D X sv payload;
            let (err, c) = writeByte conn_Write c respAck;
            Some (err = None, sv, c)
          }
          else Some (False, sv, c))"

lemma handle_round_reads:
  "handle_round D X sv c = Some (True, sv', c') \<Longrightarrow> length (recvd c') < length (recvd c)"
  using readFrame_consumes [of c]
  by (fastforce simp: handle_round_def writeByte_def conn_Write_def Let_def
      split: prod.splits sum.splits if_splits bind_splits)

text \<open>The deferred calls close the connection when the loop is left.\<close>

function dbServer_handle ::
    "('s, 'e) db \<Rightarrow> lib \<Rightarrow> 's server \<Rightarrow> conn \<Rightarrow> ('s server \<times> conn) option" where
  "dbServer_handle D X sv c =
     (case handle_round D X sv c of
        None \<Rightarrow> None
      | Some (True, sv, c) \<Rightarrow> dbServer_handle D X sv c
      | Some (False, sv, c) \<Rightarrow> Some (sv, c\<lparr>opened := False\<rparr>))"
  by pat_completeness auto
termination
  by (relation "measure (\<lambda>(D, X, sv, c). length (recvd c))") (auto dest: handle_round_reads)

declare dbServer_handle.simps [simp del]

subsection \<open>PUT\<close>

context db_store
begin

lemma put_loop_spec:
  assumes ok
  shows "inv (sv_db sv) \<Longrightarrow> dbServer_put_loop D X blobs keys vals sv = (res, sv') \<Longrightarrow>
    inv (sv_db sv') \<and> C (sv_db sv') = C (sv_db sv) \<and> sv_stored sv' = sv_stored sv \<and>
    (\<forall>ks vs. res = Inr (ks, vs) \<longrightarrow>
      sv_received sv' = sv_received sv + int (length blobs) \<and>
      (\<exists>new. vs = vals @ new \<and> ks = keys @ map (makeKey X) new \<and> (\<forall>b \<in> set new. b \<in> set blobs) \<and>
        (\<forall>b \<in> set blobs. b \<in> set new \<or> makeKey X b \<in> dom (C (sv_db sv)))))"
proof (induction blobs arbitrary: keys vals sv)
  case (Cons code blobs)
  let ?sv1 = "sv\<lparr>sv_received := sv_received sv + 1\<rparr>"
  obtain g s where g: "db_Get D (sv_db sv) (makeKey X code) = (g, s)" by force
  with get [OF \<open>ok\<close> Cons.prems(1)] have s: "inv s" "C s = C (sv_db sv)"
    and present: "\<And>v. g = Inr v \<Longrightarrow> makeKey X code \<in> dom (C (sv_db sv))" by blast+
  let ?sv2 = "?sv1\<lparr>sv_db := s\<rparr>"
  note IH = Cons.IH [of ?sv2, simplified, OF s(1)]
  show ?case
  proof (cases g)
    case (Inr v)
    with Cons.prems(2) have "dbServer_put_loop D X blobs keys vals ?sv2 = (res, sv')"
      by (simp add: g)
    from IH [OF this] present [OF Inr] show ?thesis
      unfolding s(2) by fastforce
  next
    case (Inl err)
    show ?thesis
    proof (cases "isNotFound err")
      case True
      with Inl Cons.prems(2) have
        "dbServer_put_loop D X blobs (keys @ [makeKey X code]) (vals @ [code]) ?sv2 = (res, sv')"
        by (simp add: g)
      from IH [OF this] show ?thesis
        unfolding s(2) by (auto intro: exI [of _ "code # new" for new])
    next
      case False
      with Inl Cons.prems(2) s show ?thesis by (auto simp: g)
    qed
  qed
qed auto

lemma put_spec:
  assumes ok and "inv (sv_db sv)"
  shows "\<exists>err sv'. dbServer_put D X sv payload = Some (err, sv') \<and> inv (sv_db sv') \<and>
    (case decodeBlobs payload of
       Inl e \<Rightarrow> err = Some (DecodeFailed e) \<and> sv' = sv
     | Inr blobs \<Rightarrow>
         (\<exists>new. set new \<subseteq> set blobs \<and> changes (makeKey X) (C (sv_db sv)) new (C (sv_db sv'))) \<and>
         (err \<noteq> None \<longrightarrow> sv_stored sv' = sv_stored sv))"
proof (cases "decodeBlobs payload")
  case (Inl e)
  then show ?thesis using assms by (simp add: dbServer_put_def)
next
  case (Inr blobs)
  obtain res sv1 where l: "dbServer_put_loop D X blobs [] [] sv = (res, sv1)" by force
  note sv1 = put_loop_spec [OF assms l]
  show ?thesis
  proof (cases res)
    case (Inl e)
    with sv1 show ?thesis
      by (auto simp: dbServer_put_def Inr l intro: exI [of _ "[]"])
  next
    case (Inr x)
    with sv1 obtain new where new: "x = (map (makeKey X) new, new)" "set new \<subseteq> set blobs"
      by (cases x) auto
    obtain r s' where b: "db_SetBatch D (sv_db sv1) (map (makeKey X) new) new = Some (r, s')" "inv s'"
      "changes (makeKey X) (C (sv_db sv1)) new (C s')"
      using set_batch [OF \<open>ok\<close>, of "sv_db sv1" new] sv1 by blast
    show ?thesis
    proof (cases "new = []")
      case True
      then show ?thesis using sv1 new Inr \<open>decodeBlobs payload = Inr blobs\<close>
        by (auto simp: dbServer_put_def l intro: exI [of _ "[]"])
    next
      case False
      then show ?thesis
        using sv1 new b Inr \<open>decodeBlobs payload = Inr blobs\<close>
        by (cases r) (auto simp: dbServer_put_def l)
    qed
  qed
qed

text \<open>The blobs that were there are there, so all of the payload is stored or nothing is.\<close>

lemma put_changes:
  assumes ok and "inv (sv_db sv)" and dec: "decodeBlobs payload = Inr blobs"
  shows "\<exists>err sv'. dbServer_put D X sv payload = Some (err, sv') \<and> inv (sv_db sv') \<and>
    changes (makeKey X) (C (sv_db sv)) blobs (C (sv_db sv'))"
proof -
  obtain res sv1 where l: "dbServer_put_loop D X blobs [] [] sv = (res, sv1)" by force
  note sv1 = put_loop_spec [OF assms(1,2) l]
  show ?thesis
  proof (cases res)
    case (Inl e)
    with sv1 show ?thesis by (auto simp: dbServer_put_def dec l)
  next
    case (Inr x)
    with sv1 obtain new where new: "x = (map (makeKey X) new, new)" "\<forall>b \<in> set new. b \<in> set blobs"
      "\<forall>b \<in> set blobs. b \<in> set new \<or> makeKey X b \<in> dom (C (sv_db sv))"
      by (cases x) auto
    obtain r s' where b: "db_SetBatch D (sv_db sv1) (map (makeKey X) new) new = Some (r, s')" "inv s'"
      "changes (makeKey X) (C (sv_db sv1)) new (C s')"
      using set_batch [OF \<open>ok\<close>, of "sv_db sv1" new] sv1 by blast
    have "changes (makeKey X) (C (sv_db sv)) blobs (C s')"
      using changes_more [of "makeKey X" _ new "C s'" blobs] b(3) sv1 new(2,3) by simp
    with sv1 b show ?thesis
      by (cases "new = []"; cases r) (auto simp: dbServer_put_def dec l Inr new(1))
  qed
qed

end

context db_durable
begin

lemma put_loop_new:
  assumes ok
  shows "inv (sv_db sv) \<Longrightarrow> dbServer_put_loop D X blobs keys vals sv = (Inr (ks, vs), sv') \<Longrightarrow>
    vs = vals @ filter (\<lambda>b. makeKey X b \<notin> dom (C (sv_db sv))) blobs"
proof (induction blobs arbitrary: keys vals sv)
  case (Cons code blobs)
  let ?sv1 = "sv\<lparr>sv_received := sv_received sv + 1\<rparr>"
  obtain g s where g: "db_Get D (sv_db sv) (makeKey X code) = (g, s)" by force
  with get [OF \<open>ok\<close> Cons.prems(1)] have s: "inv s" "C s = C (sv_db sv)"
    and present: "\<And>v. g = Inr v \<Longrightarrow> makeKey X code \<in> dom (C (sv_db sv))" by blast+
  have absent: "g = Inl ErrNotFound \<Longrightarrow> makeKey X code \<notin> dom (C (sv_db sv))"
    using get_absent [OF \<open>ok\<close> Cons.prems(1)] g by blast
  let ?sv2 = "?sv1\<lparr>sv_db := s\<rparr>"
  note IH = Cons.IH [of ?sv2, simplified, OF s(1)]
  show ?case
  proof (cases g)
    case (Inr v)
    with Cons.prems(2) present [OF Inr] IH show ?thesis by (auto simp: g s(2))
  next
    case (Inl e)
    with Cons.prems(2) have e: "g = Inl ErrNotFound"
      and rest: "dbServer_put_loop D X blobs (keys @ [makeKey X code]) (vals @ [code]) ?sv2 = (Inr (ks, vs), sv')"
      by (auto simp: g isNotFound_def Let_def split: if_splits)
    from IH [OF rest] absent [OF e] show ?thesis by (simp add: s(2))
  qed
qed simp

lemma put_stored:
  assumes ok and "inv (sv_db sv)" and "decodeBlobs payload = Inr blobs"
    and put: "dbServer_put D X sv payload = Some (None, sv')"
  shows "(\<forall>b \<in> set blobs. makeKey X b \<in> dom (C (sv_db sv'))) \<and>
    sv_received sv' = sv_received sv + int (length blobs) \<and>
    sv_stored sv' = sv_stored sv +
      int (length (filter (\<lambda>b. makeKey X b \<notin> dom (C (sv_db sv))) blobs))"
proof -
  define new where "new = filter (\<lambda>b. makeKey X b \<notin> dom (C (sv_db sv))) blobs"
  obtain res sv1 where l: "dbServer_put_loop D X blobs [] [] sv = (res, sv1)" by force
  note sv1 = put_loop_spec [OF assms(1,2) l]
  from put l assms(3) obtain ks vs where res: "res = Inr (ks, vs)"
    by (cases res) (auto simp: dbServer_put_def)
  from put_loop_new [OF assms(1,2) l [unfolded res]] have vs: "vs = new" by (simp add: new_def)
  from sv1 res this have ks: "ks = map (makeKey X) new" by auto
  have old: "b \<in> set blobs \<Longrightarrow> b \<in> set new \<or> makeKey X b \<in> dom (C (sv_db sv))" for b
    by (auto simp: new_def)
  show ?thesis
  proof (cases "new = []")
    case True
    with put sv1 res vs ks old show ?thesis
      by (auto simp: dbServer_put_def assms(3) l new_def [symmetric])
  next
    case False
    then obtain s' where b: "db_SetBatch D (sv_db sv1) (map (makeKey X) new) new = Some (None, s')"
      and sv': "sv' = sv1\<lparr>sv_db := s', sv_stored := sv_stored sv1 + int (length new)\<rparr>"
      using put by (auto simp: dbServer_put_def assms(3) l res vs ks split: bind_splits option.splits)
    have "dom (C (sv_db sv)) \<subseteq> dom (C s')"
      using set_batch [OF \<open>ok\<close>, of "sv_db sv1" new] sv1 b changes_dom by fastforce
    moreover have "x \<in> set new \<Longrightarrow> makeKey X x \<in> dom (C s')" for x
      using batch_stored [OF \<open>ok\<close> _ b] sv1 by blast
    ultimately have "\<forall>b \<in> set blobs. makeKey X b \<in> dom (C s')"
      using old by blast
    with sv1 show ?thesis by (simp add: sv' res new_def)
  qed
qed

end

subsection \<open>HAS\<close>

context db_store
begin

lemma has_spec:
  "ok \<Longrightarrow> inv (sv_db sv) \<Longrightarrow> dbServer_has D sv k = (r, sv') \<Longrightarrow>
    inv (sv_db sv') \<and> C (sv_db sv') = C (sv_db sv) \<and> (r = Inr True \<longrightarrow> k \<in> dom (C (sv_db sv)))"
  using get [of "sv_db sv" k]
  by (auto simp: dbServer_has_def split: prod.splits sum.splits if_splits)

end

subsection \<open>The handler answers every request\<close>

datatype request = HAS "byte list" | PUT "byte list"

definition request_frame :: "request \<Rightarrow> byte list" where
  "request_frame q = (case q of HAS k \<Rightarrow> frame opHas k | PUT p \<Rightarrow> frame opPut p)"

definition request_size :: "request \<Rightarrow> nat" where
  "request_size q = (case q of HAS k \<Rightarrow> length k | PUT p \<Rightarrow> length p)"

text \<open>What a request means: the answer and the server afterwards.\<close>

definition serve_request ::
    "('s, 'e) db \<Rightarrow> lib \<Rightarrow> 's server \<Rightarrow> request \<Rightarrow> (byte \<times> 's server) option" where
  "serve_request D X sv q =
     (case q of
        HAS k \<Rightarrow>
          (case dbServer_has D sv k of
             (r, sv) \<Rightarrow> Some (if r = Inr True then respPresent else respAbsent, sv))
      | PUT p \<Rightarrow> do {
          (_, sv) \<leftarrow> dbServer_put D X sv p;
          Some (respAck, sv)
        })"

fun serve_requests ::
    "('s, 'e) db \<Rightarrow> lib \<Rightarrow> 's server \<Rightarrow> request list \<Rightarrow> (byte list \<times> 's server) option" where
  "serve_requests D X sv [] = Some ([], sv)"
| "serve_requests D X sv (q # qs) = do {
     (b, sv) \<leftarrow> serve_request D X sv q;
     (bs, sv) \<leftarrow> serve_requests D X sv qs;
     Some (b # bs, sv)
   }"

lemma handle_round_request:
  assumes "opened c" and "recvd c = request_frame q @ rest" and "request_size q \<le> maxFrame"
  shows "handle_round D X sv c =
    (case serve_request D X sv q of
       None \<Rightarrow> None
     | Some (b, sv) \<Rightarrow> Some (True, sv, c\<lparr>recvd := rest, sent := sent c @ [b]\<rparr>))"
proof (cases q)
  case (HAS k)
  with assms readFrame_frame [OF assms(1), of opHas k rest]
  have "readFrame ReadFull c = (Inr (opHas, k), c\<lparr>recvd := rest\<rparr>)"
    by (simp add: request_frame_def request_size_def)
  with HAS assms(1) show ?thesis
    by (auto simp: handle_round_def serve_request_def writeByte_def conn_Write_def Let_def
        split: prod.split sum.split)
next
  case (PUT p)
  with assms readFrame_frame [OF assms(1), of opPut p rest]
  have "readFrame ReadFull c = (Inr (opPut, p), c\<lparr>recvd := rest\<rparr>)"
    by (simp add: request_frame_def request_size_def)
  with PUT assms(1) show ?thesis
    by (cases "dbServer_put D X sv p")
      (auto simp: handle_round_def serve_request_def writeByte_def conn_Write_def Let_def opHas_def opPut_def)
qed

lemma handle_requests:
  assumes "opened c" and "recvd c = concat (map request_frame qs)"
    and "\<forall>q \<in> set qs. request_size q \<le> maxFrame"
  shows "dbServer_handle D X sv c =
    (case serve_requests D X sv qs of
       None \<Rightarrow> None
     | Some (bs, sv) \<Rightarrow> Some (sv, c\<lparr>recvd := [], sent := sent c @ bs, opened := False\<rparr>))"
  using assms
proof (induction qs arbitrary: sv c)
  case Nil
  then have "handle_round D X sv c = Some (False, sv, c)"
    by (simp add: handle_round_def readFrame_def ReadFull_def)
  with Nil.prems show ?case
    by (subst dbServer_handle.simps) simp
next
  case (Cons q qs)
  have "handle_round D X sv c =
    (case serve_request D X sv q of
       None \<Rightarrow> None
     | Some (b, sv) \<Rightarrow> Some (True, sv, c\<lparr>recvd := concat (map request_frame qs), sent := sent c @ [b]\<rparr>))"
    using Cons.prems by (intro handle_round_request) simp_all
  with Cons show ?case
    by (subst dbServer_handle.simps)
      (auto split: option.split prod.split)
qed



subsection \<open>The server on the pebble database\<close>



lemma put_keeps_on_failure:
  assumes laws: "pebble_laws P C B" and fail: "\<forall>b s. fst (batch_Commit P b s) \<noteq> None"
    and put: "dbServer_put (pebbleDB P) X sv payload = Some (err, sv')"
  shows "C (sv_db sv') = C (sv_db sv)"
proof -
  have commit: "C (snd (batch_Commit P b s)) = C s" for b s
    using laws fail by (simp add: pebble_laws_def)
  have batch: "pebbleDB_SetBatch P s ks vs = Some (r, s') \<Longrightarrow> C s' = C s" for s ks vs r s'
    using commit by (auto simp: pebbleDB_SetBatch_def split: bind_splits option.splits) (metis snd_conv)
  show ?thesis
  proof (cases "decodeBlobs payload")
    case (Inr blobs)
    obtain res sv1 where l: "dbServer_put_loop (pebbleDB P) X blobs [] [] sv = (res, sv1)" by force
    with pebble_store.put_loop_spec [OF laws TrueI] have "C (sv_db sv1) = C (sv_db sv)" by blast
    note put' = put [unfolded dbServer_put_def Inr, simplified, unfolded l, simplified]
    show ?thesis
    proof (cases res)
      case Inl
      with put' \<open>C (sv_db sv1) = C (sv_db sv)\<close> show ?thesis by simp
    next
      case res: (Inr x)
      obtain ks vs where x: "x = (ks, vs)" by (cases x)
      show ?thesis
      proof (cases "ks = []")
        case True
        with put' \<open>C (sv_db sv1) = C (sv_db sv)\<close> show ?thesis by (simp add: res x)
      next
        case False
        with put' obtain r s' where b: "pebbleDB_SetBatch P (sv_db sv1) ks vs = Some (r, s')"
          by (auto simp: res x pebbleDB_def split: bind_splits)
        with put' False have "sv_db sv' = s'"
          by (cases r) (auto simp: res x pebbleDB_def)
        with batch [OF b] \<open>C (sv_db sv1) = C (sv_db sv)\<close> show ?thesis by simp
      qed
    qed
  qed (use put in \<open>simp add: dbServer_put_def\<close>)
qed

text \<open>The answer to a PUT does not tell the worker whether its code is stored: when the database
  fails to commit, the handler still acknowledges the request, although the new code is not there.
  (The protocol says that the acknowledgement is sent so that the worker sees write errors.)\<close>

theorem put_error_is_acknowledged:
  assumes "pebble_laws P C B" and "\<forall>b s. fst (batch_Commit P b s) \<noteq> None"
    and "makeKey X code \<notin> dom (C (sv_db sv))" and "length code + 4 \<le> maxFrame"
    and "opened c" and "recvd c = frame opPut (encodeBlobs [code])"
  shows "\<exists>sv' c'. dbServer_handle (pebbleDB P) X sv c = Some (sv', c') \<and>
    sent c' = sent c @ [respAck] \<and> C (sv_db sv') = C (sv_db sv) \<and>
    makeKey X code \<notin> dom (C (sv_db sv'))"
proof -
  have size: "length (encodeBlobs [code]) = length code + 4"
    by (simp add: encodeBlobs_Cons encodeBlobs_simps(1))
  then have dec: "decodeBlobs (encodeBlobs [code]) = Inr [code]"
    using decode_encode [of "[code]"] maxFrame_small [OF assms(4)] by simp
  obtain err sv' where put: "dbServer_put (pebbleDB P) X sv (encodeBlobs [code]) = Some (err, sv')"
    using pebble_store.put_spec [OF assms(1) TrueI, of X sv "encodeBlobs [code]"] by blast
  have "C (sv_db sv') = C (sv_db sv)"
    using put_keeps_on_failure [OF assms(1,2) put] .
  moreover have "dbServer_handle (pebbleDB P) X sv c =
      Some (sv', c\<lparr>recvd := [], sent := sent c @ [respAck], opened := False\<rparr>)"
    using handle_requests [OF assms(5), of "[PUT (encodeBlobs [code])]" "pebbleDB P" X sv] assms(4,6)
    by (simp add: request_frame_def request_size_def size serve_request_def put)
  ultimately show ?thesis using assms(3) by simp
qed

text \<open>A database in memory whose commits fail.\<close>

definition failing_pebble :: "(contents, (byte list \<times> byte list) list, string) pebble" where
  "failing_pebble = mem_pebble\<lparr>batch_Commit := (\<lambda>b s. (Some (DBFailure ''disk full''), s))\<rparr>"

lemma failing_pebble_laws: "pebble_laws failing_pebble (\<lambda>s. s) (\<lambda>b. b)"
  using mem_pebble_laws by (simp add: pebble_laws_def failing_pebble_def)

theorem put_error_is_acknowledged_witness:
  "\<exists>sv' c'. dbServer_handle (pebbleDB failing_pebble) sample_lib
      \<lparr>sv_db = Map.empty, sv_stored = 0, sv_received = 0\<rparr>
      (new_conn\<lparr>recvd := frame opPut (encodeBlobs [[1, 2]])\<rparr>) = Some (sv', c') \<and>
    sent c' = [respAck] \<and> sv_db sv' = Map.empty"
  using put_error_is_acknowledged [where C = "\<lambda>s. s" and code = "[1, 2]"
      and sv = "\<lparr>sv_db = Map.empty, sv_stored = 0, sv_received = 0\<rparr>"
      and c = "new_conn\<lparr>recvd := frame opPut (encodeBlobs [[1, 2]])\<rparr>",
      OF failing_pebble_laws, of sample_lib]
  by (auto simp: failing_pebble_def new_conn_def maxFrame_def)

end
