(* ===== verification/Database.thy ===== *)
theory Database
  imports Fuzzer Store
begin

text \<open>
  \<open>run\<close> of \<open>cmd/fuzzyvm-db/main.go\<close>: what a fuzzing worker does with one input.  Its lemmas are
  proved in the locales of the database interface, so they hold for the pebble database and for the
  client of the server alike.
\<close>

definition db_run ::
    "'p program_api \<Rightarrow> lib \<Rightarrow> (gst, 'x) goevmlab \<Rightarrow> ('s, 'e) db \<Rightarrow> 's \<Rightarrow> byte list \<Rightarrow>
      ('e db_error option \<times> 's) option" where
  "db_run P X E D s input =
     (if length input < 32 then Some (None, s)
      else do {
        let f = NewFiller input;
        ((gst, bytecode), f) \<leftarrow> GenerateProgram P X f;
        case hasCode D X s bytecode of
          (Inl err, s) \<Rightarrow> Some (Some err, s)
        | (Inr have, s) \<Rightarrow>
            if have then Some (None, s)
            else do {
              r \<leftarrow> MinimizeProgram E gst;
              case r of
                Inl ErrTraceTooLarge \<Rightarrow> Some (putCode D X s bytecode)
              | Inl (FillError e) \<Rightarrow> Some (None, s)
              | Inr (_, minCode) \<Rightarrow>
                  (case hasCode D X s minCode of
                     (Inl err, s) \<Rightarrow> Some (Some err, s)
                   | (Inr have, s) \<Rightarrow>
                       if have then Some (putCode D X s bytecode)
                       else db_SetBatch D s [makeKey X bytecode, makeKey X minCode] [bytecode, minCode])
            }
      })"

lemma db_run_generated:
  assumes "\<not> length input < 32"
    and "GenerateProgram P X (NewFiller input) = Some ((gst, bytecode), f)"
    and "MinimizeProgram E gst = Some r"
  shows "db_run P X E D s input =
    (case hasCode D X s bytecode of
       (Inl err, s) \<Rightarrow> Some (Some err, s)
     | (Inr have, s) \<Rightarrow>
         if have then Some (None, s)
         else case r of
             Inl ErrTraceTooLarge \<Rightarrow> Some (putCode D X s bytecode)
           | Inl (FillError e) \<Rightarrow> Some (None, s)
           | Inr (_, minCode) \<Rightarrow>
               (case hasCode D X s minCode of
                  (Inl err, s) \<Rightarrow> Some (Some err, s)
                | (Inr have, s) \<Rightarrow>
                    if have then Some (putCode D X s bytecode)
                    else db_SetBatch D s [makeKey X bytecode, makeKey X minCode] [bytecode, minCode]))"
  using assms by (simp add: db_run_def Let_def split: prod.split sum.split)

text \<open>What one input does to the database, given its program and the result of the minimiser.\<close>

definition run_effect ::
    "lib \<Rightarrow> contents \<Rightarrow> byte list \<Rightarrow> ('x min_error + gst \<times> byte list) \<Rightarrow> contents \<Rightarrow> bool" where
  "run_effect X c code r c' \<longleftrightarrow>
     (let codes = (case r of Inl _ \<Rightarrow> [code] | Inr (_, m) \<Rightarrow> [code, m])
      in (\<forall>k. c' k = c k \<or> (\<exists>v \<in> set codes. k = makeKey X v \<and> c' k = Some v)) \<and>
         (makeKey X code \<in> dom c' \<longrightarrow> makeKey X code \<in> dom c \<or>
           (\<forall>v \<in> set codes. makeKey X v \<in> dom c')))"

context db_store
begin

text \<open>
  The three things a run can do to the contents: nothing, store the program, or store the program and its
  minimised code together; the program alone only when it has no minimised code that is missing.
\<close>

lemma run_cases:
  assumes ok and inv: "inv s" and len: "\<not> length input < 32"
    and gen: "GenerateProgram P X (NewFiller input) = Some ((gst, code), f)"
    and min: "MinimizeProgram E gst = Some r"
  obtains (nothing) err s' where "db_run P X E D s input = Some (err, s')" "inv s'" "C s' = C s"
  | (full) err s' where "db_run P X E D s input = Some (err, s')" "inv s'"
      "changes (makeKey X) (C s) [code] (C s')" "\<And>e. r \<noteq> Inl (FillError e)"
      "\<And>g m. r = Inr (g, m) \<Longrightarrow> makeKey X m \<in> dom (C s)"
  | (both) err s' g m where "db_run P X E D s input = Some (err, s')" "inv s'" "r = Inr (g, m)"
      "changes (makeKey X) (C s) [code, m] (C s')"
proof -
  note run = db_run_generated [OF len gen min, of D s]
  obtain h1 s1 where h1: "hasCode D X s code = (h1, s1)" by force
  with hasCode_spec [OF \<open>ok\<close> inv] have s1: "inv s1" "C s1 = C s" by auto
  have put: "inv s2 \<Longrightarrow> C s2 = C s \<Longrightarrow> putCode D X s2 code = (e, s3) \<Longrightarrow>
      inv s3 \<and> changes (makeKey X) (C s) [code] (C s3)" for s2 e s3
    using putCode_spec [OF \<open>ok\<close>, of s2] by auto
  consider "h1 \<noteq> Inr False \<or> (\<exists>e. r = Inl (FillError e))" | "h1 = Inr False" "r = Inl ErrTraceTooLarge"
    | x where "h1 = Inr False" "r = Inr x"
    by (cases r) (metis min_error.exhaust)+
  then show ?thesis
  proof cases
    case 1
    then have "\<exists>err. db_run P X E D s input = Some (err, s1)" by (cases h1) (auto simp: run h1)
    then obtain err where "db_run P X E D s input = Some (err, s1)" ..
    from this s1 show ?thesis by (rule nothing)
  next
    case 2
    obtain e s3 where "putCode D X s1 code = (e, s3)" by force
    with put [OF s1] full [of e s3] 2 show ?thesis by (simp add: run h1)
  next
    case (3 x)
    obtain g m where x: "x = (g, m)" by (cases x)
    obtain h2 s2 where h2: "hasCode D X s1 m = (h2, s2)" by force
    with hasCode_spec [OF \<open>ok\<close> s1(1)] s1(2) have s2: "inv s2" "C s2 = C s"
      "h2 = Inr True \<longrightarrow> makeKey X m \<in> dom (C s)" by auto
    consider e where "h2 = Inl e" | "h2 = Inr True" | "h2 = Inr False" by (cases h2) auto
    then show ?thesis
    proof cases
      case 1
      with 3 x have "db_run P X E D s input = Some (Some e, s2)" by (simp add: run h1 h2)
      from this s2(1,2) show ?thesis by (rule nothing)
    next
      case 2
      obtain e s3 where "putCode D X s2 code = (e, s3)" by force
      with put [OF s2(1,2)] full [of e s3] 2 3 s2(3) show ?thesis by (simp add: run h1 x h2)
    next
      case 3
      obtain e s4 where "db_SetBatch D s2 [makeKey X code, makeKey X m] [code, m] = Some (e, s4)"
        "inv s4" "changes (makeKey X) (C s2) [code, m] (C s4)"
        using set_batch [OF \<open>ok\<close> s2(1), of "[code, m]"] by auto
      with both [of e s4 g m] 3 \<open>h1 = Inr False\<close> \<open>r = Inr x\<close> x s2(2) show ?thesis by (simp add: run h1 h2)
    qed
  qed
qed

lemma run_safe:
  assumes ok and inv: "inv s" and len: "\<not> length input < 32"
    and gen: "GenerateProgram P X (NewFiller input) = Some ((gst, code), f)"
    and min: "MinimizeProgram E gst = Some r"
  shows "\<exists>err s'. db_run P X E D s input = Some (err, s') \<and> inv s' \<and> run_effect X (C s) code r (C s')"
  using assms
proof (cases rule: run_cases)
  case (nothing err s')
  then show ?thesis by (auto simp: run_effect_def Let_def)
next
  case (full err s')
  have "run_effect X (C s) code r (C s')"
    using full(3,5) changes_dom [OF full(3)] unfolding changes_def
    by (cases r) (fastforce simp: run_effect_def Let_def)+
  with full show ?thesis by blast
next
  case (both err s' g m)
  then have "run_effect X (C s) code r (C s')"
    unfolding changes_def run_effect_def Let_def by (auto simp: domI)
  with both show ?thesis by blast
qed

end

context db_durable
begin

lemma run_stores:
  assumes ok and inv: "inv s" and len: "\<not> length input < 32"
    and gen: "GenerateProgram P X (NewFiller input) = Some ((gst, code), f)"
    and min: "MinimizeProgram E gst = Some r"
    and run: "db_run P X E D s input = Some (None, s')"
    and fill: "\<forall>e. r \<noteq> Inl (FillError e)"
  shows "makeKey X code \<in> dom (C s')"
proof -
  note run = run [unfolded db_run_generated [OF len gen min, of D s]]
  obtain h1 s1 where h1: "hasCode D X s code = (h1, s1)" by force
  with hasCode_spec [OF \<open>ok\<close> inv] have s1: "inv s1" "C s1 = C s" "h1 = Inr True \<longrightarrow> makeKey X code \<in> dom (C s)"
    by auto
  have put: "inv t \<Longrightarrow> putCode D X t code = (None, s') \<Longrightarrow> makeKey X code \<in> dom (C s')" for t
    using set_stored [OF \<open>ok\<close>] by (simp add: putCode_def)
  have batch: "inv t \<Longrightarrow> db_SetBatch D t [makeKey X code, makeKey X m] [code, m] = Some (None, s') \<Longrightarrow>
      makeKey X code \<in> dom (C s')" for t m
    using batch_stored [OF \<open>ok\<close>, of t "[code, m]"] by simp
  have inv: "inv t \<Longrightarrow> hasCode D X t m = (x, t') \<Longrightarrow> inv t'" for t t' m x
    using hasCode_spec [OF \<open>ok\<close>] by blast
  show ?thesis
  proof (cases "h1 = Inr False")
    case True
    show ?thesis
    proof (cases r)
      case (Inl e)
      with run fill s1(1) put [of s1] True show ?thesis by (cases e) (auto simp: h1)
    next
      case (Inr x)
      obtain g m where x: "x = (g, m)" by (cases x)
      obtain h2 s2 where h2: "hasCode D X s1 m = (h2, s2)" by force
      with inv s1(1) have "inv s2" by blast
      with run put [of s2] batch [of s2 m] show ?thesis
        by (cases h2) (auto simp: h1 True Inr x h2 split: if_splits)
    qed
  next
    case False
    with run s1 show ?thesis by (cases h1) (auto simp: h1)
  qed
qed

end

text \<open>
  What the errors of \<open>run\<close> are, for an implementation of the interface whose errors have a property:
  a missing key is not one of them.
\<close>

locale db_errors =
  fixes D :: "('s, 'e) db"
    and E :: "'e db_error \<Rightarrow> bool"
  assumes get_error: "db_Get D s k = (Inl e, s') \<Longrightarrow> \<not> isNotFound e \<Longrightarrow> E e"
    and set_error: "db_Set D s k v = (Some e, s') \<Longrightarrow> E e"
    and batch_error: "\<exists>err s'. db_SetBatch D s ks vs = Some (err, s') \<and> (\<forall>e. err = Some e \<longrightarrow> E e)"
begin

lemma hasCode_error: "hasCode D X s code = (Inl e, s') \<Longrightarrow> E e"
  using get_error [of s "makeKey X code"]
  by (auto simp: hasCode_def split: prod.splits sum.splits if_splits)

lemma putCode_error: "\<exists>err s'. putCode D X s code = (err, s') \<and> (\<forall>e. err = Some e \<longrightarrow> E e)"
  using set_error [of s "makeKey X code" code] by (cases "putCode D X s code") (auto simp: putCode_def)

lemma run_error:
  assumes "\<not> length input < 32"
    and "GenerateProgram P X (NewFiller input) = Some ((gst, code), f)"
    and "MinimizeProgram L gst = Some r"
  shows "\<exists>err s'. db_run P X L D s input = Some (err, s') \<and> (\<forall>e. err = Some e \<longrightarrow> E e)"
proof -
  note run = db_run_generated [OF assms, of D s]
  obtain h1 s1 where h1: "hasCode D X s code = (h1, s1)" by force
  consider e where "h1 = Inl e" | "h1 = Inr True" | e where "h1 = Inr False" "r = Inl e"
    | g m where "h1 = Inr False" "r = Inr (g, m)"
    by (cases h1; cases r) auto
  then show ?thesis
  proof cases
    case 1
    with h1 hasCode_error [of X s code e s1] show ?thesis by (simp add: run)
  next
    case 2
    then show ?thesis by (simp add: run h1)
  next
    case (3 e)
    then show ?thesis using putCode_error [of X s1 code] by (cases e) (simp_all add: run h1)
  next
    case (4 g m)
    obtain h2 s2 where h2: "hasCode D X s1 m = (h2, s2)" by force
    with 4 hasCode_error [of X s1 m] putCode_error [of X s2 code]
      batch_error [of s2 "[makeKey X code, makeKey X m]" "[code, m]"]
    show ?thesis by (cases h2) (auto simp: run h1)
  qed
qed

end

lemma run_effect_content_addressed:
  "run_effect X c code r c' \<Longrightarrow> content_addressed (makeKey X) c \<Longrightarrow> content_addressed (makeKey X) c'"
  unfolding run_effect_def content_addressed_def Let_def by (metis option.inject)

lemma run_effect_dom: "run_effect X c code r c' \<Longrightarrow> dom c \<subseteq> dom c'"
  unfolding run_effect_def Let_def subset_iff domIff by (metis option.distinct(1))



end
