(* ===== verification/Client.thy ===== *)
theory Client
  imports Server Database
begin

text \<open>
  The database client of the fuzzing workers (\<open>cmd/fuzzyvm-db/client.go\<close>): an implementation of the
  database interface by requests over a connection.  A call holds the mutex of the client from the
  request to the answer, so the calls of a client are sequential.  \<open>link\<close> joins the client's end of a
  socket to the server's end and to the server; a read at the client's end lets the handler of the
  connection work off the frames that have arrived.
\<close>

definition socketDB_Get ::
    "'c writer \<Rightarrow> 'c reader \<Rightarrow> 'c \<Rightarrow> byte list \<Rightarrow> ('e db_error + byte list) \<times> 'c" where
  "socketDB_Get Write rd s key =
     (case writeFrame Write s opHas key of
        (Some err, s) \<Rightarrow> (Inl (ErrSocket err), s)
      | (None, s) \<Rightarrow>
          (case readByte rd s of
             (Inl err, s) \<Rightarrow> (Inl (ErrSocket err), s)
           | (Inr resp, s) \<Rightarrow>
               if resp = respPresent then (Inr [], s)
               else if resp = respAbsent then (Inl ErrNotFound, s)
               else (Inl (ErrResponse resp), s)))"

definition socketDB_putBlobs ::
    "'c writer \<Rightarrow> 'c reader \<Rightarrow> 'c \<Rightarrow> byte list list \<Rightarrow> 'e db_error option \<times> 'c" where
  "socketDB_putBlobs Write rd s blobs =
     (case writeFrame Write s opPut (encodeBlobs blobs) of
        (Some err, s) \<Rightarrow> (Some (ErrSocket err), s)
      | (None, s) \<Rightarrow>
          (case readByte rd s of
             (Inl err, s) \<Rightarrow> (Some (ErrSocket err), s)
           | (Inr resp, s) \<Rightarrow>
               if resp \<noteq> respAck then (Some (ErrResponse resp), s) else (None, s)))"

definition socketDB_Set ::
    "'c writer \<Rightarrow> 'c reader \<Rightarrow> 'c \<Rightarrow> byte list \<Rightarrow> byte list \<Rightarrow> 'e db_error option \<times> 'c" where
  "socketDB_Set Write rd s key val = socketDB_putBlobs Write rd s [val]"

definition socketDB_SetBatch ::
    "'c writer \<Rightarrow> 'c reader \<Rightarrow> 'c \<Rightarrow> byte list list \<Rightarrow> byte list list \<Rightarrow> ('e db_error option \<times> 'c) option"
where
  "socketDB_SetBatch Write rd s keys vals = Some (socketDB_putBlobs Write rd s vals)"

definition socketDB_Close :: "'c closer \<Rightarrow> 'c \<Rightarrow> 'e db_error option \<times> 'c" where
  "socketDB_Close Cl s =
     (case Cl s of
        (None, s) \<Rightarrow> (None, s)
      | (Some err, s) \<Rightarrow> (Some (ErrConn err), s))"

definition socketDB :: "'c writer \<Rightarrow> 'c closer \<Rightarrow> 'c reader \<Rightarrow> ('c, 'e) db" where
  "socketDB Write Cl rd =
     \<lparr>db_Get = socketDB_Get Write rd, db_Set = socketDB_Set Write rd,
      db_SetBatch = socketDB_SetBatch Write rd, db_Close = socketDB_Close Cl\<rparr>"

text \<open>The state of a client is its connection.\<close>

definition dialSocketDB :: "(string \<Rightarrow> string \<Rightarrow> io_error + 'c) \<Rightarrow> string \<Rightarrow> io_error + 'c" where
  "dialSocketDB net_Dial addr =
     (case net_Dial ''unix'' addr of
        Inl err \<Rightarrow> Inl err
      | Inr c \<Rightarrow> Inr c)"

text \<open>Whether an error wraps \<open>errSocket\<close>: \<open>errors.Is(err, errSocket)\<close>.\<close>

fun errSocket :: "'e db_error \<Rightarrow> bool" where
  "errSocket (ErrSocket _) = True"
| "errSocket (ErrResponse _) = True"
| "errSocket _ = False"

subsection \<open>The two ends of a socket\<close>

record 's link =
  near :: conn
  far :: conn
  srv :: "'s server"
  serving :: bool

definition frame_ready :: "conn \<Rightarrow> bool" where
  "frame_ready c \<longleftrightarrow> 5 \<le> length (recvd c) \<and>
     (let n = be_val (take 4 (drop 1 (recvd c))) in n > maxFrame \<or> 5 + n \<le> length (recvd c))"

function link_serve :: "('s, 'e) db \<Rightarrow> lib \<Rightarrow> 's link \<Rightarrow> 's link" where
  "link_serve D X l =
     (if serving l \<and> frame_ready (far l) then
        (case handle_round D X (srv l) (far l) of
           None \<Rightarrow> l\<lparr>serving := False\<rparr>
         | Some (True, sv, c) \<Rightarrow> link_serve D X (l\<lparr>srv := sv, far := c\<rparr>)
         | Some (False, sv, c) \<Rightarrow> l\<lparr>srv := sv, far := c\<lparr>opened := False\<rparr>, serving := False\<rparr>)
      else l)"
  by pat_completeness auto
termination
  by (relation "measure (\<lambda>(D, X, l). length (recvd (far l)))") (auto dest: handle_round_reads)

declare link_serve.simps [simp del]

definition link_Write :: "'s link writer" where
  "link_Write l bs =
     (if \<not> opened (far l) then (Some ErrClosed, l)
      else
        (case conn_Write (near l) bs of
           (Some err, c) \<Rightarrow> (Some err, l\<lparr>near := c\<rparr>)
         | (None, c) \<Rightarrow>
             (None, l\<lparr>near := c\<lparr>sent := []\<rparr>, far := (far l)\<lparr>recvd := recvd (far l) @ sent c\<rparr>\<rparr>)))"

definition link_ReadFull :: "('s, 'e) db \<Rightarrow> lib \<Rightarrow> 's link reader" where
  "link_ReadFull D X l n =
     (let l = link_serve D X l;
          c = (near l)\<lparr>recvd := recvd (near l) @ sent (far l)\<rparr>;
          l = l\<lparr>far := (far l)\<lparr>sent := []\<rparr>\<rparr>;
          (r, c) = ReadFull c n
      in (r, l\<lparr>near := c\<rparr>))"

text \<open>A connection can be closed once; a second time is an error.\<close>

definition link_Close :: "'s link closer" where
  "link_Close l =
     (if opened (near l) then (None, l\<lparr>near := (near l)\<lparr>opened := False\<rparr>\<rparr>) else (Some ErrClosed, l))"

definition idle :: "'s link \<Rightarrow> bool" where
  "idle l \<longleftrightarrow> near l = new_conn \<and> far l = new_conn \<and> serving l"

lemma link_serve_stop: "\<not> frame_ready (far l) \<Longrightarrow> link_serve D X l = l"
  by (simp add: link_serve.simps)

text \<open>One request and its answer.\<close>

lemma link_request:
  assumes idle: "idle l" and size: "request_size q \<le> maxFrame"
    and served: "serve_request D X (srv l) q = Some (b, sv)"
    and op: "request_frame q = frame opc payload" "request_size q = length payload"
  shows "\<exists>l1. writeFrame link_Write l opc payload = (None, l1) \<and>
    readByte (link_ReadFull D X) l1 = (Inr b, l\<lparr>srv := sv\<rparr>)"
proof -
  have near: "near l = new_conn" and far: "far l = new_conn" and "serving l"
    using idle by (simp_all add: idle_def)
  define l1 where "l1 = l\<lparr>far := new_conn\<lparr>recvd := frame opc payload\<rparr>\<rparr>"
  have w: "writeFrame link_Write l opc payload = (None, l1)"
    using size op(2)
    by (simp add: writeFrame_writes link_Write_def conn_Write_def near far new_conn_def l1_def frame_def)
  have ready: "frame_ready (far l1)"
    using maxFrame_small [of "length payload"] size op(2)
    by (simp add: frame_ready_def l1_def frame_def be_val_be_bytes Let_def)
  have "handle_round D X (srv l1) (far l1) = Some (True, sv, new_conn\<lparr>sent := [b]\<rparr>)"
    using handle_round_request [of "far l1" q "[]" D X "srv l1"] served op size
    by (simp add: l1_def new_conn_def)
  moreover have "\<not> frame_ready (new_conn\<lparr>sent := [b]\<rparr>)"
    by (simp add: frame_ready_def new_conn_def)
  ultimately have "link_serve D X l1 = l1\<lparr>srv := sv, far := new_conn\<lparr>sent := [b]\<rparr>\<rparr>"
    using ready \<open>serving l\<close>
    by (subst link_serve.simps) (simp add: l1_def link_serve_stop)
  then have "readByte (link_ReadFull D X) l1 = (Inr b, l\<lparr>srv := sv\<rparr>)"
    using near far
    by (cases l) (simp add: readByte_def link_ReadFull_def ReadFull_def Let_def l1_def new_conn_def)
  with w show ?thesis by blast
qed

lemma idle_srv [simp]: "idle l \<Longrightarrow> idle (l\<lparr>srv := sv\<rparr>)"
  by (simp add: idle_def)

lemma too_large:
  "length payload > maxFrame \<Longrightarrow>
    writeFrame Write w opc payload = (Some (FrameTooLarge (length payload)), w)"
  by (simp add: writeFrame_def)

context db_store
begin

lemma socket_get:
  assumes ok and "idle l" and inv: "inv (sv_db (srv l))"
  shows "\<exists>res l'. socketDB_Get link_Write (link_ReadFull D X) l k = (res :: 'e db_error + byte list, l') \<and>
    idle l' \<and> inv (sv_db (srv l')) \<and> C (sv_db (srv l')) = C (sv_db (srv l)) \<and>
    (\<forall>v. res = Inr v \<longrightarrow> k \<in> dom (C (sv_db (srv l)))) \<and>
    (res = Inl ErrNotFound \<longrightarrow> fst (dbServer_has D (srv l) k) \<noteq> Inr True) \<and>
    (length k \<le> maxFrame \<longrightarrow> res = Inr [] \<or> res = Inl ErrNotFound)"
proof (cases "length k \<le> maxFrame")
  case False
  then show ?thesis using assms by (simp add: socketDB_Get_def too_large)
next
  case True
  obtain r sv where has: "dbServer_has D (srv l) k = (r, sv)" by force
  note spec = has_spec [OF \<open>ok\<close> inv has]
  have "serve_request D X (srv l) (HAS k) = Some (if r = Inr True then respPresent else respAbsent, sv)"
    by (simp add: serve_request_def has)
  from link_request [OF assms(2) _ this, of opHas k] True
  obtain l1 where "writeFrame link_Write l opHas k = (None, l1)"
    "readByte (link_ReadFull D X) l1 = (Inr (if r = Inr True then respPresent else respAbsent), l\<lparr>srv := sv\<rparr>)"
    by (auto simp: request_frame_def request_size_def)
  then show ?thesis
    using spec assms(2) by (auto simp: socketDB_Get_def has respPresent_def respAbsent_def)
qed

lemma socket_put:
  assumes ok and "idle l" and inv: "inv (sv_db (srv l))"
  shows "\<exists>res l'. socketDB_putBlobs link_Write (link_ReadFull D X) l vs = (res :: 'e db_error option, l') \<and>
    idle l' \<and> inv (sv_db (srv l')) \<and> changes (makeKey X) (C (sv_db (srv l))) vs (C (sv_db (srv l'))) \<and>
    (if length (encodeBlobs vs) \<le> maxFrame
     then res = None \<and>
       map_option snd (dbServer_put D X (srv l) (encodeBlobs vs)) = Some (srv l')
     else res = Some (ErrSocket (FrameTooLarge (length (encodeBlobs vs)))) \<and> l' = l)"
proof (cases "length (encodeBlobs vs) \<le> maxFrame")
  case False
  then show ?thesis using assms by (simp add: socketDB_putBlobs_def too_large)
next
  case True
  have dec: "decodeBlobs (encodeBlobs vs) = Inr vs"
    using decode_encode maxFrame_small [OF True] by blast
  obtain err sv where put: "dbServer_put D X (srv l) (encodeBlobs vs) = Some (err, sv)"
    "inv (sv_db sv)" "changes (makeKey X) (C (sv_db (srv l))) vs (C (sv_db sv))"
    using put_changes [OF \<open>ok\<close> inv dec] by blast
  then have "serve_request D X (srv l) (PUT (encodeBlobs vs)) = Some (respAck, sv)"
    by (simp add: serve_request_def)
  from link_request [OF assms(2) _ this, of opPut "encodeBlobs vs"] True
  obtain l1 where "writeFrame link_Write l opPut (encodeBlobs vs) = (None, l1)"
    "readByte (link_ReadFull D X) l1 = (Inr respAck, l\<lparr>srv := sv\<rparr>)"
    by (auto simp: request_frame_def request_size_def)
  then show ?thesis
    using put assms(2) True by (simp add: socketDB_putBlobs_def)
qed

end

subsection \<open>The client is an implementation of the database interface\<close>

interpretation socket_store: db_store "pebble_laws P C B" idle
  "socketDB link_Write link_Close (link_ReadFull (pebbleDB P) X) :: ('p link, 'e) db" "\<lambda>l. C (sv_db (srv l))" X
  for P :: "('p, 'b, 'e) pebble" and C B X
proof unfold_locales
  fix s s' :: "'p link" and k v vs and r :: "'e db_error option" and res :: "'e db_error + byte list"
  assume laws: "pebble_laws P C B" and idle: "idle s"
  show "db_Get (socketDB link_Write link_Close (link_ReadFull (pebbleDB P) X) :: ('p link, 'e) db) s k = (res, s') \<Longrightarrow>
      idle s' \<and> C (sv_db (srv s')) = C (sv_db (srv s)) \<and> (\<forall>v. res = Inr v \<longrightarrow> k \<in> dom (C (sv_db (srv s))))"
    using pebble_store.socket_get [OF laws idle TrueI, of X k] by (auto simp: socketDB_def)
  show "db_Set (socketDB link_Write link_Close (link_ReadFull (pebbleDB P) X) :: ('p link, 'e) db) s (makeKey X v) v = (r, s') \<Longrightarrow>
      idle s' \<and> changes (makeKey X) (C (sv_db (srv s))) [v] (C (sv_db (srv s')))"
    using pebble_store.socket_put [OF laws idle TrueI, of X "[v]"]
    by (auto simp: socketDB_def socketDB_Set_def)
  show "\<exists>r s'. db_SetBatch (socketDB link_Write link_Close (link_ReadFull (pebbleDB P) X) :: ('p link, 'e) db) s (map (makeKey X) vs) vs =
        Some (r, s') \<and>
      idle s' \<and> changes (makeKey X) (C (sv_db (srv s))) vs (C (sv_db (srv s')))"
    using pebble_store.socket_put [OF laws idle TrueI, of X vs]
    by (auto simp: socketDB_def socketDB_SetBatch_def)
qed

text \<open>On a database that never fails, the answers of the server can be trusted.\<close>

lemma put_never_fails:
  assumes laws: "pebble_laws P C B" and "never_fails P" and dec: "decodeBlobs payload = Inr blobs"
  shows "\<exists>sv'. dbServer_put (pebbleDB P) X sv payload = Some (None, sv')"
proof -
  have loop: "\<exists>ks vs sv'. dbServer_put_loop (pebbleDB P) X blobs keys vals sv = (Inr (ks, vs), sv')"
    for keys vals sv
    using assms(2)
    by (induction blobs arbitrary: keys vals sv)
      (auto simp: pebbleDB_def pebbleDB_Get_def never_fails_def isNotFound_def Let_def split: sum.split)
  obtain ks vs sv1 where l: "dbServer_put_loop (pebbleDB P) X blobs [] [] sv = (Inr (ks, vs), sv1)"
    using loop by blast
  with pebble_store.put_loop_spec [OF laws TrueI l] have ks: "ks = map (makeKey X) vs" by auto
  obtain err s' where "pebbleDB_SetBatch P (sv_db sv1) ks vs = Some (None, s')"
    using pebbleDB_SetBatch_spec [OF laws, of "sv_db sv1" "makeKey X" vs] assms(2) ks by auto
  moreover have "db_SetBatch (pebbleDB P) = pebbleDB_SetBatch P" by (simp add: pebbleDB_def)
  ultimately show ?thesis
    by (simp add: dbServer_put_def dec l)
qed

lemma has_never_fails:
  assumes "pebble_laws P C B" and "never_fails P"
  shows "fst (dbServer_has (pebbleDB P) sv k) = Inr (k \<in> dom (C (sv_db sv)))"
  using assms
  by (auto simp: dbServer_has_def pebbleDB_def pebbleDB_Get_def pebble_laws_def never_fails_def isNotFound_def
      split: sum.split)

lemma socket_put_stored:
  fixes P :: "('p, 'b, 'e) pebble"
  assumes laws: "pebble_laws P C B" and nf: "never_fails P" and "idle l"
    and put: "socketDB_putBlobs link_Write (link_ReadFull (pebbleDB P) X) l vs = (None :: 'e db_error option, l')"
    and "v \<in> set vs"
  shows "makeKey X v \<in> dom (C (sv_db (srv l')))"
proof -
  have size: "length (encodeBlobs vs) \<le> maxFrame"
    and sv: "map_option snd (dbServer_put (pebbleDB P) X (srv l) (encodeBlobs vs)) = Some (srv l')"
    using pebble_store.socket_put [OF laws assms(3) TrueI, of X vs, unfolded put]
    by (auto split: if_splits)
  have dec: "decodeBlobs (encodeBlobs vs) = Inr vs"
    using decode_encode maxFrame_small [OF size] by blast
  with put_never_fails [OF laws nf dec, of X "srv l"] sv
  have "dbServer_put (pebbleDB P) X (srv l) (encodeBlobs vs) = Some (None, srv l')" by auto
  with pebble_durable.put_stored [OF laws TrueI dec] assms(5) show ?thesis by blast
qed

interpretation socket_durable: db_durable "pebble_laws P C B \<and> never_fails P" idle
  "socketDB link_Write link_Close (link_ReadFull (pebbleDB P) X) :: ('p link, 'e) db" "\<lambda>l. C (sv_db (srv l))" X
  for P :: "('p, 'b, 'e) pebble" and C B X
proof (intro db_durable.intro db_durable_axioms.intro)
  show "db_store (pebble_laws P C B \<and> never_fails P) idle
      (socketDB link_Write link_Close (link_ReadFull (pebbleDB P) X) :: ('p link, 'e) db) (\<lambda>l. C (sv_db (srv l))) X"
    by (rule db_store_conj [OF socket_store.db_store_axioms])
  fix s s' :: "'p link" and k v vs
  assume "pebble_laws P C B \<and> never_fails P" and idle: "idle s"
  then have laws: "pebble_laws P C B" and nf: "never_fails P" by simp_all
  show "db_Get (socketDB link_Write link_Close (link_ReadFull (pebbleDB P) X) :: ('p link, 'e) db) s k = (Inl ErrNotFound, s') \<Longrightarrow>
      k \<notin> dom (C (sv_db (srv s)))"
    using pebble_store.socket_get [OF laws idle TrueI, of X k] has_never_fails [OF laws nf, of "srv s" k]
    by (auto simp: socketDB_def)
  show "db_Set (socketDB link_Write link_Close (link_ReadFull (pebbleDB P) X) :: ('p link, 'e) db) s (makeKey X v) v = (None, s') \<Longrightarrow>
      makeKey X v \<in> dom (C (sv_db (srv s')))"
    using socket_put_stored [OF laws nf idle] by (fastforce simp: socketDB_def socketDB_Set_def)
  show "db_SetBatch (socketDB link_Write link_Close (link_ReadFull (pebbleDB P) X) :: ('p link, 'e) db) s (map (makeKey X) vs) vs =
        Some (None, s') \<Longrightarrow> v \<in> set vs \<Longrightarrow> makeKey X v \<in> dom (C (sv_db (srv s')))"
    using socket_put_stored [OF laws nf idle] by (auto simp: socketDB_def socketDB_SetBatch_def)
qed

subsection \<open>A worker at the other end of the socket\<close>

text \<open>C14. The client refines the database: as long as the database behind the server does not fail,
  \<open>hasCode\<close> asked over the socket is the answer of the database itself, and storing codes over the
  socket stores all of them, at most the codes given are added, and afterwards the connection is
  free for the next request.  A batch that does not fit a frame is refused with an error and nothing
  changes.\<close>

theorem socket_refines_database:
  fixes P :: "('p, 'b, 'e) pebble"
  assumes "pebble_laws P C B" and "never_fails P" and "idle l" and "lib_laws X"
  defines "S \<equiv> socketDB link_Write link_Close (link_ReadFull (pebbleDB P) X) :: ('p link, 'e) db"
  shows "(\<exists>l'. hasCode S X l code = (Inr (makeKey X code \<in> dom (C (sv_db (srv l)))), l') \<and>
      idle l' \<and> C (sv_db (srv l')) = C (sv_db (srv l))) \<and>
    fst (hasCode (pebbleDB P) X (sv_db (srv l)) code) = Inr (makeKey X code \<in> dom (C (sv_db (srv l)))) \<and>
    (\<exists>err l'. db_SetBatch S l (map (makeKey X) vs) vs = Some (err, l') \<and> idle l' \<and>
      (if length (encodeBlobs vs) \<le> maxFrame
       then err = None \<and> changes (makeKey X) (C (sv_db (srv l))) vs (C (sv_db (srv l'))) \<and>
         (\<forall>v \<in> set vs. makeKey X v \<in> dom (C (sv_db (srv l'))))
       else err \<noteq> None \<and> l' = l))"
proof (intro conjI)
  have key: "length (makeKey X code) \<le> maxFrame"
    using assms(4) by (simp add: makeKey_def length_sha256 maxFrame_def)
  obtain res l1 where g: "socketDB_Get link_Write (link_ReadFull (pebbleDB P) X) l (makeKey X code) =
      (res :: 'e db_error + byte list, l1)" "idle l1" "C (sv_db (srv l1)) = C (sv_db (srv l))"
    and res: "res = Inr [] \<or> res = Inl ErrNotFound"
      "\<forall>v. res = Inr v \<longrightarrow> makeKey X code \<in> dom (C (sv_db (srv l)))"
      "res = Inl ErrNotFound \<longrightarrow> fst (dbServer_has (pebbleDB P) (srv l) (makeKey X code)) \<noteq> Inr True"
    using pebble_store.socket_get [OF assms(1,3) TrueI, of X "makeKey X code"] key by blast
  from res(3) have "res = Inl ErrNotFound \<longrightarrow> makeKey X code \<notin> dom (C (sv_db (srv l)))"
    by (simp add: has_never_fails [OF assms(1,2)])
  with res(1,2) g show "\<exists>l'. hasCode S X l code = (Inr (makeKey X code \<in> dom (C (sv_db (srv l)))), l') \<and>
      idle l' \<and> C (sv_db (srv l')) = C (sv_db (srv l))"
    by (auto simp: hasCode_def S_def socketDB_def isNotFound_def)
  show "fst (hasCode (pebbleDB P) X (sv_db (srv l)) code) = Inr (makeKey X code \<in> dom (C (sv_db (srv l))))"
    using has_never_fails [OF assms(1,2), of "srv l" "makeKey X code"]
    by (auto simp: hasCode_def dbServer_has_def isNotFound_def split: prod.splits sum.splits if_splits)
  obtain err l2 where p: "socketDB_putBlobs link_Write (link_ReadFull (pebbleDB P) X) l vs =
      (err :: 'e db_error option, l2)" "idle l2"
      "changes (makeKey X) (C (sv_db (srv l))) vs (C (sv_db (srv l2)))"
      "if length (encodeBlobs vs) \<le> maxFrame then err = None else err \<noteq> None \<and> l2 = l"
    using pebble_store.socket_put [OF assms(1,3) TrueI, of X vs] by (auto split: if_splits)
  with socket_put_stored [OF assms(1-3), of X vs l2]
  show "\<exists>err l'. db_SetBatch S l (map (makeKey X) vs) vs = Some (err, l') \<and> idle l' \<and>
      (if length (encodeBlobs vs) \<le> maxFrame
       then err = None \<and> changes (makeKey X) (C (sv_db (srv l))) vs (C (sv_db (srv l'))) \<and>
         (\<forall>v \<in> set vs. makeKey X v \<in> dom (C (sv_db (srv l'))))
       else err \<noteq> None \<and> l' = l)"
    by (auto simp: S_def socketDB_def socketDB_SetBatch_def split: if_splits)
qed

text \<open>C10. \<open>run\<close> of a worker that is connected to the server does to the server's database what it
  does to a database of its own: it returns, the database stays content-addressed and loses nothing,
  the full code never appears without its minimised code, whatever fails, and the connection is free
  again.\<close>

theorem run_over_the_socket:
  fixes PB :: "('p, 'b, 'e) pebble"
  assumes "program_laws P" and "lib_laws X" and "pebble_laws PB C B" and "idle l"
    and "content_addressed (makeKey X) (C (sv_db (srv l)))"
  shows "\<exists>err l'. db_run P X E (socketDB link_Write link_Close (link_ReadFull (pebbleDB PB) X) :: ('p link, 'e) db) l d =
      Some (err, l') \<and> idle l' \<and>
    content_addressed (makeKey X) (C (sv_db (srv l'))) \<and> dom (C (sv_db (srv l))) \<subseteq> dom (C (sv_db (srv l'))) \<and>
    (if length d < 32 then err = None \<and> l' = l
     else \<exists>gst code f r. GenerateProgram P X (NewFiller d) = Some ((gst, code), f) \<and>
       MinimizeProgram E gst = Some r \<and> run_effect X (C (sv_db (srv l))) code r (C (sv_db (srv l'))) \<and>
       (never_fails PB \<and> err = None \<and> (\<forall>e. r \<noteq> Inl (FillError e)) \<longrightarrow>
         makeKey X code \<in> dom (C (sv_db (srv l')))))"
proof (cases "length d < 32")
  case True
  with assms show ?thesis by (simp add: db_run_def)
next
  case False
  let ?S = "socketDB link_Write link_Close (link_ReadFull (pebbleDB PB) X) :: ('p link, 'e) db"
  obtain gst code f where gen: "GenerateProgram P X (NewFiller d) = Some ((gst, code), f)"
    using GenerateProgram_Some [OF assms(1,2), of d] by blast
  obtain r where min: "MinimizeProgram E gst = Some r"
    using MinimizeProgram_Some [of E gst] by (elim exE)
  obtain err l' where run: "db_run P X E ?S l d = Some (err, l')" and "idle l'"
    and eff: "run_effect X (C (sv_db (srv l))) code r (C (sv_db (srv l')))"
    using socket_store.run_safe [OF assms(3,4) False gen min] by blast
  have "makeKey X code \<in> dom (C (sv_db (srv l')))"
    if "never_fails PB" "err = None" "\<forall>e. r \<noteq> Inl (FillError e)"
    using socket_durable.run_stores [OF conjI [OF assms(3) that(1)] assms(4) False gen min _ that(3)]
      run that(2) by blast
  with eff gen min have "\<exists>gst code f r. GenerateProgram P X (NewFiller d) = Some ((gst, code), f) \<and>
       MinimizeProgram E gst = Some r \<and> run_effect X (C (sv_db (srv l))) code r (C (sv_db (srv l'))) \<and>
       (never_fails PB \<and> err = None \<and> (\<forall>e. r \<noteq> Inl (FillError e)) \<longrightarrow>
         makeKey X code \<in> dom (C (sv_db (srv l'))))"
    by (intro exI [of _ gst] exI [of _ code] exI [of _ f] exI [of _ r]) simp
  with run \<open>idle l'\<close> False run_effect_content_addressed [OF eff assms(5)] run_effect_dom [OF eff]
  show ?thesis
    by (intro exI [of _ err] exI [of _ l']) (simp only: if_False simp_thms)
qed

subsection \<open>The errors of the client\<close>

lemma socketDB_Get_error:
  "socketDB_Get Write rd s k = (Inl e, s') \<Longrightarrow> \<not> isNotFound e \<Longrightarrow> errSocket e"
  by (auto simp: socketDB_Get_def isNotFound_def split: prod.splits option.splits sum.splits if_splits)

lemma socketDB_putBlobs_error: "socketDB_putBlobs Write rd s vs = (Some e, s') \<Longrightarrow> errSocket e"
  by (auto simp: socketDB_putBlobs_def split: prod.splits option.splits sum.splits if_splits)

interpretation socket_errors: db_errors "socketDB Write Cl rd :: ('c, 'e) db" errSocket
  for Write :: "'c writer" and Cl rd
proof unfold_locales
  fix s s' :: 'c and k v ks vs and e :: "'e db_error"
  show "db_Get (socketDB Write Cl rd) s k = (Inl e, s') \<Longrightarrow> \<not> isNotFound e \<Longrightarrow> errSocket e"
    by (simp add: socketDB_def socketDB_Get_error)
  show "db_Set (socketDB Write Cl rd) s k v = (Some e, s') \<Longrightarrow> errSocket e"
    by (simp add: socketDB_def socketDB_Set_def socketDB_putBlobs_error)
  show "\<exists>err s'. db_SetBatch (socketDB Write Cl rd) s ks vs = Some (err, s') \<and>
      (\<forall>e :: 'e db_error. err = Some e \<longrightarrow> errSocket e)"
  proof -
    obtain err t where "socketDB_putBlobs Write rd s vs = (err :: 'e db_error option, t)" by force
    with socketDB_putBlobs_error [of Write rd s vs _ t] show ?thesis
      by (auto simp: socketDB_def socketDB_SetBatch_def)
  qed
qed

text \<open>A request on a connection that this end has closed.\<close>

lemma closed_write:
  assumes "\<not> opened (near l)" and "length payload \<le> maxFrame"
  shows "writeFrame link_Write l opc payload = (Some ErrClosed, l)"
  using assms by (cases l) (simp add: writeFrame_def link_Write_def conn_Write_def Let_def)


definition sample_link :: "contents link" where
  "sample_link = \<lparr>near = new_conn, far = new_conn,
     srv = \<lparr>sv_db = Map.empty, sv_stored = 0, sv_received = 0\<rparr>, serving = True\<rparr>"

lemma sample_link_idle: "idle sample_link"
  by (simp add: idle_def sample_link_def)

theorem socket_refines_database_witness:
  "\<exists>l'. hasCode (socketDB link_Write link_Close (link_ReadFull (pebbleDB mem_pebble) sample_lib) :: (contents link, string) db)
      sample_lib sample_link [1, 2] = (Inr False, l')"
  using socket_refines_database [OF mem_pebble_laws mem_pebble_never_fails sample_link_idle sample_lib_laws]
  by (auto simp: sample_link_def)

theorem run_over_the_socket_witness:
  "\<exists>err l'. db_run sample_program sample_lib (sample_lab last_code (\<lambda>c g. g))
      (socketDB link_Write link_Close (link_ReadFull (pebbleDB mem_pebble) sample_lib) :: (contents link, string) db)
      sample_link (replicate 40 9) = Some (err, l') \<and> idle l'"
proof -
  have "content_addressed (makeKey sample_lib) (sv_db (srv sample_link))"
    by (simp add: content_addressed_def sample_link_def)
  from run_over_the_socket [where C = "\<lambda>s. s" and l = sample_link, OF sample_program_laws sample_lib_laws mem_pebble_laws sample_link_idle this,
      of "sample_lab last_code (\<lambda>c g. g)" "replicate 40 9"]
  show ?thesis by blast
qed


end
