(* ===== verification/ReplayExec.thy ===== *)
theory ReplayExec
  imports StateTest "HOL-Library.Multiset"
begin

text \<open>
  Replaying one stored program, and walking over the stored programs (\<open>cmd/fuzzyvm-db/replay_exec.go\<close>).
  The state tests of goevmlab and go-ethereum are parameters; \<open>exec_laws\<close> states what the code relies
  on.  A panic is \<open>None\<close> until \<open>replayCode\<close> recovers from it.  A result comes with the tests that were run
  and the states that were closed.
\<close>

subsection \<open>Running a state test\<close>

record ('sub, 'test, 'k, 'st, 'e) executor =
  GetDestination :: "gst \<Rightarrow> address"
  ToGeneralStateTest :: "gst \<Rightarrow> string \<Rightarrow> string \<rightharpoonup> 'sub"
  sub_Pre :: "'sub \<Rightarrow> address \<rightharpoonup> GenesisAccount"
  json_Marshal :: "'sub option \<Rightarrow> 'e + byte list"
  json_Unmarshal :: "byte list \<Rightarrow> 'e + 'test"
  Subtests :: "'test \<Rightarrow> 'k list"
  RunNoVerify :: "'test \<Rightarrow> 'k \<Rightarrow> ('st \<times> 'e option) option"

datatype 'e exec_error = ExecErr 'e | NoSubtests | Panicked | TimedOut

datatype ('test, 'st) exec_event = Ran 'test | Closed 'st

definition executeState ::
    "('sub, 'test, 'k, 'st, 'e) executor \<Rightarrow> gst \<Rightarrow>
      'e exec_error option option \<times> ('test, 'st) exec_event list" where
  "executeState E gst =
     (let name = []; gstPtr = ToGeneralStateTest E gst name; sub = gstPtr name
      in case json_Marshal E sub of
           Inl err \<Rightarrow> (Some (Some (ExecErr err)), [])
         | Inr bs \<Rightarrow>
             (case json_Unmarshal E bs of
                Inl err \<Rightarrow> (Some (Some (ExecErr err)), [])
              | Inr stateTest \<Rightarrow>
                  (case Subtests E stateTest of
                     [] \<Rightarrow> (Some (Some NoSubtests), [])
                   | k # _ \<Rightarrow>
                       (case RunNoVerify E stateTest k of
                          None \<Rightarrow> (None, [Ran stateTest])
                        | Some (state, err) \<Rightarrow>
                            (Some (map_option ExecErr err), [Ran stateTest, Closed state])))))"

subsection \<open>The second pre-state\<close>

definition BigToHash :: "nat \<Rightarrow> byte list" where
  "BigToHash n = be_bytes 32 n"

definition BytesToHash :: "byte list \<Rightarrow> byte list" where
  "BytesToHash b = (let b = drop (length b - 32) b in replicate (32 - length b) 0 @ b)"

definition prestateSlots :: "(u64 \<times> byte list) list" where
  "prestateSlots =
     [(0x00, [0x01]), (0x01, [0xff]), (0x02, [0x42]), (0x10, [0xde, 0xad, 0xbe, 0xef]),
      (0x20, [0x80, 0x00, 0x00, 0x00]), (0xff, [0x01])]"

definition codeOf ::
    "('sub, 'test, 'k, 'st, 'e) executor \<Rightarrow> gst \<Rightarrow> address \<Rightarrow> byte list" where
  "codeOf E gst addr =
     (let name = []; gstPtr = ToGeneralStateTest E gst name
      in case gstPtr name of
           None \<Rightarrow> []
         | Some sub \<Rightarrow> (case sub_Pre E sub addr of None \<Rightarrow> [] | Some acc \<Rightarrow> ga_Code acc))"

text \<open>\<open>slots\<close> is the map \<open>prestateSlots\<close> in the order in which it is iterated.\<close>

definition seedPreState ::
    "('sub, 'test, 'k, 'st, 'e) executor \<Rightarrow> (u64 \<times> byte list) list \<Rightarrow> gst \<Rightarrow> gst" where
  "seedPreState E slots gst =
     (let dest = GetDestination E gst;
          storage = foldl (\<lambda>storage (slot, v). storage(BigToHash (unat slot) \<mapsto> BytesToHash v)) Map.empty slots
      in AddAccount dest
           \<lparr>ga_Code = codeOf E gst dest, ga_Storage = storage, ga_Balance = 0x1bc16d674ec80000, ga_Nonce = 7\<rparr> gst)"

subsection \<open>Replaying a program\<close>

definition replaySeed :: "byte list" where "replaySeed = replicate 128 0"

text \<open>The goroutine: \<open>None\<close> is a panic, which its deferred function turns into an error.\<close>

definition replay_both ::
    "lib \<Rightarrow> ('sub, 'test, 'k, 'st, 'e) executor \<Rightarrow> (u64 \<times> byte list) list \<Rightarrow> byte list \<Rightarrow>
      'e exec_error option option \<times> ('test, 'st) exec_event list" where
  "replay_both X E slots code =
     (case CreateGstMaker X (NewFiller replaySeed) code of
        None \<Rightarrow> (None, [])
      | Some (gst, _) \<Rightarrow>
          (case executeState E gst of
             (None, ev) \<Rightarrow> (None, ev)
           | (Some err, ev) \<Rightarrow>
               (case CreateGstMaker X (NewFiller replaySeed) code of
                  None \<Rightarrow> (None, ev)
                | Some (warm, _) \<Rightarrow>
                    (let warm = seedPreState E slots warm
                     in case executeState E warm of
                          (None, ev') \<Rightarrow> (None, ev @ ev')
                        | (Some werr, ev') \<Rightarrow> (Some (if err = None then werr else err), ev @ ev')))))"

text \<open>\<open>timely\<close>: the goroutine is done before the timer fires.\<close>

definition replayCode ::
    "lib \<Rightarrow> ('sub, 'test, 'k, 'st, 'e) executor \<Rightarrow> (u64 \<times> byte list) list \<Rightarrow> bool \<Rightarrow> byte list \<Rightarrow>
      'e exec_error option" where
  "replayCode X E slots timely code =
     (if timely then case fst (replay_both X E slots code) of Some err \<Rightarrow> err | None \<Rightarrow> Some Panicked
      else Some TimedOut)"

subsection \<open>Walking over the database\<close>

text \<open>
  An iterator gives the values in the order of the keys and then, at any position, the error it has
  met.  \<open>fn\<close> works on a state of its own.
\<close>

record 'e iter =
  iter_Values :: "byte list list"
  iter_Error :: "nat \<Rightarrow> 'e option"

fun forEachCode_loop ::
    "int \<Rightarrow> (byte list \<Rightarrow> 's \<Rightarrow> 'e option \<times> 's) \<Rightarrow> nat \<Rightarrow> byte list list \<Rightarrow> 's \<Rightarrow> ('e + nat) \<times> 's" where
  "forEachCode_loop limit fn n [] s = (Inr n, s)"
| "forEachCode_loop limit fn n (v # vs) s =
     (if 0 < limit \<and> limit \<le> int n then (Inr n, s)
      else case fn v s of
             (Some err, s) \<Rightarrow> (Inl err, s)
           | (None, s) \<Rightarrow> forEachCode_loop limit fn (n + 1) vs s)"

definition forEachCode ::
    "('e + 'e iter) \<Rightarrow> int \<Rightarrow> (byte list \<Rightarrow> 's \<Rightarrow> 'e option \<times> 's) \<Rightarrow> 's \<Rightarrow> 'e option \<times> 's" where
  "forEachCode NewIter limit fn s =
     (case NewIter of
        Inl err \<Rightarrow> (Some err, s)
      | Inr iter \<Rightarrow>
          (case forEachCode_loop limit fn 0 (iter_Values iter) s of
             (Inl err, s) \<Rightarrow> (Some err, s)
           | (Inr n, s) \<Rightarrow> (iter_Error iter n, s)))"

record options =
  ReadOnly :: bool
  ErrorIfNotExists :: bool

definition openCorpus :: "(string \<Rightarrow> options \<Rightarrow> 'e + 'db) \<Rightarrow> string \<Rightarrow> 'e + 'db" where
  "openCorpus pebble_Open path = pebble_Open path \<lparr>ReadOnly = True, ErrorIfNotExists = True\<rparr>"

subsection \<open>What goevmlab promises\<close>

text \<open>
  The destination is the account the transaction is sent to, and the exported test has the pre-state
  that was set up.
\<close>

definition exec_laws :: "lib \<Rightarrow> ('sub, 'test, 'k, 'st, 'e) executor \<Rightarrow> bool" where
  "exec_laws X E \<longleftrightarrow>
     (\<forall>g tx. gst_tx g = Some tx \<and> tx_To tx = Address_Hex X (dest X) \<longrightarrow> GetDestination E g = dest X) \<and>
     (\<forall>g name. \<exists>sub. ToGeneralStateTest E g name name = Some sub \<and> sub_Pre E sub = gst_pre g)"

lemma codeOf_pre:
  "exec_laws X E \<Longrightarrow> codeOf E g a = (case gst_pre g a of None \<Rightarrow> [] | Some acc \<Rightarrow> ga_Code acc)"
  unfolding exec_laws_def codeOf_def by (metis (no_types, lifting) option.simps(5))

subsection \<open>The committed storage\<close>

text \<open>What the second pre-state commits; it does not depend on the order in which the map is iterated.\<close>

definition committed :: "byte list \<rightharpoonup> byte list" where
  "committed = map_of (map (\<lambda>(slot, v). (BigToHash (unat slot), BytesToHash v)) prestateSlots)"

lemma foldl_upd: "foldl (\<lambda>m (k, v). m(f k \<mapsto> g v)) m xs = m ++ map_of (rev (map (\<lambda>(k, v). (f k, g v)) xs))"
  by (induction xs arbitrary: m) auto

lemma map_of_perm: "distinct (map fst xs) \<Longrightarrow> mset ys = mset xs \<Longrightarrow> map_of ys = map_of xs"
  using map_of_inject_set [of ys xs] by (metis distinct_map mset_eq_setD mset_eq_imp_distinct_iff mset_map)

lemma BigToHash_inj: "a < 256 \<Longrightarrow> b < 256 \<Longrightarrow> BigToHash a = BigToHash b \<longleftrightarrow> a = b"
proof
  assume ab: "a < 256" "b < 256" and "BigToHash a = BigToHash b"
  then have "be_val (be_bytes 32 a) = be_val (be_bytes 32 b)" by (simp add: BigToHash_def)
  with ab show "a = b" by (simp add: be_val_be_bytes)
qed simp

lemma seed_storage:
  assumes "mset slots = mset prestateSlots"
  shows "foldl (\<lambda>storage (slot, v). storage(BigToHash (unat slot) \<mapsto> BytesToHash v)) Map.empty slots = committed"
proof -
  let ?f = "\<lambda>(slot :: u64, v). (BigToHash (unat slot), BytesToHash v)"
  have "mset (rev (map ?f slots)) = mset (map ?f prestateSlots)"
    using assms by (simp add: mset_map)
  moreover have "distinct (map fst (map ?f prestateSlots))"
    by (simp add: prestateSlots_def BigToHash_inj)
  ultimately show ?thesis by (simp add: foldl_upd committed_def map_of_perm)
qed

lemma BytesToHash_props:
  "length (BytesToHash v) = 32" "length v \<le> 32 \<Longrightarrow> be_val (BytesToHash v) = be_val v"
  by (simp_all add: BytesToHash_def Let_def)

lemma committed_values:
  assumes "committed h = Some v"
  shows "length h = 32 \<and> be_val h < 256 \<and> length v = 32 \<and> be_val v \<noteq> 0"
proof -
  have "(h, v) \<in> set (map (\<lambda>(slot, v). (BigToHash (unat slot), BytesToHash v)) prestateSlots)"
    using assms unfolding committed_def by (rule map_of_SomeD)
  then obtain slot b where "(slot, b) \<in> set prestateSlots" and hv: "h = BigToHash (unat slot)" "v = BytesToHash b"
    by auto
  then have "unat slot < 256" "length b \<le> 32" "be_val b \<noteq> 0"
    by (auto simp: prestateSlots_def be_val_def)
  with hv show ?thesis by (simp add: BytesToHash_props BigToHash_def be_val_be_bytes)
qed

subsection \<open>Properties\<close>

text \<open>
  A well-formed test: what Go's types and the rules of the chain leave open is within their bounds.
  The storage of an account maps words to words that are not zero.
\<close>

definition account_wf :: "GenesisAccount \<Rightarrow> bool" where
  "account_wf acc \<longleftrightarrow> 0 \<le> ga_Balance acc \<and> ga_Balance acc < 2 ^ 256 \<and>
     (\<forall>h v. ga_Storage acc h = Some v \<longrightarrow> length h = 32 \<and> length v = 32 \<and> be_val v \<noteq> 0)"

definition gst_wf :: "lib \<Rightarrow> gst \<Rightarrow> bool" where
  "gst_wf X g \<longleftrightarrow> (\<forall>a acc. gst_pre g a = Some acc \<longrightarrow> account_wf acc) \<and> gst_pre g (dest X) \<noteq> None \<and>
     (\<exists>tx. gst_tx g = Some tx \<and> tx_To tx = Address_Hex X (dest X))"

lemma GetDestination_wf: "exec_laws X E \<Longrightarrow> gst_wf X g \<Longrightarrow> GetDestination E g = dest X"
  by (auto simp: exec_laws_def gst_wf_def)

lemma seedPreState_pre:
  assumes "exec_laws X E" "gst_wf X g" "mset slots = mset prestateSlots" "gst_pre g (dest X) = Some acc"
  shows "gst_pre (seedPreState E slots g) = (gst_pre g)(dest X \<mapsto>
      \<lparr>ga_Code = ga_Code acc, ga_Storage = committed, ga_Balance = 2 * 10 ^ 18, ga_Nonce = 7\<rparr>) \<and>
    gst_tx (seedPreState E slots g) = gst_tx g"
proof -
  have "codeOf E g (dest X) = ga_Code acc"
    using codeOf_pre [OF assms(1)] assms(4) by simp
  then show ?thesis
    by (simp add: seedPreState_def Let_def GetDestination_wf [OF assms(1,2)] seed_storage [OF assms(3)])
qed

lemma CreateGstMaker_accounts:
  assumes "lib_laws X" and "filler_ok f"
  shows "\<exists>g n. CreateGstMaker X f code = Some (g, advance n f) \<and> gst_wf X g \<and>
    gst_pre g (dest X) = Some \<lparr>ga_Code = code, ga_Storage = Map.empty, ga_Balance = 0, ga_Nonce = 0\<rparr> \<and>
    (tape f 0 < 200 \<longrightarrow> map_option tx_GasLimit (gst_tx g) = Some [MaxTxGas X])"
proof -
  obtain g n where g: "gasLimit X f = Some (g, advance n f)"
    using gasLimit_spec [OF assms] by blast
  have max: "tape f 0 < 200 \<Longrightarrow> g = MaxTxGas X"
    using g by (simp add: gasLimit_def Byte_spec [OF assms(2)])
  have ok: "filler_ok (advance m f)" for m using assms(2) by simp
  show ?thesis
    by (simp add: CreateGstMaker_def g randHex_def ByteSlice_spec [OF ok] advance_advance [OF assms(2)] Let_def)
      (auto simp: gst_wf_def account_wf_def max)
qed

text \<open>C36. Seeding keeps a test well-formed: whatever the order in which the map of slots is iterated, only the
  destination account changes; it keeps its code and gets six words of storage that are not zero, a
  balance and a nonce, all within the bounds of their types.\<close>

theorem seedPreState_well_formed:
  assumes "exec_laws X E" and "gst_wf X g" and "mset slots = mset prestateSlots"
  shows "gst_wf X (seedPreState E slots g) \<and> card (dom committed) = 6 \<and>
    (\<exists>acc. gst_pre g (dest X) = Some acc \<and> gst_pre (seedPreState E slots g) = (gst_pre g)(dest X \<mapsto>
      \<lparr>ga_Code = ga_Code acc, ga_Storage = committed, ga_Balance = 2 * 10 ^ 18, ga_Nonce = 7\<rparr>))"
proof -
  obtain acc where acc: "gst_pre g (dest X) = Some acc" using assms(2) by (auto simp: gst_wf_def)
  note seed = seedPreState_pre [OF assms acc]
  have "account_wf \<lparr>ga_Code = ga_Code acc, ga_Storage = committed, ga_Balance = 2 * 10 ^ 18, ga_Nonce = 7\<rparr>"
    by (auto simp: account_wf_def dest: committed_values)
  with seed assms(2) have "gst_wf X (seedPreState E slots g)" by (auto simp: gst_wf_def)
  moreover have "card (dom committed) = 6"
    by (simp add: committed_def prestateSlots_def BigToHash_inj card_insert_if)
  ultimately show ?thesis using seed acc by blast
qed

text \<open>For the witnesses: an executor that runs every test without an error.\<close>

definition sample_executor :: "lib \<Rightarrow> (gst, gst, nat, nat, string) executor" where
  "sample_executor X =
     \<lparr>GetDestination = (\<lambda>g. dest X),
      ToGeneralStateTest = (\<lambda>g name. [name \<mapsto> g]),
      sub_Pre = gst_pre,
      json_Marshal = (\<lambda>sub. Inr []),
      json_Unmarshal = (\<lambda>bs. Inr NewGstMaker),
      Subtests = (\<lambda>t. [0]),
      RunNoVerify = (\<lambda>t k. Some (k, None))\<rparr>"

lemma sample_executor_laws: "exec_laws X (sample_executor X)"
  by (simp add: exec_laws_def sample_executor_def)

definition sample_gst :: "lib \<Rightarrow> gst" where
  "sample_gst X = fst (the (CreateGstMaker X (NewFiller replaySeed) [0x60, 0x00]))"

lemma sample_gst_wf: "gst_wf sample_lib (sample_gst sample_lib)"
proof -
  obtain g n where "CreateGstMaker sample_lib (NewFiller replaySeed) [0x60, 0x00] = Some (g, n)" "gst_wf sample_lib g"
    using CreateGstMaker_accounts [OF sample_lib_laws filler_ok_NewFiller [of replaySeed], of "[0x60, 0x00]"] by blast
  then show ?thesis by (simp add: sample_gst_def)
qed

theorem seedPreState_well_formed_witness:
  "gst_wf sample_lib (seedPreState (sample_executor sample_lib) (rev prestateSlots) (sample_gst sample_lib))"
  by (rule seedPreState_well_formed [THEN conjunct1, OF sample_executor_laws sample_gst_wf]) simp



subsection \<open>The walk\<close>

text \<open>Working through a list up to the first error.\<close>

fun visit :: "('v \<Rightarrow> 's \<Rightarrow> 'e option \<times> 's) \<Rightarrow> 'v list \<Rightarrow> 's \<Rightarrow> 'e option \<times> 's" where
  "visit fn [] s = (None, s)"
| "visit fn (v # vs) s = (case fn v s of (Some err, s) \<Rightarrow> (Some err, s) | (None, s) \<Rightarrow> visit fn vs s)"

definition limited :: "int \<Rightarrow> 'v list \<Rightarrow> 'v list" where
  "limited limit vs = (if 0 < limit then take (nat limit) vs else vs)"

lemma forEachCode_loop_spec:
  "forEachCode_loop limit fn n vs s =
     (let us = (if 0 < limit then take (nat limit - n) vs else vs)
      in case visit fn us s of
           (Some err, s) \<Rightarrow> (Inl err, s)
         | (None, s) \<Rightarrow> (Inr (n + length us), s))"
proof (induction vs arbitrary: n s)
  case (Cons v vs)
  show ?case
  proof (cases "0 < limit \<and> limit \<le> int n")
    case False
    then have "0 < limit \<Longrightarrow> nat limit - n = Suc (nat limit - (n + 1))" by linarith
    with False show ?thesis
      by (auto simp: Cons.IH Let_def split: prod.splits option.splits)
  next
    case True
    then have "nat limit - n = 0" by linarith
    with True show ?thesis by (simp add: Let_def)
  qed
qed simp

lemma visit_collect: "visit (\<lambda>v us. (None, us @ [v])) vs us = (None, us @ vs)"
  by (induction vs arbitrary: us) simp_all

text \<open>C37. The walk over the database calls its function on the stored values in order, each once, at most
  \<open>limit\<close> of them when the limit is positive and all of them otherwise, and stops at the first error
  of the function; otherwise it returns the error of the iterator where it stopped.\<close>

theorem forEachCode_visits:
  "forEachCode (Inr iter) limit fn s =
     (case visit fn (limited limit (iter_Values iter)) s of
        (Some err, s) \<Rightarrow> (Some err, s)
      | (None, s) \<Rightarrow> (iter_Error iter (length (limited limit (iter_Values iter))), s)) \<and>
   snd (forEachCode (Inr iter) limit (\<lambda>v us. (None, us @ [v])) []) = limited limit (iter_Values iter)"
  by (auto simp: forEachCode_def forEachCode_loop_spec limited_def Let_def visit_collect
      split: prod.splits option.splits)

end
