(* ===== verification/Generate.thy ===== *)
theory Generate
  imports System
begin

text \<open>
  The commands \<open>generate\<close> and \<open>inspect\<close> of \<open>cmd/fuzzyvm-db/main.go\<close> as the sequence of what they do to
  the outside: the database they open and close, the socket directory, the server and the processes.
  What the outside answers is a parameter; the statistics and progress messages are left out.  What
  happens between \<open>Serve\<close> and \<open>ShutDown\<close> is the subject of theories \<open>Server\<close> and \<open>Shutdown\<close>.
\<close>

subsection \<open>Events\<close>

datatype event =
    Open string
  | Close
  | MkdirTemp string
  | RemoveAll string
  | Listen string
  | Serve
  | Notify
  | Run command
  | ShutDown
  | Stop

text \<open>\<open>gen_Interrupted\<close>: a signal arrived before \<open>generate\<close> looks for one.\<close>

record 'e gen_system = "'e system" +
  NumCPU :: int
  gen_Open :: "string \<Rightarrow> 'e option"
  gen_Close :: "'e option"
  gen_MkdirTemp :: "'e + string"
  gen_Listen :: "string \<Rightarrow> 'e option"
  gen_Interrupted :: bool

record generate_flags =
  gf_db :: string
  gf_procs :: int
  gf_time :: int
  gf_debug :: bool

definition sockEnvKey :: string where "sockEnvKey = ''FUZZYVM_SOCK''"
definition debugEnvKey :: string where "debugEnvKey = ''FUZZYVM_DEBUG''"

text \<open>The address a process with the given environment connects to, empty when there is none.\<close>

definition socketAddr :: "string list \<Rightarrow> string" where
  "socketAddr env = (case lookup_env env sockEnvKey of None \<Rightarrow> [] | Some v \<Rightarrow> v)"

subsection \<open>The generate command\<close>

definition gen_procs :: "('e, 'z) gen_system_scheme \<Rightarrow> generate_flags \<Rightarrow> int" where
  "gen_procs S fl =
     (let procs = gf_procs fl
      in if procs \<le> 0 then (let procs = NumCPU S - 2 in if procs < 1 then 1 else procs) else procs)"

definition gen_command ::
    "('e, 'z) gen_system_scheme \<Rightarrow> generate_flags \<Rightarrow> int \<Rightarrow> string \<Rightarrow> string \<Rightarrow> command" where
  "gen_command S fl procs pkgDir sockPath =
     (let args = [''go'', ''test'', ''-run=^$'', ''-fuzz=^FuzzEVM$'', ''-parallel='' @ decimal (nat procs), ''-timeout=30s''];
          args = (if 0 < gf_time fl then args @ [''-fuzztime='' @ Duration_String S (gf_time fl)] else args);
          args = args @ [pkgDir];
          env = sys_Environ S @ [assign sockEnvKey sockPath];
          env = (if gf_debug fl then env @ [assign debugEnvKey ''1''] else env)
      in \<lparr>cmd_Args = args, cmd_Env = Some env\<rparr>)"

text \<open>From the open database and the socket directory to the end; the deferred calls are the last events.\<close>

definition gen_serve ::
    "'e gen_system \<Rightarrow> generate_flags \<Rightarrow> int \<Rightarrow> string \<Rightarrow> string \<Rightarrow> 'e cmd_error option \<times> event list" where
  "gen_serve S fl procs pkgDir sockPath =
     (let cmd = gen_command S fl procs pkgDir sockPath;
          err = (case sys_Exec S [list_command] cmd of Inl e \<Rightarrow> Some (Err e) | Inr _ \<Rightarrow> None);
          err = (case gen_Close S of
                   Some cerr \<Rightarrow> if err = None then Some (Err cerr) else err
                 | None \<Rightarrow> err)
      in (if gen_Interrupted S then None else err,
          [Serve, Notify, Run cmd, ShutDown, Close, Stop]))"

text \<open>\<open>createDB\<close> opens the database for reading and writing; \<open>None\<close> is success.\<close>

definition createDB :: "'e gen_system \<Rightarrow> string \<Rightarrow> 'e option" where
  "createDB S path = (case gen_Open S path of Some err \<Rightarrow> Some err | None \<Rightarrow> None)"

definition generate :: "'e gen_system \<Rightarrow> generate_flags \<Rightarrow> 'e cmd_error option \<times> event list" where
  "generate S fl =
     (let procs = gen_procs S fl
      in case sys_Abs (system.truncate S) (gf_db fl) of
           Inl err \<Rightarrow> (Some (Err err), [])
         | Inr dbPath \<Rightarrow>
      (case packageDir (system.truncate S) [] of
         Inl err \<Rightarrow> (Some err, [Run list_command])
       | Inr pkgDir \<Rightarrow>
      (case createDB S dbPath of
         Some err \<Rightarrow> (Some (Err err), [Run list_command])
       | None \<Rightarrow>
      (case gen_MkdirTemp S of
         Inl err \<Rightarrow> (Some (Err err), [Run list_command, Open dbPath, Close])
       | Inr sockDir \<Rightarrow>
      (let sockPath = sockDir @ ''/db.sock'';
           ev = [Run list_command, Open dbPath, MkdirTemp sockDir]
       in case gen_Listen S sockPath of
            Some err \<Rightarrow> (Some (Err err), ev @ [Close, RemoveAll sockDir])
          | None \<Rightarrow>
              (let (err, served) = gen_serve S fl procs pkgDir sockPath
               in (err, ev @ [Listen sockPath] @ served @ [RemoveAll sockDir])))))))"

subsection \<open>The inspect command\<close>

text \<open>
  \<open>pebble_Values\<close> is \<open>None\<close> when no iterator can be made, which panics; the deferred \<open>Close\<close> runs even
  then.  The result is the error and the number of keys printed.
\<close>

definition countKeys :: "byte list list option \<Rightarrow> nat option" where
  "countKeys pebble_Values = map_option (foldl (\<lambda>keys _. keys + 1) 0) pebble_Values"

definition inspect ::
    "'e gen_system \<Rightarrow> byte list list option \<Rightarrow> string \<Rightarrow> ('e option \<times> nat option) option \<times> event list" where
  "inspect S pebble_Values path =
     (case gen_Open S path of
        Some err \<Rightarrow> (Some (Some err, None), [])
      | None \<Rightarrow>
          (map_option (\<lambda>n. (None, Some n)) (countKeys pebble_Values), [Open path, Close]))"

subsection \<open>The discipline of the resources\<close>

text \<open>
  What is held: whether the database is open, the socket directory, the address listened on, whether
  requests may be served, and whether signals are caught.
\<close>

record held =
  h_db :: bool
  h_dir :: "string option"
  h_listen :: "string option"
  h_serving :: bool
  h_signals :: bool

definition released :: held where
  "released = \<lparr>h_db = False, h_dir = None, h_listen = None, h_serving = False, h_signals = False\<rparr>"

text \<open>
  When an event is allowed and what it does: the database is closed only when nothing is served, workers
  run only while the server answers them from the open database, with signals caught and the address
  they look for being the one listened on, and a directory is removed only after that.
\<close>

fun allowed :: "event \<Rightarrow> held \<Rightarrow> held option" where
  "allowed (Open p) h = (if h_db h then None else Some (h\<lparr>h_db := True\<rparr>))"
| "allowed Close h = (if h_db h \<and> \<not> h_serving h then Some (h\<lparr>h_db := False\<rparr>) else None)"
| "allowed (MkdirTemp d) h = (if h_dir h = None then Some (h\<lparr>h_dir := Some d\<rparr>) else None)"
| "allowed (RemoveAll d) h =
     (if h_dir h = Some d \<and> \<not> h_serving h then Some (h\<lparr>h_dir := None\<rparr>) else None)"
| "allowed (Listen p) h =
     (case h_dir h of
        Some d \<Rightarrow> if prefix d p \<and> h_listen h = None then Some (h\<lparr>h_listen := Some p\<rparr>) else None
      | None \<Rightarrow> None)"
| "allowed Serve h = (if h_db h \<and> h_listen h \<noteq> None then Some (h\<lparr>h_serving := True\<rparr>) else None)"
| "allowed Notify h = Some (h\<lparr>h_signals := True\<rparr>)"
| "allowed (Run c) h =
     (case cmd_Env c of
        None \<Rightarrow> Some h
      | Some env \<Rightarrow> if h_serving h \<and> h_signals h \<and> h_listen h = Some (socketAddr env) then Some h else None)"
| "allowed ShutDown h = (if h_serving h then Some (h\<lparr>h_serving := False, h_listen := None\<rparr>) else None)"
| "allowed Stop h = (if h_signals h then Some (h\<lparr>h_signals := False\<rparr>) else None)"

fun follow :: "event list \<Rightarrow> held \<Rightarrow> held option" where
  "follow [] h = Some h"
| "follow (e # es) h = (case allowed e h of None \<Rightarrow> None | Some h \<Rightarrow> follow es h)"

lemma gen_command_env:
  "\<exists>env. cmd_Env (gen_command S fl procs pkgDir p) = Some env \<and> socketAddr env = p \<and>
    lookup_env env debugEnvKey = (if gf_debug fl then Some ''1'' else lookup_env (sys_Environ S) debugEnvKey)"
  by (simp add: gen_command_def Let_def socketAddr_def lookup_env_append sockEnvKey_def debugEnvKey_def
      assign_def split: option.splits)

lemma gen_command_socket:
  "cmd_Env (gen_command S fl procs pkgDir p) = Some env \<Longrightarrow> socketAddr env = p"
  using gen_command_env [of S fl procs pkgDir p] by auto

lemma gen_command_has_env: "cmd_Env (gen_command S fl procs pkgDir p) \<noteq> None"
  by (simp add: gen_command_def Let_def)

subsection \<open>Properties\<close>

text \<open>C33. Whatever fails and whenever it fails, \<open>generate\<close> keeps the discipline of its resources and
  releases all of them: the database is closed exactly once when it was opened, after the server has
  been shut down, the workers run only in between and look for the socket that is served, and the
  socket directory is removed at the end.  The same holds of \<open>inspect\<close>, also when it panics.\<close>

theorem commands_release_everything:
  "follow (snd (generate S fl)) released = Some released \<and>
   follow (snd (inspect S values path)) released = Some released"
proof
  have list: "cmd_Env list_command = None" by (simp add: list_command_def Command_def)
  note defs = generate_def createDB_def gen_serve_def Let_def released_def list
  show "follow (snd (generate S fl)) released = Some released"
    by (auto simp: defs gen_command_has_env dest: gen_command_socket split: option.splits sum.splits)
  show "follow (snd (inspect S values path)) released = Some released"
    by (simp add: inspect_def released_def split: option.splits)
qed


text \<open>In the witness the flush at the end fails after an interrupt, and no error is reported.\<close>

definition full_disk :: "string gen_system" where
  "full_disk = \<lparr>sys_Abs = (\<lambda>p. Inr (''/w/'' @ p)), sys_Environ = [], sys_Exec = (\<lambda>h c. Inr ''/src''),
     Duration_String = (\<lambda>d. ''1h''), NumCPU = 1, gen_Open = (\<lambda>p. None), gen_Close = Some ''no space left on device'',
     gen_MkdirTemp = Inr ''/tmp/s'', gen_Listen = (\<lambda>p. None), gen_Interrupted = True\<rparr>"


end
