(* ===== verification/Workers.thy ===== *)
theory Workers
  imports Client ReplayExec Generate
begin

text \<open>
  A campaign: many workers (\<open>generate\<close> starts one \<open>go test -fuzz\<close> with a number of them) execute \<open>run\<close> of
  \<open>cmd/fuzzyvm-db/main.go\<close> on one database at the same time.  \<open>run\<close> is cut at its calls of the database,
  each of which is atomic, and the workers are interleaved.  What one worker does alone is shown to be
  \<open>db_run\<close>, on the pebble database and over the socket.
\<close>

subsection \<open>One worker\<close>

text \<open>
  Where a worker is: between inputs, before the query for the whole program, before the query for the
  minimised one, before storing the whole program or both, and at the end of an input.
\<close>

datatype phase =
    Ready
  | HasFull gst "byte list"
  | HasMin gst "byte list" "byte list"
  | PutFull gst "byte list"
  | PutBoth gst "byte list" "byte list"
  | Ended

text \<open>
  A query answers "present" only for what is stored; it may answer "absent" at any time, since the
  server does so when its database fails, and it may fail.
\<close>

inductive worker_step ::
    "'p program_api \<Rightarrow> lib \<Rightarrow> (gst, 'x) goevmlab \<Rightarrow> phase \<times> contents \<Rightarrow> phase \<times> contents \<Rightarrow> bool"
  for P X E where
  short: "length (d :: byte list) < 32 \<Longrightarrow> worker_step P X E (Ready, c) (Ended, c)"
| start: "\<not> length d < 32 \<Longrightarrow> GenerateProgram P X (NewFiller d) = Some ((gst, code), f) \<Longrightarrow>
    worker_step P X E (Ready, c) (HasFull gst code, c)"
| full_fails: "worker_step P X E (HasFull gst code, c) (Ended, c)"
| full_present: "makeKey X code \<in> dom c \<Longrightarrow> worker_step P X E (HasFull gst code, c) (Ended, c)"
| full_skipped: "MinimizeProgram E gst = Some (Inl (FillError e)) \<Longrightarrow>
    worker_step P X E (HasFull gst code, c) (Ended, c)"
| full_too_large: "MinimizeProgram E gst = Some (Inl ErrTraceTooLarge) \<Longrightarrow>
    worker_step P X E (HasFull gst code, c) (PutFull gst code, c)"
| full_minimized: "MinimizeProgram E gst = Some (Inr (t, m)) \<Longrightarrow>
    worker_step P X E (HasFull gst code, c) (HasMin gst code m, c)"
| min_fails: "worker_step P X E (HasMin gst code m, c) (Ended, c)"
| min_present: "makeKey X m \<in> dom c \<Longrightarrow> worker_step P X E (HasMin gst code m, c) (PutFull gst code, c)"
| min_absent: "worker_step P X E (HasMin gst code m, c) (PutBoth gst code m, c)"
| put_full: "changes (makeKey X) c [code] c' \<Longrightarrow> worker_step P X E (PutFull gst code, c) (Ended, c')"
| put_both: "changes (makeKey X) c [code, m] c' \<Longrightarrow> worker_step P X E (PutBoth gst code m, c) (Ended, c')"
| again: "worker_step P X E (Ended, c) (Ready, c)"

subsection \<open>All workers\<close>

inductive fuzzed ::
    "'p program_api \<Rightarrow> lib \<Rightarrow> (gst, 'x) goevmlab \<Rightarrow> contents \<Rightarrow> (nat \<Rightarrow> phase) \<Rightarrow> contents \<Rightarrow> bool"
  for P X E c0 where
  start: "fuzzed P X E c0 (\<lambda>w. Ready) c0"
| step: "fuzzed P X E c0 ps c \<Longrightarrow> worker_step P X E (ps w, c) (p, c') \<Longrightarrow>
    fuzzed P X E c0 (ps(w := p)) c'"

subsection \<open>A run is one of the interleavings\<close>

context db_store
begin

lemma run_steps:
  assumes ok and inv: "inv s" and run: "db_run P X E D s d = Some (err, s')"
  shows "(worker_step P X E)\<^sup>*\<^sup>* (Ready, C s) (Ended, C s')"
proof (cases "length d < 32")
  case True
  with run show ?thesis by (auto simp: db_run_def intro: r_into_rtranclp short)
next
  case False
  from run False obtain gst code f where gen: "GenerateProgram P X (NewFiller d) = Some ((gst, code), f)"
    by (auto simp: db_run_def bind_eq_Some_conv Let_def)
  obtain r where min: "MinimizeProgram E gst = Some r"
    using MinimizeProgram_Some [of E gst] by (elim exE)
  have last: "(worker_step P X E)\<^sup>*\<^sup>* x y \<Longrightarrow> worker_step P X E y z \<Longrightarrow> (worker_step P X E)\<^sup>*\<^sup>* x z" for x y z
    by (rule rtranclp.rtrancl_into_rtrancl)
  have first: "(worker_step P X E)\<^sup>*\<^sup>* (Ready, c) (HasFull gst code, c)" for c
    by (rule r_into_rtranclp) (rule worker_step.start [OF False gen])
  have second: "(worker_step P X E)\<^sup>*\<^sup>* (Ready, c) (HasMin gst code m, c)" if "r = Inr (t, m)" for c t m
    by (rule last [OF first]) (use min that full_minimized in simp)
  show ?thesis
    using \<open>ok\<close> inv False gen min
  proof (cases rule: run_cases)
    case nothing
    with run last [OF first full_fails] show ?thesis by simp
  next
    case (full err2 s2)
    show ?thesis
    proof (cases r)
      case (Inl e)
      have "e = ErrTraceTooLarge" using full(4) Inl by (cases e) blast+
      with Inl have "r = Inl ErrTraceTooLarge" by simp
      with run full last [OF last [OF first full_too_large] put_full] min show ?thesis by simp
    next
      case (Inr x)
      obtain t m where "r = Inr (t, m)" using Inr by (cases x) simp
      with run full last [OF last [OF second min_present] put_full] show ?thesis by simp
    qed
  next
    case (both err2 s2 g m)
    with run last [OF last [OF second [OF both(3)] min_absent] put_both [OF both(4)]] show ?thesis by simp
  qed
qed

end

text \<open>C12. What a worker does with one input is a path of its steps from between inputs to the end of the input,
  with the same database contents at both ends: on its own pebble database, whatever fails, and over
  the socket.  So the interleaved steps describe workers that execute \<open>run\<close>.\<close>

theorem run_is_an_interleaving:
  fixes PB :: "('p, 'b, 'e) pebble"
  assumes "pebble_laws PB C B"
  shows "(db_run P X E (pebbleDB PB) s d = Some (err, s') \<longrightarrow>
      (worker_step P X E)\<^sup>*\<^sup>* (Ready, C s) (Ended, C s')) \<and>
    (idle l \<and> db_run P X E (socketDB link_Write link_Close (link_ReadFull (pebbleDB PB) X) :: ('p link, 'e) db) l d = Some (err', l') \<longrightarrow>
      (worker_step P X E)\<^sup>*\<^sup>* (Ready, C (sv_db (srv l))) (Ended, C (sv_db (srv l'))))"
  using pebble_store.run_steps [OF assms TrueI] socket_store.run_steps [OF assms]
  by blast

theorem run_is_an_interleaving_witness:
  "\<exists>err s'. db_run sample_program sample_lib (sample_lab last_code (\<lambda>c g. g)) (pebbleDB mem_pebble) Map.empty [1] = Some (err, s') \<and>
    (worker_step sample_program sample_lib (sample_lab last_code (\<lambda>c g. g)))\<^sup>*\<^sup>* (Ready, Map.empty) (Ended, s')"
proof -
  have "db_run sample_program sample_lib (sample_lab last_code (\<lambda>c g. g)) (pebbleDB mem_pebble) Map.empty [1] = Some (None, Map.empty)"
    by (simp add: db_run_def)
  with run_is_an_interleaving [OF mem_pebble_laws, of sample_program sample_lib "sample_lab last_code (\<lambda>c g. g)" Map.empty "[1]"]
  show ?thesis by blast
qed

subsection \<open>What many workers leave in the database\<close>

text \<open>
  \<open>drawn gst code\<close>: some input generates this test and program.  A stored code is accounted for when it is
  the minimised code of such a program, or such a program itself whose minimised code is stored too.
\<close>

definition drawn :: "'p program_api \<Rightarrow> lib \<Rightarrow> gst \<Rightarrow> byte list \<Rightarrow> bool" where
  "drawn P X gst code \<longleftrightarrow> (\<exists>d f. \<not> length d < 32 \<and> GenerateProgram P X (NewFiller d) = Some ((gst, code), f))"

definition min_stored ::
    "lib \<Rightarrow> (gst, 'x) goevmlab \<Rightarrow> contents \<Rightarrow> gst \<Rightarrow> bool" where
  "min_stored X E c gst \<longleftrightarrow> (\<forall>t m. MinimizeProgram E gst = Some (Inr (t, m)) \<longrightarrow> makeKey X m \<in> dom c)"

definition accounted ::
    "'p program_api \<Rightarrow> lib \<Rightarrow> (gst, 'x) goevmlab \<Rightarrow> contents \<Rightarrow> byte list \<Rightarrow> bool" where
  "accounted P X E c v \<longleftrightarrow>
     (\<exists>gst. drawn P X gst v \<and> min_stored X E c gst) \<or>
     (\<exists>gst code t. drawn P X gst code \<and> MinimizeProgram E gst = Some (Inr (t, v)))"

fun phase_inv ::
    "'p program_api \<Rightarrow> lib \<Rightarrow> (gst, 'x) goevmlab \<Rightarrow> contents \<Rightarrow> phase \<Rightarrow> bool" where
  "phase_inv P X E c (HasFull gst code) = drawn P X gst code"
| "phase_inv P X E c (HasMin gst code m) = (drawn P X gst code \<and> (\<exists>t. MinimizeProgram E gst = Some (Inr (t, m))))"
| "phase_inv P X E c (PutBoth gst code m) = (drawn P X gst code \<and> (\<exists>t. MinimizeProgram E gst = Some (Inr (t, m))))"
| "phase_inv P X E c (PutFull gst code) = (drawn P X gst code \<and> min_stored X E c gst)"
| "phase_inv P X E c _ = True"

definition stored_inv ::
    "'p program_api \<Rightarrow> lib \<Rightarrow> (gst, 'x) goevmlab \<Rightarrow> contents \<Rightarrow> contents \<Rightarrow> bool" where
  "stored_inv P X E c0 c \<longleftrightarrow> dom c0 \<subseteq> dom c \<and>
     (\<forall>k. c k = c0 k \<or> (\<exists>v. c k = Some v \<and> k = makeKey X v \<and> accounted P X E c v))"

lemma min_stored_mono: "min_stored X E c gst \<Longrightarrow> dom c \<subseteq> dom c' \<Longrightarrow> min_stored X E c' gst"
  unfolding min_stored_def by blast

lemma accounted_mono: "accounted P X E c v \<Longrightarrow> dom c \<subseteq> dom c' \<Longrightarrow> accounted P X E c' v"
  unfolding accounted_def using min_stored_mono by blast

lemma phase_inv_mono: "phase_inv P X E c p \<Longrightarrow> dom c \<subseteq> dom c' \<Longrightarrow> phase_inv P X E c' p"
  using min_stored_mono by (cases p) auto

lemma stored_inv_changes:
  assumes "stored_inv P X E c0 c" and "changes (makeKey X) c vs c'" and "\<forall>v \<in> set vs. accounted P X E c' v"
  shows "stored_inv P X E c0 c'"
  unfolding stored_inv_def
proof (intro conjI allI)
  have dom: "dom c \<subseteq> dom c'" by (rule changes_dom [OF assms(2)])
  with assms(1) show "dom c0 \<subseteq> dom c'" unfolding stored_inv_def by blast
  fix k
  from assms(2) consider "c' k = c k" | v where "v \<in> set vs" "k = makeKey X v" "c' k = Some v"
    unfolding changes_def by blast
  then show "c' k = c0 k \<or> (\<exists>v. c' k = Some v \<and> k = makeKey X v \<and> accounted P X E c' v)"
  proof cases
    case 1
    with assms(1) accounted_mono [OF _ dom] show ?thesis unfolding stored_inv_def by metis
  next
    case 2
    with assms(3) show ?thesis by blast
  qed
qed

lemma worker_step_inv:
  assumes "worker_step P X E (p, c) (p', c')" and "phase_inv P X E c p" and "stored_inv P X E c0 c"
  shows "phase_inv P X E c' p' \<and> stored_inv P X E c0 c' \<and> dom c \<subseteq> dom c'"
  using assms
proof (cases rule: worker_step.cases)
  case (start d gst code f)
  with assms(3) show ?thesis by (auto simp: drawn_def)
next
  case (put_full code gst)
  have dom: "dom c \<subseteq> dom c'" by (rule changes_dom [OF put_full(3)])
  have "drawn P X gst code" "min_stored X E c gst" using assms(2) put_full(1) by simp_all
  with min_stored_mono [OF _ dom] have "accounted P X E c' code" unfolding accounted_def by blast
  with stored_inv_changes [OF assms(3) put_full(3)] dom put_full(2) show ?thesis by simp
next
  case (put_both code m gst)
  obtain t where t: "drawn P X gst code" "MinimizeProgram E gst = Some (Inr (t, m))"
    using assms(2) put_both by auto
  show ?thesis
  proof (cases "c' = c")
    case False
    then have "makeKey X m \<in> dom c'" using put_both(3) by (simp add: changes_def)
    then have "min_stored X E c' gst" using t(2) by (auto simp: min_stored_def)
    with t have "\<forall>v \<in> set [code, m]. accounted P X E c' v" by (auto simp: accounted_def)
    with stored_inv_changes [OF assms(3) put_both(3)] changes_dom [OF put_both(3)] put_both(2) show ?thesis by simp
  qed (use put_both assms(3) in simp)
qed (auto simp: min_stored_def)

lemma fuzzed_inv:
  "fuzzed P X E c0 ps c \<Longrightarrow> stored_inv P X E c0 c \<and> (\<forall>w. phase_inv P X E c (ps w))"
proof (induction rule: fuzzed.induct)
  case start
  show ?case by (simp add: stored_inv_def)
next
  case (step ps c w p c')
  then have "phase_inv P X E c' p \<and> stored_inv P X E c0 c' \<and> dom c \<subseteq> dom c'"
    using worker_step_inv [OF step.hyps(2)] by blast
  moreover from this have "phase_inv P X E c' (ps v)" for v
    using phase_inv_mono [of P X E c "ps v" c'] step.IH by blast
  ultimately show ?case by simp
qed

text \<open>C11. However many workers are interleaved and whatever fails, the database loses nothing, everything new
  is stored under its own hash, and it is either the minimised code of a generated program or a
  generated program whose minimised code, if it has one, is stored as well.\<close>

theorem workers_keep_database:
  assumes "fuzzed P X E c0 ps c"
  shows "dom c0 \<subseteq> dom c \<and> (content_addressed (makeKey X) c0 \<longrightarrow> content_addressed (makeKey X) c) \<and>
    (\<forall>k. c k = c0 k \<or> (\<exists>v. c k = Some v \<and> k = makeKey X v \<and> accounted P X E c v))"
  using fuzzed_inv [OF assms] unfolding stored_inv_def content_addressed_def by (metis option.inject)

text \<open>In the witness one worker has generated a program, and waits for the answer of the database.\<close>

theorem workers_keep_database_witness:
  "\<exists>gst code. fuzzed sample_program sample_lib (sample_lab last_code (\<lambda>c g. g)) Map.empty
      ((\<lambda>w. Ready)(3 := HasFull gst code)) Map.empty \<and>
    content_addressed (makeKey sample_lib) (Map.empty :: contents)"
proof -
  let ?E = "sample_lab last_code (\<lambda>c g. g)"
  obtain gst code f where gen: "GenerateProgram sample_program sample_lib (NewFiller (replicate 40 9)) = Some ((gst, code), f)"
    using GenerateProgram_Some [OF sample_program_laws sample_lib_laws, of "replicate 40 9"] by (elim exE)
  have "worker_step sample_program sample_lib ?E (Ready, Map.empty) (HasFull gst code, Map.empty)"
    by (rule worker_step.start [OF _ gen]) simp
  then have "fuzzed sample_program sample_lib ?E Map.empty ((\<lambda>w. Ready)(3 := HasFull gst code)) Map.empty"
    by (intro fuzzed.step [OF fuzzed.start]) simp
  moreover from workers_keep_database [OF this]
  have "content_addressed (makeKey sample_lib) (Map.empty :: contents)" by (simp add: content_addressed_def)
  ultimately show ?thesis by blast
qed

subsection \<open>The replay after a campaign\<close>

text \<open>The iterator gives the value of each key once and meets no error.\<close>

definition enumerates :: "contents \<Rightarrow> 'e iter \<Rightarrow> bool" where
  "enumerates c it \<longleftrightarrow>
     (\<exists>ks. distinct ks \<and> set ks = dom c \<and> iter_Values it = map (\<lambda>k. the (c k)) ks) \<and>
     (\<forall>n. iter_Error it n = None)"

lemma foldl_count: "foldl (\<lambda>n _. Suc n) a xs = a + length xs"
  by (induction xs arbitrary: a) simp_all

text \<open>C13. After a campaign on an empty database, whatever its workers did, a replay without a limit visits every
  stored program exactly once, and \<open>inspect\<close> counts them; each of them is accounted for by an input.\<close>

theorem replay_reaches_every_program:
  assumes "fuzzed P X E Map.empty ps c" and "enumerates c it"
  shows "\<exists>vs. forEachCode (Inr it) 0 (\<lambda>v us. (None, us @ [v])) [] = (None, vs) \<and>
    distinct vs \<and> set vs = ran c \<and> countKeys (Some (iter_Values it)) = Some (length vs) \<and>
    (\<forall>v \<in> set vs. accounted P X E c v)"
proof -
  from assms(2) obtain ks where ks: "distinct ks" "set ks = dom c" "iter_Values it = map (\<lambda>k. the (c k)) ks"
    and noerr: "\<forall>n. iter_Error it n = None" by (auto simp: enumerates_def)
  have stored: "k = makeKey X v \<and> accounted P X E c v" if "c k = Some v" for k v
    using fuzzed_inv [OF assms(1)] that unfolding stored_inv_def by (metis option.distinct(1) option.inject)
  have "inj_on (\<lambda>k. the (c k)) (dom c)"
  proof (rule inj_onI)
    fix k l assume "k \<in> dom c" "l \<in> dom c" "the (c k) = the (c l)"
    then obtain v where "c k = Some v" "c l = Some v" by auto
    with stored [of k v] stored [of l v] show "k = l" by simp
  qed
  then have "distinct (iter_Values it)" using ks by (simp add: distinct_map)
  moreover have set: "set (iter_Values it) = ran c"
    unfolding ks(3) set_map ks(2) by (force simp: ran_def)
  moreover have "\<forall>v \<in> set (iter_Values it). accounted P X E c v"
    using stored unfolding set by (auto simp: ran_def)
  moreover have "forEachCode (Inr it) 0 (\<lambda>v us. (None, us @ [v])) [] = (None, iter_Values it)"
    using noerr by (simp add: forEachCode_def forEachCode_loop_spec visit_collect Let_def)
  moreover have "countKeys (Some (iter_Values it)) = Some (length (iter_Values it))"
    by (simp add: countKeys_def foldl_count)
  ultimately show ?thesis by blast
qed

text \<open>In the witness one worker stores a program and its minimised code.\<close>

lemma fuzzed_one:
  assumes "fuzzed P X E c0 (ps(w := p)) c" and "worker_step P X E (p, c) (p', c')"
  shows "fuzzed P X E c0 (ps(w := p')) c'"
  using fuzzed.step [OF assms(1), of w p' c'] assms(2) by simp

lemma finite_enumerates:
  assumes "finite (dom c)"
  shows "\<exists>it :: string iter. enumerates c it"
proof -
  obtain ks where "set ks = dom c" "distinct ks" using finite_distinct_list [OF assms] by blast
  then have "enumerates c \<lparr>iter_Values = map (\<lambda>k. the (c k)) ks, iter_Error = (\<lambda>n. None :: string option)\<rparr>"
    by (auto simp: enumerates_def)
  then show ?thesis by blast
qed

theorem replay_reaches_every_program_witness:
  "\<exists>ps c (it :: string iter) vs. fuzzed sample_program sample_lib (sample_lab (\<lambda>g. []) (\<lambda>c g. g)) Map.empty ps c \<and>
    enumerates c it \<and> c \<noteq> Map.empty \<and>
    forEachCode (Inr it) 0 (\<lambda>v us. (None, us @ [v])) [] = (None, vs) \<and> set vs = ran c"
proof -
  let ?E = "sample_lab (\<lambda>g. []) (\<lambda>c g. g) :: (gst, string) goevmlab"
  let ?W = "worker_step sample_program sample_lib ?E" and ?h = "makeKey sample_lib"
  obtain gst code f where gen: "GenerateProgram sample_program sample_lib (NewFiller (replicate 40 9)) = Some ((gst, code), f)"
    using GenerateProgram_Some [OF sample_program_laws sample_lib_laws, of "replicate 40 9"] by (elim exE)
  define c where "c = Map.empty ++ map_of (rev (zip (map ?h [code, []]) [code, []]))"
  have min: "MinimizeProgram ?E gst = Some (Inr (gst, []))"
    by (simp add: MinimizeProgram_def sample_lab_def write_all_def cappedBuffer_Write_def longest_code_def
        maxTraceSize_def traceSizeMargin_def minMinimizeSize_def)
  have s1: "?W (Ready, Map.empty) (HasFull gst code, Map.empty)"
    by (rule worker_step.start [OF _ gen]) simp
  have s4: "?W (PutBoth gst code [], Map.empty) (Ended, c)"
    by (rule put_both) (simp only: c_def changes_batch)
  have "fuzzed sample_program sample_lib ?E Map.empty ((\<lambda>w. Ready)(0 := Ready)) Map.empty"
    using fuzzed.start [of sample_program sample_lib ?E Map.empty] by (simp add: fun_upd_idem)
  note fuzzed = fuzzed_one [OF fuzzed_one [OF fuzzed_one [OF fuzzed_one [OF this s1] full_minimized [OF min]] min_absent] s4]
  have "finite (dom c)" "c \<noteq> Map.empty" by (simp_all add: c_def)
  from finite_enumerates [OF this(1)] obtain it :: "string iter" where it: "enumerates c it" by blast
  from replay_reaches_every_program [OF fuzzed it] fuzzed it \<open>c \<noteq> Map.empty\<close> show ?thesis by blast
qed

end
