(* ===== verification/Corpus.thy ===== *)
theory Corpus
  imports Generator Complex_Main
begin

text \<open>
  Corpus elements (\<open>createTest\<close> and \<open>CreateNewCorpusElement\<close> of \<open>fuzzer/corpus.go\<close>): a halving search
  for a short prefix of random data that still drives a whole generation without being used up.
  The random bytes come from \<open>math/rand\<close>, which is a parameter.
\<close>

definition cutoff :: int where "cutoff = 10"

text \<open>Whether generating from a prefix uses it up.\<close>

definition uses_up :: "'p program_api \<Rightarrow> lib \<Rightarrow> byte list \<Rightarrow> bool option" where
  "uses_up P X b = do {
     let f = NewFiller b;
     (_, f) \<leftarrow> GenerateProgram P X f;
     Some (UsedUp f)
   }"

text \<open>Slicing with bounds that are Go integers.\<close>

definition slice_to :: "byte list \<Rightarrow> int \<Rightarrow> byte list option" where
  "slice_to bs mid = (if mid < 0 then None else slice bs 0 (nat mid))"

fun createTest_loop ::
    "'p program_api \<Rightarrow> lib \<Rightarrow> byte list \<Rightarrow> nat \<Rightarrow> int \<Rightarrow> int \<Rightarrow> byte list \<Rightarrow> byte list option" where
  "createTest_loop P X d 0 left right b = Some b"
| "createTest_loop P X d (Suc n) left right b = do {
     used \<leftarrow> uses_up P X b;
     (left, right, b) \<leftarrow>
       (if \<not> used then do {
          let right = int (length b);
          let mid = left + (right - left) sdiv 2;
          b \<leftarrow> slice_to d mid;
          Some (left, right, b)
        } else do {
          let left = int (length b);
          let mid = left + (right - left) sdiv 2;
          b \<leftarrow> slice_to d mid;
          Some (left, right, b)
        });
     if right - left < cutoff then Some b
     else createTest_loop P X d n left right b
   }"

text \<open>
  The number of rounds, with the real logarithm for \<open>math.Log\<close>.  The conversion to an integer gives the same
  number for both unless the logarithm is within the rounding error of an integer; the logarithm of a
  million, the only length the program uses, is about 13.8.  Of empty data the Go logarithm is minus
  infinity, and the result is empty for any number of rounds.
\<close>

definition search_rounds :: "nat \<Rightarrow> nat" where
  "search_rounds n = (if n = 0 then 0 else nat \<lfloor>ln (real n) + 1\<rfloor> + 1)"

definition createTest :: "'p program_api \<Rightarrow> lib \<Rightarrow> byte list \<Rightarrow> byte list option" where
  "createTest P X d = do {
     let right = int (length d);
     let left = 0;
     b \<leftarrow> slice d 0 (length d div 2);
     createTest_loop P X d (search_rounds (length d)) left right b
   }"

definition CreateNewCorpusElement ::
    "'p program_api \<Rightarrow> lib \<Rightarrow> (nat \<Rightarrow> 'e + byte list) \<Rightarrow> ('e + byte list) option" where
  "CreateNewCorpusElement P X rand_Read =
     (case rand_Read 1000000 of
        Inl err \<Rightarrow> Some (Inl err)
      | Inr r \<Rightarrow> do {
          b \<leftarrow> createTest P X r;
          Some (Inr b)
        })"

subsection \<open>The search\<close>

lemma uses_up_Some:
  "program_laws P \<Longrightarrow> lib_laws X \<Longrightarrow> \<exists>u. uses_up P X b = Some u"
  using GenerateProgram_Some [of P X b] by (auto simp: uses_up_def)

text \<open>
  What the bounds mean: the prefix of length \<open>left\<close> is used up and the one of length \<open>right\<close> is not,
  unless they are the ends of the data.
\<close>

definition brackets :: "'p program_api \<Rightarrow> lib \<Rightarrow> byte list \<Rightarrow> nat \<Rightarrow> nat \<Rightarrow> bool" where
  "brackets P X d l r \<longleftrightarrow> l \<le> r \<and> r \<le> length d \<and>
     (l = 0 \<or> uses_up P X (take l d) = Some True) \<and>
     (r = length d \<or> uses_up P X (take r d) = Some False)"

lemma brackets_step:
  assumes "brackets P X d l r" and "uses_up P X (take ((l + r) div 2) d) = Some u"
  shows "brackets P X d (if u then (l + r) div 2 else l) (if u then r else (l + r) div 2)"
proof -
  have "l \<le> (l + r) div 2" "(l + r) div 2 \<le> r" "r \<le> length d"
    using assms(1) by (auto simp: brackets_def)
  with assms show ?thesis
    unfolding brackets_def by (cases u) simp_all
qed

lemma halve_sdiv: "0 \<le> (x :: int) \<Longrightarrow> x sdiv 2 = x div 2"
  by (cases "x = 0") (simp_all add: signed_divide_int_def)

lemma midpoint: "l \<le> r \<Longrightarrow> int l + (int r - int l) sdiv 2 = int ((l + r) div 2)"
  by (simp add: halve_sdiv zdiv_int)

lemma ceil_halving: "((x + 1) div 2 + (2 ^ n - 1)) div 2 ^ n = (x + (2 ^ Suc n - 1)) div (2 :: nat) ^ Suc n"
proof -
  obtain k where k: "(2 :: nat) ^ n = Suc k"
    by (metis Suc_pred zero_less_numeral zero_less_power)
  then have "(x + 1) div 2 + (2 ^ n - 1) = (x + (2 ^ Suc n - 1)) div 2" by simp
  then show ?thesis by (simp add: div_mult2_eq)
qed

lemma createTest_loop_spec:
  assumes "program_laws P" and "lib_laws X"
  shows "brackets P X d l r \<Longrightarrow>
    \<exists>l' r'. createTest_loop P X d n (int l) (int r) (take ((l + r) div 2) d) = Some (take ((l' + r') div 2) d) \<and>
      brackets P X d l' r' \<and> (r' - l' < 10 \<or> r' - l' \<le> (r - l + (2 ^ n - 1)) div 2 ^ n)"
proof (induction n arbitrary: l r)
  case 0
  then show ?case by (intro exI [of _ l] exI [of _ r]) simp
next
  case (Suc n)
  define m where "m = (l + r) div 2"
  have m: "l \<le> m" "m \<le> r" "r \<le> length d"
    using Suc.prems by (auto simp: m_def brackets_def)
  obtain u where u: "uses_up P X (take m d) = Some u"
    using uses_up_Some [OF assms] by blast
  define l1 where "l1 = (if u then m else l)"
  define r1 where "r1 = (if u then r else m)"
  have b: "brackets P X d l1 r1"
    using brackets_step [OF Suc.prems u [unfolded m_def]] by (cases u) (simp_all add: l1_def r1_def m_def)
  then have lr: "l1 \<le> r1" "r1 \<le> length d" by (simp_all add: brackets_def)
  have w: "r1 - l1 \<le> (r - l + 1) div 2"
    using m(1,2) by (auto simp: l1_def r1_def m_def)
  have slice: "slice_to d (int l1 + (int r1 - int l1) sdiv 2) = Some (take ((l1 + r1) div 2) d)"
    using lr by (simp add: midpoint slice_to_def)

  have step: "createTest_loop P X d (Suc n) (int l) (int r) (take m d) =
    (if int r1 - int l1 < 10 then Some (take ((l1 + r1) div 2) d)
     else createTest_loop P X d n (int l1) (int r1) (take ((l1 + r1) div 2) d))"
    using slice using m by (cases u) (simp_all add: u min_absorb2 l1_def r1_def Let_def cutoff_def)
  show ?case
  proof (cases "int r1 - int l1 < 10")
    case True
    with b lr step show ?thesis
      unfolding m_def [symmetric] by (intro exI [of _ l1] exI [of _ r1]) auto
  next
    case False
    from Suc.IH [OF b] obtain l' r' where
      ih: "createTest_loop P X d n (int l1) (int r1) (take ((l1 + r1) div 2) d) = Some (take ((l' + r') div 2) d)"
        "brackets P X d l' r'" "r' - l' < 10 \<or> r' - l' \<le> (r1 - l1 + (2 ^ n - 1)) div 2 ^ n" by blast
    have "(r1 - l1 + (2 ^ n - 1)) div 2 ^ n \<le> ((r - l + 1) div 2 + (2 ^ n - 1)) div 2 ^ n"
      using w by (intro div_le_mono) simp
    also have "\<dots> = (r - l + (2 ^ Suc n - 1)) div 2 ^ Suc n" by (rule ceil_halving)
    finally have "r' - l' < 10 \<or> r' - l' \<le> (r - l + (2 ^ Suc n - 1)) div 2 ^ Suc n"
      using ih(3) by linarith
    with ih(1,2) step False show ?thesis
      unfolding m_def [symmetric] by (intro exI [of _ l'] exI [of _ r']) simp
  qed
qed

lemma createTest_Some:
  assumes "program_laws P" and "lib_laws X"
  shows "\<exists>b. createTest P X d = Some b"
proof -
  have "brackets P X d 0 (length d)" by (simp add: brackets_def)
  from createTest_loop_spec [OF assms this, of "search_rounds (length d)"] show ?thesis
    by (auto simp: createTest_def)
qed

lemma CreateNewCorpusElement_Some:
  assumes "program_laws P" and "lib_laws X"
  shows "\<exists>r. CreateNewCorpusElement P X rand_Read = Some r"
proof (cases "rand_Read 1000000")
  case (Inr d)
  obtain b where "createTest P X d = Some b" using createTest_Some [OF assms] by blast
  with Inr show ?thesis by (simp add: CreateNewCorpusElement_def)
qed (simp add: CreateNewCorpusElement_def)

text \<open>The million bytes that \<open>CreateNewCorpusElement\<close> asks for get 15 rounds.\<close>

lemma search_rounds_million: "search_rounds 1000000 = 15"
proof -
  have "exp (1 / 16 :: real) \<le> 273 / 256"
    using exp_bound [of "1 / 16"] by (simp add: power2_eq_square)
  then have "exp (1 / 16 :: real) ^ 16 \<le> (273 / 256) ^ 16"
    by (rule power_mono) simp
  then have "exp (1 :: real) \<le> 28 / 10"
    using exp_of_nat_mult [of 16 "1 / 16 :: real"] by (simp add: power_divide)
  then have "exp (1 :: real) ^ 13 \<le> (28 / 10) ^ 13" by (rule power_mono) simp
  then have up: "exp (13 :: real) \<le> 1000000"
    using exp_of_nat_mult [of 13 "1 :: real"] by (simp add: power_divide)
  have "65 / 64 \<le> exp (1 / 64 :: real)"
    using exp_ge_add_one_self [of "1 / 64 :: real"] by simp
  then have "(65 / 64) ^ 64 \<le> exp (1 / 64 :: real) ^ 64"
    by (rule power_mono) simp
  then have "269 / 100 \<le> exp (1 :: real)"
    using exp_of_nat_mult [of 64 "1 / 64 :: real"] by (simp add: power_divide)
  then have "(269 / 100) ^ 14 \<le> exp (1 :: real) ^ 14" by (rule power_mono) simp
  then have "1000000 < exp (14 :: real)"
    using exp_of_nat_mult [of 14 "1 :: real"] by (simp add: power_divide)
  then have "ln (1000000 :: real) < ln (exp 14)" by (subst ln_less_cancel_iff) simp_all
  moreover have "13 \<le> ln (1000000 :: real)" using up by (subst ln_ge_iff) simp_all
  ultimately have "13 \<le> ln (1000000 :: real)" "ln (1000000 :: real) < 14" by simp_all
  then have "\<lfloor>ln (1000000 :: real) + 1\<rfloor> = 14" by linarith
  then show ?thesis by (simp add: search_rounds_def)
qed

text \<open>C32. \<open>createTest\<close> never fails.  Its result is a prefix of the data in the middle of two lengths of
  which the smaller is 0 or used up by a generation and the larger is the whole length or not used
  up; after \<open>n\<close> rounds they are fewer than 10 apart or no further than the length divided by
  \<open>2\<^sup>n\<close>, rounded up.  The number of rounds is a natural logarithm, although every round halves, so
  from a million bytes the distance is at most 31, more than the cutoff.\<close>

theorem createTest_brackets:
  assumes "program_laws P" and "lib_laws X"
  shows "\<exists>l r. createTest P X d = Some (take ((l + r) div 2) d) \<and>
    l \<le> r \<and> r \<le> length d \<and>
    (l = 0 \<or> uses_up P X (take l d) = Some True) \<and>
    (r = length d \<or> uses_up P X (take r d) = Some False) \<and>
    (r - l < 10 \<or> r - l \<le> (length d + (2 ^ search_rounds (length d) - 1)) div 2 ^ search_rounds (length d)) \<and>
    (length d = 1000000 \<longrightarrow> r - l \<le> 31)"
proof -
  have "brackets P X d 0 (length d)" by (simp add: brackets_def)
  from createTest_loop_spec [OF assms this, of "search_rounds (length d)"] obtain l r where
    b: "createTest P X d = Some (take ((l + r) div 2) d)" "brackets P X d l r"
    and w: "r - l < 10 \<or> r - l \<le> (length d + (2 ^ search_rounds (length d) - 1)) div 2 ^ search_rounds (length d)"
    by (auto simp: createTest_def)
  have "r - l \<le> 31" if "length d = 1000000"
    using w that by (auto simp: search_rounds_million)
  with b w show ?thesis by (intro exI [of _ l] exI [of _ r]) (simp add: brackets_def)
qed

theorem createTest_brackets_witness:
  "\<exists>b. createTest sample_program sample_lib [1, 2, 3] = Some b \<and> prefix b [1, 2, 3]"
  using createTest_brackets [OF sample_program_laws sample_lib_laws, of "[1, 2, 3]"]
  by (auto intro: take_is_prefix)

end
