(* ===== verification/CorpusMin.thy ===== *)
theory CorpusMin
  imports Prelude
begin

text \<open>
  The minimisation of the corpus directory (\<open>minimizeCorpus\<close> of \<open>cmd/fuzzyvm/main.go\<close>).  The
  directory is a parameter over a state of its own: listing, reading and removing may fail.
\<close>

record corpusFile =
  cf_path :: string
  cf_data :: "byte list"

record ('w, 'e) corpus_os =
  ReadDir :: "'w \<Rightarrow> string \<Rightarrow> 'e + (string \<times> bool) list"
  ReadFile :: "'w \<Rightarrow> string \<Rightarrow> 'e + byte list"
  Remove :: "'w \<Rightarrow> string \<Rightarrow> 'e option \<times> 'w"

text \<open>The regular files that can be read; a directory entry is a name and whether it is a directory.\<close>

definition readCorpus ::
    "('w, 'e) corpus_os \<Rightarrow> 'w \<Rightarrow> string \<Rightarrow> (string \<times> bool) list \<Rightarrow> corpusFile list" where
  "readCorpus S w dir entries =
     foldl (\<lambda>files (name, isDir).
       if isDir then files
       else
         (let path = dir @ ''/'' @ name
          in case ReadFile S w path of
               Inl e \<Rightarrow> files
             | Inr bs \<Rightarrow> files @ [\<lparr>cf_path = path, cf_data = bs\<rparr>])) [] entries"

definition HasPrefix :: "byte list \<Rightarrow> byte list \<Rightarrow> bool" where
  "HasPrefix s p \<longleftrightarrow> length p \<le> length s \<and> take (length p) s = p"

text \<open>The two loops over the files: the paths marked, in the order in which they are marked.\<close>

definition markPrefixes :: "corpusFile list \<Rightarrow> string list" where
  "markPrefixes files =
     foldl (\<lambda>toDelete i.
       foldl (\<lambda>toDelete k.
         (let f = files ! i; g = files ! k
          in if k = i then toDelete
             else if length (cf_data f) = length (cf_data g) \<and> k < i then toDelete
             else if HasPrefix (cf_data g) (cf_data f) then List.insert (cf_path g) toDelete
             else toDelete)) toDelete [0..<length files]) [] [0..<length files]"

fun removeAll :: "('w, 'e) corpus_os \<Rightarrow> string list \<Rightarrow> 'w \<Rightarrow> 'e option \<times> 'w" where
  "removeAll S [] w = (None, w)"
| "removeAll S (p # ps) w =
     (case Remove S w p of
        (Some e, w) \<Rightarrow> (Some e, w)
      | (None, w) \<Rightarrow> removeAll S ps w)"

text \<open>
  \<open>order\<close> is the order in which the map of marked paths is iterated: some rearrangement of them.
\<close>

definition minimizeCorpus ::
    "('w, 'e) corpus_os \<Rightarrow> (string list \<Rightarrow> string list) \<Rightarrow> 'w \<Rightarrow> 'e option \<times> 'w" where
  "minimizeCorpus S order w =
     (let dir = ''corpus''
      in case ReadDir S w dir of
           Inl e \<Rightarrow> (Some e, w)
         | Inr entries \<Rightarrow>
             (let files = readCorpus S w dir entries
              in removeAll S (order (markPrefixes files)) w))"

subsection \<open>What is marked\<close>

lemma HasPrefix_prefix: "HasPrefix s p \<longleftrightarrow> prefix p s"
  by (metis HasPrefix_def append_take_drop_id prefixE prefixI prefix_length_le append_eq_conv_conj)

lemma foldl_insert_set:
  "set (foldl (\<lambda>acc k. if q k then acc else if r k then acc else if t k then List.insert (v k) acc else acc) acc ks) =
    set acc \<union> v ` {k \<in> set ks. \<not> q k \<and> \<not> r k \<and> t k}"
  by (induction ks arbitrary: acc) auto

definition covers :: "corpusFile list \<Rightarrow> nat \<Rightarrow> nat \<Rightarrow> bool" where
  "covers files i k \<longleftrightarrow> i < length files \<and> k < length files \<and> i \<noteq> k \<and>
     prefix (cf_data (files ! i)) (cf_data (files ! k)) \<and>
     (length (cf_data (files ! i)) = length (cf_data (files ! k)) \<longrightarrow> i < k)"

lemma set_markPrefixes:
  "set (markPrefixes files) = (\<lambda>k. cf_path (files ! k)) ` {k. \<exists>i. covers files i k}"
proof -
  have outer: "set (foldl (\<lambda>acc i. foldl (\<lambda>acc k. if k = i then acc
        else if length (cf_data (files ! i)) = length (cf_data (files ! k)) \<and> k < i then acc
        else if HasPrefix (cf_data (files ! k)) (cf_data (files ! i))
        then List.insert (cf_path (files ! k)) acc else acc) acc [0..<length files]) acc is) =
    set acc \<union> (\<lambda>k. cf_path (files ! k)) `
      {k. \<exists>i \<in> set is. k < length files \<and> k \<noteq> i \<and>
        \<not> (length (cf_data (files ! i)) = length (cf_data (files ! k)) \<and> k < i) \<and>
        prefix (cf_data (files ! i)) (cf_data (files ! k))}" for acc "is"
    by (induction "is" arbitrary: acc) (auto simp: foldl_insert_set HasPrefix_prefix)
  have covers: "covers files i k \<longleftrightarrow> i \<in> set [0..<length files] \<and> k < length files \<and> k \<noteq> i \<and>
      \<not> (length (cf_data (files ! i)) = length (cf_data (files ! k)) \<and> k < i) \<and>
      prefix (cf_data (files ! i)) (cf_data (files ! k))" for i k
    unfolding covers_def by auto
  have "{k. \<exists>i \<in> set [0..<length files]. k < length files \<and> k \<noteq> i \<and>
        \<not> (length (cf_data (files ! i)) = length (cf_data (files ! k)) \<and> k < i) \<and>
        prefix (cf_data (files ! i)) (cf_data (files ! k))} = {k. \<exists>i. covers files i k}"
    unfolding covers by blast
  then show ?thesis
    unfolding markPrefixes_def Let_def outer by simp
qed

text \<open>Shorter data, or equal data and the earlier position, comes first; so every chain has a start.\<close>

lemma covers_root:
  "covers files i k \<Longrightarrow> \<exists>r. \<not> (\<exists>j. covers files j r) \<and> r < length files \<and>
    prefix (cf_data (files ! r)) (cf_data (files ! k))"
proof (induction k arbitrary: i
    rule: wf_induct_rule [OF wf_measures [of "[\<lambda>k. length (cf_data (files ! k)), \<lambda>k. k]"]])
  case (1 k)
  have less: "(i, k) \<in> measures [\<lambda>k. length (cf_data (files ! k)), \<lambda>k. k]"
    using 1(2) prefix_length_le [of "cf_data (files ! i)" "cf_data (files ! k)"]
    by (auto simp: covers_def)
  show ?case
  proof (cases "\<exists>j. covers files j i")
    case True
    then obtain j where "covers files j i" by (elim exE)
    from 1(1) [OF less this] obtain r where r: "\<not> (\<exists>j. covers files j r)" "r < length files"
      "prefix (cf_data (files ! r)) (cf_data (files ! i))" by (elim exE conjE)
    from 1(2) have "prefix (cf_data (files ! i)) (cf_data (files ! k))"
      by (simp add: covers_def)
    from prefix_order.trans [OF r(3) this] r(1,2) show ?thesis by (intro exI [of _ r] conjI)
  next
    case False
    with 1(2) show ?thesis by (intro exI [of _ i] conjI) (simp_all add: covers_def)
  qed
qed

lemma markPrefixes_kept:
  assumes dist: "distinct (map cf_path files)"
  shows "i < length files \<Longrightarrow>
      cf_path (files ! i) \<in> set (markPrefixes files) \<longleftrightarrow> (\<exists>j. covers files j i)"
    and "i < length files \<Longrightarrow>
      \<exists>r < length files. cf_path (files ! r) \<notin> set (markPrefixes files) \<and>
        prefix (cf_data (files ! r)) (cf_data (files ! i))"
    and "i < length files \<Longrightarrow> j < length files \<Longrightarrow> i \<noteq> j \<Longrightarrow>
      cf_path (files ! i) \<notin> set (markPrefixes files) \<Longrightarrow>
      cf_path (files ! j) \<notin> set (markPrefixes files) \<Longrightarrow>
      \<not> prefix (cf_data (files ! i)) (cf_data (files ! j))"
proof -
  have inj: "i < length files \<Longrightarrow> k < length files \<Longrightarrow> cf_path (files ! i) = cf_path (files ! k) \<Longrightarrow> i = k"
    for i k using nth_eq_iff_index_eq [OF dist, of i k] by simp
  have marked: "cf_path (files ! i) \<in> set (markPrefixes files) \<longleftrightarrow> (\<exists>j. covers files j i)"
    if "i < length files" for i
  proof
    assume "cf_path (files ! i) \<in> set (markPrefixes files)"
    then obtain j k where "covers files j k" "cf_path (files ! i) = cf_path (files ! k)"
      by (auto simp: set_markPrefixes)
    moreover from this(1) have "k < length files" by (simp add: covers_def)
    ultimately show "\<exists>j. covers files j i" using inj [OF that] by blast
  next
    assume "\<exists>j. covers files j i"
    then show "cf_path (files ! i) \<in> set (markPrefixes files)"
      unfolding set_markPrefixes by (intro imageI CollectI)
  qed
  show "i < length files \<Longrightarrow>
      cf_path (files ! i) \<in> set (markPrefixes files) \<longleftrightarrow> (\<exists>j. covers files j i)"
    by (rule marked)
  show "i < length files \<Longrightarrow>
      \<exists>r < length files. cf_path (files ! r) \<notin> set (markPrefixes files) \<and>
        prefix (cf_data (files ! r)) (cf_data (files ! i))"
  proof (cases "\<exists>j. covers files j i")
    case True
    then obtain j where "covers files j i" by (elim exE)
    from covers_root [OF this] marked show ?thesis by blast
  qed (use marked in blast)
  show "i < length files \<Longrightarrow> j < length files \<Longrightarrow> i \<noteq> j \<Longrightarrow>
      cf_path (files ! i) \<notin> set (markPrefixes files) \<Longrightarrow>
      cf_path (files ! j) \<notin> set (markPrefixes files) \<Longrightarrow>
      \<not> prefix (cf_data (files ! i)) (cf_data (files ! j))"
    using prefix_length_prefix [of "cf_data (files ! i)" "cf_data (files ! j)"]
    by (simp add: marked covers_def) (metis linorder_neqE_nat prefix_order.order_refl not_equal_is_parallel parallelD1)
qed

lemma readCorpus_eq:
  "readCorpus S w dir entries =
    concat (map (\<lambda>(name, isDir).
      if isDir then []
      else case ReadFile S w (dir @ ''/'' @ name) of
        Inl e \<Rightarrow> []
      | Inr bs \<Rightarrow> [\<lparr>cf_path = dir @ ''/'' @ name, cf_data = bs\<rparr>]) entries)"
proof -
  have "foldl (\<lambda>files (name, isDir).
       if isDir then files
       else
         (let path = dir @ ''/'' @ name
          in case ReadFile S w path of
               Inl e \<Rightarrow> files
             | Inr bs \<Rightarrow> files @ [\<lparr>cf_path = path, cf_data = bs\<rparr>])) acc entries =
    acc @ concat (map (\<lambda>(name, isDir).
      if isDir then []
      else case ReadFile S w (dir @ ''/'' @ name) of
        Inl e \<Rightarrow> []
      | Inr bs \<Rightarrow> [\<lparr>cf_path = dir @ ''/'' @ name, cf_data = bs\<rparr>]) entries)" for acc
    by (induction entries arbitrary: acc) (auto simp: Let_def split: sum.split)
  from this [of "[]"] show ?thesis by (simp add: readCorpus_def)
qed

lemma corpusFile_eq: "f = \<lparr>cf_path = p, cf_data = d\<rparr> \<longleftrightarrow> cf_path f = p \<and> cf_data f = d"
  by (cases f) simp

lemma set_readCorpus:
  "f \<in> set (readCorpus S w dir entries) \<longleftrightarrow>
    (\<exists>name. (name, False) \<in> set entries \<and> cf_path f = dir @ ''/'' @ name \<and>
      ReadFile S w (cf_path f) = Inr (cf_data f))"
proof -
  have "f \<in> set (case x of (name, isDir) \<Rightarrow>
      if isDir then []
      else case ReadFile S w (dir @ ''/'' @ name) of
        Inl e \<Rightarrow> []
      | Inr bs \<Rightarrow> [\<lparr>cf_path = dir @ ''/'' @ name, cf_data = bs\<rparr>]) \<longleftrightarrow>
    \<not> snd x \<and> cf_path f = dir @ ''/'' @ fst x \<and> ReadFile S w (cf_path f) = Inr (cf_data f)" for x
    by (cases x; cases "ReadFile S w (dir @ ''/'' @ fst x)")
      (simp_all add: corpusFile_eq cong: conj_cong, metis+)
  then have "f \<in> set (readCorpus S w dir entries) \<longleftrightarrow> (\<exists>x \<in> set entries.
    \<not> snd x \<and> cf_path f = dir @ ''/'' @ fst x \<and> ReadFile S w (cf_path f) = Inr (cf_data f))"
    by (simp add: readCorpus_eq)
  then show ?thesis by (auto simp: Bex_def split_paired_Ex)
qed

lemma distinct_readCorpus:
  "distinct (map fst entries) \<Longrightarrow> distinct (map cf_path (readCorpus S w dir entries))"
proof (induction entries)
  case (Cons x entries)
  obtain name isDir where x: "x = (name, isDir)" by (cases x)
  have cons: "readCorpus S w dir (x # entries) = readCorpus S w dir [x] @ readCorpus S w dir entries"
    by (simp add: readCorpus_eq)
  have "cf_path f \<noteq> dir @ ''/'' @ name" if "f \<in> set (readCorpus S w dir entries)" for f
    using that Cons.prems by (auto simp: set_readCorpus x image_iff)
  then have "dir @ ''/'' @ name \<notin> cf_path ` set (readCorpus S w dir entries)" by (metis imageE)
  moreover have "readCorpus S w dir [x] = [] \<or>
      (\<exists>d. readCorpus S w dir [x] = [\<lparr>cf_path = dir @ ''/'' @ name, cf_data = d\<rparr>])"
    by (simp add: readCorpus_eq x split: sum.split)
  ultimately show ?case
    using Cons unfolding cons by auto
qed (simp add: readCorpus_eq)

subsection \<open>The directory afterwards\<close>

definition corpus_os_laws ::
    "('w, 'e) corpus_os \<Rightarrow> ('w \<Rightarrow> string \<Rightarrow> byte list option) \<Rightarrow> bool" where
  "corpus_os_laws S Files \<longleftrightarrow>
     (\<forall>w dir entries. ReadDir S w dir = Inr entries \<longrightarrow> distinct (map fst entries)) \<and>
     (\<forall>w p d. ReadFile S w p = Inr d \<longrightarrow> Files w p = Some d) \<and>
     (\<forall>w p q. q \<noteq> p \<longrightarrow> Files (snd (Remove S w p)) q = Files w q) \<and>
     (\<forall>w p. fst (Remove S w p) = None \<longrightarrow> Files (snd (Remove S w p)) p = None)"

lemma removeAll_spec:
  "corpus_os_laws S Files \<Longrightarrow> removeAll S ps w = (None, w') \<Longrightarrow>
    Files w' p = (if p \<in> set ps then None else Files w p)"
proof (induction ps arbitrary: w)
  case (Cons q ps)
  obtain e w1 where r: "Remove S w q = (e, w1)" by force
  with Cons.prems(2) have e: "e = None" and rest: "removeAll S ps w1 = (None, w')"
    by (auto split: option.splits)
  have "p \<noteq> q \<Longrightarrow> Files w1 p = Files w p" "Files w1 q = None"
    using Cons.prems(1) r e unfolding corpus_os_laws_def by (metis snd_conv, metis fst_conv snd_conv)
  with Cons.IH [OF Cons.prems(1) rest] show ?case by auto
qed simp


text \<open>A directory of three files, one of which extends another.\<close>

definition sample_corpus_os :: "(string \<Rightarrow> byte list option, string) corpus_os" where
  "sample_corpus_os =
     \<lparr>ReadDir = (\<lambda>w dir. Inr [(''a'', False), (''b'', False), (''c'', False)]),
      ReadFile = (\<lambda>w p. case w p of None \<Rightarrow> Inl ''missing'' | Some d \<Rightarrow> Inr d),
      Remove = (\<lambda>w p. (None, w(p := None)))\<rparr>"

lemma sample_corpus_os_laws: "corpus_os_laws sample_corpus_os (\<lambda>w. w)"
  by (auto simp: corpus_os_laws_def sample_corpus_os_def split: option.splits)


end
