(* ===== verification/Commands.thy ===== *)
theory Commands
  imports Fuzzer Corpus CorpusMin System
begin

text \<open>
  The commands of the fuzzer (\<open>corpus\<close>, \<open>run\<close>, \<open>startGenerator\<close>, \<open>minCorpus\<close>, \<open>bench\<close> and \<open>ensureDirs\<close> of
  \<open>cmd/fuzzyvm/main.go\<close>), the benchmark of the generator (\<open>benchmark/bench.go\<close>) and \<open>SetFuzzyVMDir\<close>
  of \<open>fuzzer/fuzzer.go\<close>.  Directories and files are a parameter over a state of its own, relative to the
  working directory; the messages are left out.
\<close>

subsection \<open>Directories\<close>

record ('w, 'e) dir_os = "('w, 'e) corpus_os" +
  dir_Stat :: "'w \<Rightarrow> string \<Rightarrow> 'e stat"
  dir_Mkdir :: "'w \<Rightarrow> string \<Rightarrow> 'e option \<times> 'w"
  dir_WriteFile :: "'w \<Rightarrow> string \<Rightarrow> byte list \<Rightarrow> 'e option \<times> 'w"

fun ensureDirs :: "('w, 'e) dir_os \<Rightarrow> string list \<Rightarrow> 'w \<Rightarrow> 'w" where
  "ensureDirs S [] w = w"
| "ensureDirs S (dir # dirs) w =
     (case dir_Stat S w dir of
        Exists \<Rightarrow> ensureDirs S dirs w
      | NotExist \<Rightarrow>
          (case dir_Mkdir S w dir of
             (Some err, w) \<Rightarrow> w
           | (None, w) \<Rightarrow> ensureDirs S dirs w)
      | StatErr err \<Rightarrow> ensureDirs S dirs w)"

subsection \<open>Corpus elements\<close>

text \<open>\<open>rand_Read i\<close> is the random source in round \<open>i\<close>; \<open>sha1_Sum\<close> is \<open>crypto/sha1\<close>.\<close>

definition corpus_file :: "lib \<Rightarrow> (byte list \<Rightarrow> byte list) \<Rightarrow> byte list \<Rightarrow> string" where
  "corpus_file X sha1_Sum elem = ''corpus'' @ ''/'' @ Bytes2Hex X (sha1_Sum elem)"

fun corpus_loop ::
    "'p program_api \<Rightarrow> lib \<Rightarrow> ('w, 'e) dir_os \<Rightarrow> (nat \<Rightarrow> nat \<Rightarrow> 'e + byte list) \<Rightarrow>
      (byte list \<Rightarrow> byte list) \<Rightarrow> nat list \<Rightarrow> 'w \<Rightarrow> ('e option \<times> 'w) option" where
  "corpus_loop P X S rand_Read sha1_Sum [] w = Some (None, w)"
| "corpus_loop P X S rand_Read sha1_Sum (i # is) w = do {
     r \<leftarrow> CreateNewCorpusElement P X (rand_Read i);
     case r of
       Inl err \<Rightarrow> Some (Some err, w)
     | Inr elem \<Rightarrow>
         (case dir_WriteFile S w (corpus_file X sha1_Sum elem) elem of
            (Some err, w) \<Rightarrow> Some (Some err, w)
          | (None, w) \<Rightarrow> corpus_loop P X S rand_Read sha1_Sum is w)
   }"

definition corpus ::
    "'p program_api \<Rightarrow> lib \<Rightarrow> ('w, 'e) dir_os \<Rightarrow> (nat \<Rightarrow> nat \<Rightarrow> 'e + byte list) \<Rightarrow>
      (byte list \<Rightarrow> byte list) \<Rightarrow> int \<Rightarrow> 'w \<Rightarrow> ('e option \<times> 'w) option" where
  "corpus P X S rand_Read sha1_Sum n w =
     (let w = ensureDirs S [''corpus''] w
      in corpus_loop P X S rand_Read sha1_Sum [0..<nat n] w)"

definition minCorpus :: "('w, 'e) dir_os \<Rightarrow> (string list \<Rightarrow> string list) \<Rightarrow> 'w \<Rightarrow> 'e option \<times> 'w" where
  "minCorpus S order w =
     (let w = ensureDirs S [''corpus''] w
      in minimizeCorpus (corpus_os.truncate S) order w)"

subsection \<open>Running the fuzzer\<close>

text \<open>
  \<open>proc_Start\<close> and \<open>proc_Wait\<close> are the two halves of running a process.  \<open>Join\<close> is \<open>filepath.Join\<close> of a
  clean absolute path and a name.
\<close>

record 'e launcher =
  Getwd :: "'e + string"
  lch_Environ :: "string list"
  proc_Start :: "command \<Rightarrow> 'e option"
  proc_Wait :: "command \<Rightarrow> 'e option"

definition Join :: "string \<Rightarrow> string \<Rightarrow> string" where
  "Join path name = (if path = ''/'' then path @ name else path @ ''/'' @ name)"

definition outputRootDir :: string where "outputRootDir = ''out''"
definition crashesDir :: string where "crashesDir = ''crashes''"
definition EnvKey :: string where "EnvKey = ''FUZZYDIR''"

definition Sprint :: "int \<Rightarrow> string" where
  "Sprint n = (if n < 0 then ''-'' @ decimal (nat (- n)) else decimal (nat n))"

definition startGenerator :: "'e launcher \<Rightarrow> int \<Rightarrow> command option" where
  "startGenerator L genThreads =
     (case Getwd L of
        Inl err \<Rightarrow> None
      | Inr path \<Rightarrow>
          (let directory = Join path outputRootDir;
               cmd = \<lparr>cmd_Args = [''go'', ''test'', ''--fuzz'', ''FuzzVMBasic'', ''--parallel'', Sprint genThreads, ''./fuzzer/...''],
                 cmd_Env = Some (lch_Environ L @ [assign EnvKey directory])\<rparr>
           in case proc_Start L cmd of
                Some err \<Rightarrow> None
              | None \<Rightarrow> Some cmd))"

definition run_dirs :: "lib \<Rightarrow> string list" where
  "run_dirs X =
     foldl (\<lambda>directories i. directories @ [outputRootDir @ ''/'' @ Bytes2Hex X [of_nat i]])
       [outputRootDir, crashesDir] [0..<256]"

text \<open>The result is the error of the process, the process and the files when it was started.\<close>

definition run :: "lib \<Rightarrow> ('w, 'e) dir_os \<Rightarrow> 'e launcher \<Rightarrow> int \<Rightarrow> 'w \<Rightarrow> ('e option \<times> command \<times> 'w) option" where
  "run X S L genThreads w =
     (let w = ensureDirs S (run_dirs X) w
      in case startGenerator L genThreads of
           None \<Rightarrow> None
         | Some cmd \<Rightarrow> Some (proc_Wait L cmd, cmd, w))"

text \<open>The directory of a process with the given environment; \<open>temp\<close> is \<open>os.TempDir\<close>.\<close>

definition SetFuzzyVMDir :: "string list \<Rightarrow> string \<Rightarrow> string" where
  "SetFuzzyVMDir env temp = (case lookup_env env EnvKey of Some dir \<Rightarrow> dir | None \<Rightarrow> temp)"

subsection \<open>The benchmark\<close>

definition newFiller :: "(nat \<Rightarrow> 'e + byte list) \<Rightarrow> 'e + filler" where
  "newFiller rng_Read =
     (case rng_Read 40 of Inl err \<Rightarrow> Inl err | Inr rnd \<Rightarrow> Inr (NewFiller rnd))"

fun testGeneration_loop :: "'p program_api \<Rightarrow> lib \<Rightarrow> nat \<Rightarrow> filler \<Rightarrow> filler option" where
  "testGeneration_loop P X 0 f = Some f"
| "testGeneration_loop P X (Suc n) f = do {
     (_, f) \<leftarrow> GenerateProgram P X f;
     testGeneration_loop P X n f
   }"

text \<open>\<open>since\<close> is the time measured, in nanoseconds.\<close>

definition testGeneration ::
    "'p program_api \<Rightarrow> lib \<Rightarrow> (nat \<Rightarrow> 'e + byte list) \<Rightarrow> int \<Rightarrow> int \<Rightarrow> (int \<times> 'e option) option" where
  "testGeneration P X rng_Read since N =
     (case newFiller rng_Read of
        Inl err \<Rightarrow> Some (1, Some err)
      | Inr f \<Rightarrow> do {
          _ \<leftarrow> testGeneration_loop P X (nat N) f;
          Some (since, None)
        })"

definition printResult :: "(int \<Rightarrow> string) \<Rightarrow> ('e \<Rightarrow> string) \<Rightarrow> string \<Rightarrow> int \<Rightarrow> 'e option \<Rightarrow> string" where
  "printResult dur_String err_String name time err =
     (case err of
        Some e \<Rightarrow> ''Benchmark '' @ name @ '' produced error: '' @ err_String e @ [CHR 0x0A]
      | None \<Rightarrow> ''Benchmark '' @ name @ '' took '' @ dur_String time @ '' '' @ [CHR 0x0A])"

text \<open>What a full benchmark prints.\<close>

definition RunFullBench ::
    "'p program_api \<Rightarrow> lib \<Rightarrow> (int \<Rightarrow> string) \<Rightarrow> ('e \<Rightarrow> string) \<Rightarrow> (nat \<Rightarrow> 'e + byte list) \<Rightarrow> int \<Rightarrow> int \<Rightarrow> string option" where
  "RunFullBench P X dur_String err_String rng_Read since N = do {
     (time, err) \<leftarrow> testGeneration P X rng_Read since N;
     Some (printResult dur_String err_String ''BenchmarkTestGeneration'' time err)
   }"

text \<open>The command \<open>bench\<close> with the number of its flag; it never reports an error.\<close>

definition bench ::
    "'p program_api \<Rightarrow> lib \<Rightarrow> (int \<Rightarrow> string) \<Rightarrow> ('e \<Rightarrow> string) \<Rightarrow> (nat \<Rightarrow> 'e + byte list) \<Rightarrow> int \<Rightarrow> int \<Rightarrow>
      (string \<times> 'e option) option" where
  "bench P X dur_String err_String rng_Read since n = do {
     out \<leftarrow> RunFullBench P X dur_String err_String rng_Read since n;
     Some (out, None)
   }"

subsection \<open>What the file system promises\<close>

text \<open>\<open>Dirs\<close> are the paths that exist, \<open>Files\<close> the contents of the files.\<close>

definition dir_laws ::
    "('w, 'e) dir_os \<Rightarrow> ('w \<Rightarrow> string set) \<Rightarrow> ('w \<Rightarrow> string \<Rightarrow> byte list option) \<Rightarrow> bool" where
  "dir_laws S Dirs Files \<longleftrightarrow>
     (\<forall>w d. dir_Stat S w d = Exists \<longrightarrow> d \<in> Dirs w) \<and>
     (\<forall>w d. Dirs w \<subseteq> Dirs (snd (dir_Mkdir S w d))) \<and>
     (\<forall>w d. fst (dir_Mkdir S w d) = None \<longrightarrow> d \<in> Dirs (snd (dir_Mkdir S w d))) \<and>
     (\<forall>w d. Files (snd (dir_Mkdir S w d)) = Files w) \<and>
     (\<forall>w p bs q. q \<noteq> p \<longrightarrow> Files (snd (dir_WriteFile S w p bs)) q = Files w q) \<and>
     (\<forall>w p bs. fst (dir_WriteFile S w p bs) = None \<longrightarrow> Files (snd (dir_WriteFile S w p bs)) p = Some bs)"

text \<open>Directories can be looked up and made.\<close>

definition dirs_work :: "('w, 'e) dir_os \<Rightarrow> bool" where
  "dirs_work S \<longleftrightarrow> (\<forall>w d. fst (dir_Mkdir S w d) = None) \<and> (\<forall>w d err. dir_Stat S w d \<noteq> StatErr err)"

lemma ensureDirs_Files: "dir_laws S Dirs Files \<Longrightarrow> Files (ensureDirs S dirs w) = Files w"
proof (induction dirs arbitrary: w)
  case (Cons d dirs)
  obtain e w' where mk: "dir_Mkdir S w d = (e, w')" by (cases "dir_Mkdir S w d")
  then have "Files w' = Files w" using Cons.prems unfolding dir_laws_def by (metis snd_conv)
  with Cons mk show ?case by (auto split: stat.splits option.splits)
qed simp

lemma ensureDirs_Dirs:
  assumes "dir_laws S Dirs Files" and "dirs_work S"
  shows "Dirs w \<union> set dirs \<subseteq> Dirs (ensureDirs S dirs w)"
proof (induction dirs arbitrary: w)
  case (Cons d dirs)
  obtain w' where mk: "dir_Mkdir S w d = (None, w')"
    using assms(2) unfolding dirs_work_def by (metis prod.collapse)
  have "Dirs w \<subseteq> Dirs w'" "d \<in> Dirs w'" "dir_Stat S w d = Exists \<Longrightarrow> d \<in> Dirs w"
    using assms(1) mk unfolding dir_laws_def by (metis fst_conv snd_conv)+
  moreover have "dir_Stat S w d = Exists \<or> dir_Stat S w d = NotExist"
    using assms(2) unfolding dirs_work_def by (metis stat.exhaust)
  ultimately show ?case using Cons.IH [of w] Cons.IH [of w'] mk by auto
qed simp

lemma run_dirs_eq:
  "run_dirs X = [outputRootDir, crashesDir] @ map (\<lambda>i. outputRootDir @ ''/'' @ Bytes2Hex X [of_nat i]) [0..<256]"
proof -
  have "foldl (\<lambda>ds i. ds @ [f i]) acc xs = acc @ map f xs" for f :: "nat \<Rightarrow> string" and acc xs
    by (induction xs arbitrary: acc) simp_all
  then show ?thesis by (simp add: run_dirs_def)
qed

lemma run_dirs_byte: "outputRootDir @ ''/'' @ Bytes2Hex X [h] \<in> set (run_dirs X)"
proof -
  have "unat h \<in> set [0..<256]" by simp
  moreover have "h = of_nat (unat h)" by simp
  ultimately show ?thesis unfolding run_dirs_eq by (metis (no_types, lifting) UnCI image_eqI list.set_map set_append)
qed

lemma Join_test_path:
  "test_path (Join path outputRootDir) h name =
    Join path (outputRootDir @ ''/'' @ hex_digits [h]) @ ''/'' @ name @ ''.json''"
  by (simp add: test_path_def Join_def)

subsection \<open>Properties\<close>

text \<open>C39. A run prepares what the fuzzer needs: when directories can be made, the processes it starts find
  their output directory in their environment, and for every hash the directory into which \<open>storeTest\<close>
  writes a test exists.\<close>

theorem run_prepares_test_paths:
  assumes "dir_laws S Dirs Files" and "dirs_work S" and "\<forall>bs. Bytes2Hex X bs = hex_digits bs"
    and "Getwd L = Inr path" and "\<forall>c. proc_Start L c = None"
  shows "\<exists>err cmd w' env. run X S L n w = Some (err, cmd, w') \<and> cmd_Env cmd = Some env \<and>
    (\<forall>temp h name. \<exists>d \<in> Dirs w'.
      test_path (SetFuzzyVMDir env temp) h name = Join path d @ ''/'' @ name @ ''.json'')"
proof -
  define cmd where "cmd = the (startGenerator L n)"
  define w' where "w' = ensureDirs S (run_dirs X) w"
  have start: "startGenerator L n = Some cmd" "cmd_Env cmd = Some (lch_Environ L @ [assign EnvKey (Join path outputRootDir)])"
    using assms(4,5) by (simp_all add: startGenerator_def Let_def cmd_def)
  have dir: "SetFuzzyVMDir (lch_Environ L @ [assign EnvKey (Join path outputRootDir)]) temp = Join path outputRootDir" for temp
    by (simp add: SetFuzzyVMDir_def lookup_env_append del: lookup_env.simps)
  have "outputRootDir @ ''/'' @ hex_digits [h] \<in> Dirs w'" for h
    using ensureDirs_Dirs [OF assms(1,2), of w "run_dirs X"] run_dirs_byte [of X h] assms(3) by (auto simp: w'_def)
  then have "\<forall>temp h name. \<exists>d \<in> Dirs w'. test_path
      (SetFuzzyVMDir (lch_Environ L @ [assign EnvKey (Join path outputRootDir)]) temp) h name = Join path d @ ''/'' @ name @ ''.json''"
    unfolding dir Join_test_path by blast
  then show ?thesis
    using start by (auto simp: run_def Let_def w'_def)
qed

text \<open>For the witnesses: files and directories as sets, where nothing fails.\<close>

definition sample_dirs :: "(string set \<times> (string \<rightharpoonup> byte list), string) dir_os" where
  "sample_dirs =
     \<lparr>ReadDir = (\<lambda>w d. Inr []), ReadFile = (\<lambda>w p. Inl ''no such file''), Remove = (\<lambda>w p. (None, w)),
      dir_Stat = (\<lambda>w d. if d \<in> fst w then Exists else NotExist),
      dir_Mkdir = (\<lambda>w d. (None, (insert d (fst w), snd w))),
      dir_WriteFile = (\<lambda>w p bs. (None, (insert p (fst w), (snd w)(p \<mapsto> bs))))\<rparr>"

lemma sample_dirs_laws: "dir_laws sample_dirs fst snd" and sample_dirs_work: "dirs_work sample_dirs"
  by (auto simp: dir_laws_def dirs_work_def sample_dirs_def)

definition sample_launcher :: "string launcher" where
  "sample_launcher = \<lparr>Getwd = Inr ''/w'', lch_Environ = [], proc_Start = (\<lambda>c. None), proc_Wait = (\<lambda>c. None)\<rparr>"

theorem run_prepares_test_paths_witness:
  "\<exists>err cmd w' env. run sample_lib sample_dirs sample_launcher 4 ({}, Map.empty) = Some (err, cmd, w') \<and>
    cmd_Env cmd = Some env \<and>
    (\<exists>d \<in> fst w'. test_path (SetFuzzyVMDir env ''/tmp'') 0xab ''t'' = Join ''/w'' d @ ''/'' @ ''t'' @ ''.json'')"
proof -
  have "\<forall>bs. Bytes2Hex sample_lib bs = hex_digits bs" "Getwd sample_launcher = Inr ''/w''"
    "\<forall>c. proc_Start sample_launcher c = None"
    by (simp_all add: sample_lib_def sample_launcher_def)
  from run_prepares_test_paths [OF sample_dirs_laws sample_dirs_work this, of 4 "({}, Map.empty)"]
  obtain err cmd w' env where "run sample_lib sample_dirs sample_launcher 4 ({}, Map.empty) = Some (err, cmd, w')"
    and "cmd_Env cmd = Some env"
    and paths: "\<forall>temp h name. \<exists>d \<in> fst w'. test_path (SetFuzzyVMDir env temp) h name = Join ''/w'' d @ ''/'' @ name @ ''.json''"
    by (elim exE conjE)
  moreover have "\<exists>d \<in> fst w'. test_path (SetFuzzyVMDir env ''/tmp'') 0xab ''t'' = Join ''/w'' d @ ''/'' @ ''t'' @ ''.json''"
    using paths by (elim allE)
  ultimately show ?thesis by (intro exI conjI)
qed

lemma corpus_loop_spec:
  assumes "program_laws P" and "lib_laws X" and S: "dir_laws S Dirs Files"
  shows "\<exists>err w'. corpus_loop P X S rand_Read sha1_Sum is w = Some (err, w') \<and>
    (\<forall>p. Files w' p = Files w p \<or>
      (\<exists>elem. p = corpus_file X sha1_Sum elem \<and> (Files w' p = Some elem \<or> err \<noteq> None)))"
proof (induction "is" arbitrary: w)
  case (Cons i "is")
  obtain r where r: "CreateNewCorpusElement P X (rand_Read i) = Some r"
    using CreateNewCorpusElement_Some [OF assms(1,2)] by blast
  show ?case
  proof (cases r)
    case (Inr elem)
    let ?p = "corpus_file X sha1_Sum elem"
    obtain e w1 where wr: "dir_WriteFile S w ?p elem = (e, w1)" by (cases "dir_WriteFile S w ?p elem")
    have w1: "q \<noteq> ?p \<Longrightarrow> Files w1 q = Files w q" "e = None \<Longrightarrow> Files w1 ?p = Some elem" for q
      using S wr unfolding dir_laws_def by (metis fst_conv snd_conv)+
    show ?thesis
    proof (cases e)
      case None
      obtain err w' where rec: "corpus_loop P X S rand_Read sha1_Sum is w1 = Some (err, w')"
        and w': "\<forall>p. Files w' p = Files w1 p \<or>
          (\<exists>elem. p = corpus_file X sha1_Sum elem \<and> (Files w' p = Some elem \<or> err \<noteq> None))"
        using Cons.IH [of w1] by (elim exE conjE)
      have "Files w' p = Files w p \<or>
          (\<exists>elem. p = corpus_file X sha1_Sum elem \<and> (Files w' p = Some elem \<or> err \<noteq> None))" for p
        using w' [rule_format, of p] w1 None by (cases "p = ?p") auto
      with rec show ?thesis by (simp add: r Inr wr None)
    next
      case (Some e')
      with w1(1) show ?thesis by (simp add: r Inr wr) metis
    qed
  qed (simp add: r)
qed simp

text \<open>The \<open>corpus\<close> command never crashes, and what it leaves in the corpus is content-addressed: any file
  it has changed has a name made of the SHA-1 hash of an element, and holds that element unless the
  command reports an error.\<close>

theorem corpus_content_addressed:
  assumes "program_laws P" and "lib_laws X" and "dir_laws S Dirs Files"
  shows "\<exists>err w'. corpus P X S rand_Read sha1_Sum n w = Some (err, w') \<and>
    (\<forall>p. Files w' p = Files w p \<or>
      (\<exists>elem. p = corpus_file X sha1_Sum elem \<and> (Files w' p = Some elem \<or> err \<noteq> None)))"
  using corpus_loop_spec [OF assms, of rand_Read sha1_Sum "[0..<nat n]" "ensureDirs S [''corpus''] w"]
  unfolding corpus_def Let_def ensureDirs_Files [OF assms(3)] .

theorem corpus_content_addressed_witness:
  "\<exists>err w'. corpus sample_program sample_lib sample_dirs (\<lambda>i n. Inr [1, 2, 3]) (\<lambda>bs. bs) 2 ({}, Map.empty) =
    Some (err, w')"
  using corpus_content_addressed [OF sample_program_laws sample_lib_laws sample_dirs_laws,
      of "\<lambda>i n. Inr [1, 2, 3]" "\<lambda>bs. bs" 2 "({}, Map.empty)"]
  by (elim exE conjE) (intro exI)

lemma testGeneration_loop_Some:
  "program_laws P \<Longrightarrow> lib_laws X \<Longrightarrow> filler_ok f \<Longrightarrow> \<exists>f'. testGeneration_loop P X n f = Some f'"
proof (induction n arbitrary: f)
  case (Suc n)
  obtain gst code f' where "GenerateProgram P X f = Some ((gst, code), f')" "filler_ok f'"
    using GenerateProgram_ok [OF Suc.prems] by (elim exE conjE)
  with Suc show ?case by simp
qed simp

text \<open>The benchmark runs as many generations as asked for on the same filler and never crashes.\<close>

theorem RunFullBench_returns:
  assumes "program_laws P" and "lib_laws X"
  shows "RunFullBench P X dur_String err_String rng_Read since N =
    Some (printResult dur_String err_String ''BenchmarkTestGeneration''
      (case rng_Read 40 of Inl err \<Rightarrow> 1 | Inr rnd \<Rightarrow> since)
      (case rng_Read 40 of Inl err \<Rightarrow> Some err | Inr rnd \<Rightarrow> None))"
proof (cases "rng_Read 40")
  case (Inr rnd)
  obtain f where "testGeneration_loop P X (nat N) (NewFiller rnd) = Some f"
    using testGeneration_loop_Some [OF assms filler_ok_NewFiller] by blast
  with Inr show ?thesis by (simp add: RunFullBench_def testGeneration_def newFiller_def)
qed (simp add: RunFullBench_def testGeneration_def newFiller_def)

theorem RunFullBench_returns_witness:
  "RunFullBench sample_program sample_lib (\<lambda>d. ''1s'') (\<lambda>e. e) (\<lambda>n. Inr [1, 2, 3]) 7 100 =
    Some (printResult (\<lambda>d. ''1s'') (\<lambda>e. e) ''BenchmarkTestGeneration'' 7 None)"
  using RunFullBench_returns [OF sample_program_laws sample_lib_laws,
      of "\<lambda>d. ''1s''" "\<lambda>e. e" "\<lambda>n. Inr [1, 2, 3]" 7 100] by simp

end
