(* ===== verification/Sampling.thy ===== *)
theory Sampling
  imports Corpus "HOL-Library.Multiset"
begin

text \<open>
  Sampling the lengths of corpus elements (\<open>SampleLengthCorpus\<close> of \<open>fuzzer/corpus.go\<close>) as interleaved
  steps: the caller hands tasks to a limiter, at most 16 of them run at a time, each sends one length
  into a buffered channel, and the caller reads the channel when all have finished.
\<close>

text \<open>
  The length task \<open>i\<close> sends: it creates an element from the random source, and an error comes with an empty
  element.
\<close>

definition sample_length ::
    "'p program_api \<Rightarrow> lib \<Rightarrow> (nat \<Rightarrow> nat \<Rightarrow> 'e + byte list) \<Rightarrow> nat \<Rightarrow> nat option" where
  "sample_length P X rand_Read i = do {
     r \<leftarrow> CreateNewCorpusElement P X (rand_Read i);
     let res = (case r of Inl err \<Rightarrow> [] | Inr res \<Rightarrow> res);
     Some (length res)
   }"

lemma sample_length_Some:
  "program_laws P \<Longrightarrow> lib_laws X \<Longrightarrow> \<exists>n. sample_length P X rand_Read i = Some n"
  using CreateNewCorpusElement_Some [of P X "rand_Read i"] by (auto simp: sample_length_def)

record sampling =
  submitted :: nat
  running :: "nat set"
  resChan :: "nat list"
  collected_res :: "nat list"

definition start_sampling :: sampling where
  "start_sampling = \<lparr>submitted = 0, running = {}, resChan = [], collected_res = []\<rparr>"

text \<open>
  \<open>len\<close> gives the length each task sends; a task that panics sends none.  \<open>Execute\<close> waits for one of the 16 tickets, and \<open>WaitAndClose\<close> for
  all tasks; a send waits for room in the channel of capacity \<open>N\<close>.
\<close>

inductive sample_step :: "nat \<Rightarrow> (nat \<Rightarrow> nat option) \<Rightarrow> sampling \<Rightarrow> sampling \<Rightarrow> bool" for N len where
  execute: "submitted s < N \<Longrightarrow> card (running s) < 16 \<Longrightarrow>
    sample_step N len s (s\<lparr>submitted := submitted s + 1, running := insert (submitted s) (running s)\<rparr>)"
| send: "i \<in> running s \<Longrightarrow> length (resChan s) < N \<Longrightarrow> len i = Some n \<Longrightarrow>
    sample_step N len s (s\<lparr>running := running s - {i}, resChan := resChan s @ [n]\<rparr>)"
| receive: "submitted s = N \<Longrightarrow> running s = {} \<Longrightarrow> length (collected_res s) < N \<Longrightarrow> resChan s = l # ls \<Longrightarrow>
    sample_step N len s (s\<lparr>resChan := ls, collected_res := collected_res s @ [l]\<rparr>)"

inductive sampled :: "nat \<Rightarrow> (nat \<Rightarrow> nat option) \<Rightarrow> sampling \<Rightarrow> bool" for N len where
  start: "sampled N len start_sampling"
| step: "sampled N len s \<Longrightarrow> sample_step N len s s' \<Longrightarrow> sampled N len s'"

definition sampling_done :: "nat \<Rightarrow> sampling \<Rightarrow> bool" where
  "sampling_done N s \<longleftrightarrow> submitted s = N \<and> running s = {} \<and> length (collected_res s) = N"

definition sampling_inv :: "nat \<Rightarrow> (nat \<Rightarrow> nat option) \<Rightarrow> sampling \<Rightarrow> bool" where
  "sampling_inv N len s \<longleftrightarrow> submitted s \<le> N \<and> running s \<subseteq> {..<submitted s} \<and>
     (collected_res s \<noteq> [] \<longrightarrow> submitted s = N \<and> running s = {}) \<and>
     image_mset Some (mset (resChan s) + mset (collected_res s)) + image_mset len (mset_set (running s)) =
       image_mset len (mset_set {..<submitted s})"

lemma sampling_finite: "sampling_inv N len s \<Longrightarrow> finite (running s)"
  by (auto simp: sampling_inv_def intro: finite_subset)

lemma sampling_size:
  assumes "sampling_inv N len s"
  shows "length (resChan s) + length (collected_res s) + card (running s) = submitted s"
proof -
  have "size (image_mset Some (mset (resChan s) + mset (collected_res s)) + image_mset len (mset_set (running s))) =
      size (image_mset len (mset_set {..<submitted s}))"
    using assms by (simp add: sampling_inv_def)
  then show ?thesis by simp
qed

lemma sampling_inv_step:
  assumes "sample_step N len s s'" and "sampling_inv N len s"
  shows "sampling_inv N len s'"
  using assms
proof (cases rule: sample_step.cases)
  case execute
  have "finite (running s)" "submitted s \<notin> running s"
    using sampling_finite [OF assms(2)] assms(2) by (auto simp: sampling_inv_def)
  with execute assms(2) show ?thesis
    by (auto simp: sampling_inv_def lessThan_Suc)
next
  case (send i n)
  have fin: "finite (running s)" by (rule sampling_finite [OF assms(2)])
  then have "mset_set (running s) = add_mset i (mset_set (running s - {i}))"
    using send(2) by (simp add: mset_set.remove)
  with send assms(2) show ?thesis by (auto simp: sampling_inv_def)
next
  case (receive l ls)
  with assms(2) show ?thesis by (auto simp: sampling_inv_def)
qed

lemma sampled_inv: "sampled N len s \<Longrightarrow> sampling_inv N len s"
proof (induction rule: sampled.induct)
  case start
  show ?case by (simp add: sampling_inv_def start_sampling_def)
qed (rule sampling_inv_step)

lemma sampling_progress:
  assumes inv: "sampling_inv N len s" and "\<not> sampling_done N s" and total: "\<forall>i. \<exists>n. len i = Some n"
  shows "\<exists>s'. sample_step N len s s'"
proof (cases "running s = {}")
  case True
  show ?thesis
  proof (cases "submitted s < N")
    case True
    with \<open>running s = {}\<close> show ?thesis by (intro exI) (rule execute, simp_all)
  next
    case False
    then have "submitted s = N" using inv by (simp add: sampling_inv_def)
    moreover have "length (resChan s) + length (collected_res s) = N"
      using sampling_size [OF inv] True calculation by simp
    ultimately obtain l ls where "resChan s = l # ls" "length (collected_res s) < N"
      using assms(2) True by (cases "resChan s") (auto simp: sampling_done_def)
    with \<open>submitted s = N\<close> True show ?thesis by (intro exI) (rule receive)
  qed
next
  case False
  then obtain i where i: "i \<in> running s" by blast
  obtain n where n: "len i = Some n" using total by blast
  from i have "0 < card (running s)" using sampling_finite [OF inv] by (auto simp: card_gt_0_iff)
  then have "length (resChan s) < N"
    using sampling_size [OF inv] inv by (simp add: sampling_inv_def)
  with i n show ?thesis by (intro exI) (rule send)
qed

text \<open>What is left to do: every task has to be handed out, to send, and to be read.\<close>

definition sampling_left :: "nat \<Rightarrow> sampling \<Rightarrow> nat" where
  "sampling_left N s = (N - submitted s) * 3 + card (running s) * 2 + length (resChan s)"

lemma sampling_decreases:
  assumes inv: "sampling_inv N len s" and "sample_step N len s s'"
  shows "sampling_left N s' < sampling_left N s"
  using assms(2)
proof (cases rule: sample_step.cases)
  case execute
  have "submitted s \<notin> running s" using inv by (auto simp: sampling_inv_def)
  with execute sampling_finite [OF inv] show ?thesis by (simp add: sampling_left_def)
next
  case (send i n)
  have "0 < card (running s)" using send(2) sampling_finite [OF inv] by (auto simp: card_gt_0_iff)
  with send sampling_finite [OF inv] show ?thesis by (simp add: sampling_left_def)
next
  case (receive l ls)
  then show ?thesis by (simp add: sampling_left_def)
qed

text \<open>C40. Sampling never deadlocks and always ends, on every random source: every state that can be reached is
  finished or can take a step, every step leaves less to do, and in a finished state the lengths
  returned are those of all tasks, each once, in the order in which they were sent.\<close>

theorem sampling_finishes:
  fixes rand_Read :: "nat \<Rightarrow> nat \<Rightarrow> 'e + byte list"
  assumes "program_laws P" and "lib_laws X"
  defines "len \<equiv> sample_length P X rand_Read"
  assumes "sampled N len s"
  shows "(sampling_done N s \<or> (\<exists>s'. sample_step N len s s')) \<and>
    (\<forall>s'. sample_step N len s s' \<longrightarrow> sampling_left N s' < sampling_left N s) \<and>
    (sampling_done N s \<longrightarrow> image_mset Some (mset (collected_res s)) = image_mset len (mset_set {..<N}))"
proof (intro conjI allI impI)
  have inv: "sampling_inv N len s" using assms(4) by (rule sampled_inv)
  show "sampling_done N s \<or> (\<exists>s'. sample_step N len s s')"
    using sampling_progress [OF inv] sample_length_Some [OF assms(1,2)] unfolding len_def by blast
  show "image_mset Some (mset (collected_res s)) = image_mset len (mset_set {..<N})" if "sampling_done N s"
    using that inv sampling_size [OF inv] by (auto simp: sampling_done_def sampling_inv_def)
  show "sampling_left N s' < sampling_left N s" if "sample_step N len s s'" for s'
    using inv that by (rule sampling_decreases)
qed

theorem sampling_finishes_witness:
  "\<exists>len s'. len = sample_length sample_program sample_lib (\<lambda>i n. Inr (replicate n (of_nat i)) :: string + byte list) \<and>
    sample_step 1 len start_sampling s' \<and> sampling_left 1 s' < sampling_left 1 start_sampling"
  using sampling_finishes [OF sample_program_laws sample_lib_laws sampled.start,
    of 1 "\<lambda>i n. Inr (replicate n (of_nat i)) :: string + byte list"]
  by (auto simp: sampling_done_def start_sampling_def)

end
