(* ===== verification/Cli.thy ===== *)
theory Cli
  imports Commands Generate Replay
begin

text \<open>
  The command lines of \<open>cmd/fuzzyvm\<close> (\<open>main.go\<close>, \<open>flags.go\<close>) and \<open>cmd/fuzzyvm-db\<close> (\<open>main.go\<close>,
  \<open>replay.go\<close>): the declarations of the commands and their flags, and the flags each action reads.  The
  package \<open>urfave/cli\<close>, which parses the arguments, is a parameter; \<open>cli_laws\<close> states what it promises about
  the flags of the command that was chosen.
\<close>

subsection \<open>Declarations\<close>

text \<open>The value of a flag, with the type of the flag; a duration is a number of nanoseconds.\<close>

datatype flag_value =
    StringValue string
  | IntValue int
  | BoolValue bool
  | DurationValue int

record flag =
  flag_Name :: string
  flag_Aliases :: "string list"
  flag_Usage :: string
  flag_Value :: flag_value

text \<open>The function an \<open>Action\<close> refers to.\<close>

datatype action =
    ActBench
  | ActCorpus
  | ActMinimizeCorpus
  | ActRun
  | ActInspect
  | ActGenerate
  | ActReplay

record cli_command =
  cc_Name :: string
  cc_Usage :: string
  cc_Action :: action
  cc_Flags :: "flag list"

record cli_app =
  app_Name :: string
  app_Usage :: string
  app_Commands :: "cli_command list"

definition Flag :: "string \<Rightarrow> string \<Rightarrow> flag_value \<Rightarrow> flag" where
  "Flag name usage v = \<lparr>flag_Name = name, flag_Aliases = [], flag_Usage = usage, flag_Value = v\<rparr>"

definition countFlag :: flag where
  "countFlag = Flag ''count'' ''Number of tests that should be benched/executed/generated'' (IntValue 0)"

definition threadsFlag :: "int \<Rightarrow> flag" where
  "threadsFlag numCPU =
     Flag ''threads'' ''Number of generator threads started (default = NUMCPU)'' (IntValue numCPU)"

definition benchCommand :: cli_command where
  "benchCommand = \<lparr>cc_Name = ''bench'', cc_Usage = ''Starts a benchmarking run'',
     cc_Action = ActBench, cc_Flags = [countFlag]\<rparr>"

definition corpusCommand :: cli_command where
  "corpusCommand = \<lparr>cc_Name = ''corpus'', cc_Usage = ''Generate corpus elements'',
     cc_Action = ActCorpus, cc_Flags = [countFlag]\<rparr>"

definition minCorpusCommand :: cli_command where
  "minCorpusCommand = \<lparr>cc_Name = ''minCorpus'',
     cc_Usage = ''Minimizes the corpus by removing duplicate elements'',
     cc_Action = ActMinimizeCorpus, cc_Flags = []\<rparr>"

definition runCommand :: "int \<Rightarrow> cli_command" where
  "runCommand numCPU = \<lparr>cc_Name = ''run'', cc_Usage = ''Runs the fuzzer'',
     cc_Action = ActRun, cc_Flags = [threadsFlag numCPU]\<rparr>"

definition initApp :: "int \<Rightarrow> cli_app" where
  "initApp numCPU = \<lparr>app_Name = ''FuzzyVM'', app_Usage = ''Generator for Ethereum Virtual Machine tests'',
     app_Commands = [benchCommand, corpusCommand, minCorpusCommand, runCommand numCPU]\<rparr>"

definition defaultDBFile :: string where "defaultDBFile = ''fuzzyvm-db.pebble''"

definition debugFlag :: flag where
  "debugFlag = Flag ''debug'' ''log the generation strategies chosen for each program to the console''
     (BoolValue False)"

definition dbFlag :: flag where
  "dbFlag = Flag ''db'' ''path to the pebble database'' (StringValue defaultDBFile)"

definition inspectCommand :: cli_command where
  "inspectCommand = \<lparr>cc_Name = ''inspect'', cc_Usage = ''print statistics about an existing database'',
     cc_Action = ActInspect, cc_Flags = [dbFlag]\<rparr>"

definition generateCommand :: cli_command where
  "generateCommand = \<lparr>cc_Name = ''generate'',
     cc_Usage = ''coverage-guided fuzzing that fills the database with EVM bytecodes'',
     cc_Action = ActGenerate,
     cc_Flags =
       [dbFlag,
        \<lparr>flag_Name = ''procs'', flag_Aliases = [''p''],
         flag_Usage = ''number of parallel fuzzing workers (0 = one per CPU)'', flag_Value = IntValue 0\<rparr>,
        Flag ''time'' ''how long to fuzz for (0 = until interrupted)'' (DurationValue 0),
        debugFlag]\<rparr>"

definition defaultCoverPkg :: string where
  "defaultCoverPkg = ''github.com/ethereum/go-ethereum/core/vm/...''"

definition replayCommand :: cli_command where
  "replayCommand = \<lparr>cc_Name = ''replay'',
     cc_Usage = ''replay the stored corpus through the EVM under coverage instrumentation and report which core/vm paths are reached'',
     cc_Action = ActReplay,
     cc_Flags =
       [dbFlag,
        Flag ''coverpkg'' ''package pattern to instrument for coverage'' (StringValue defaultCoverPkg),
        Flag ''coverprofile'' ''path to write the coverage profile'' (StringValue ''cover.out''),
        Flag ''html'' ''if set, render the coverage profile to this HTML file'' (StringValue []),
        Flag ''limit'' ''replay at most this many codes (0 = all)'' (IntValue 0),
        \<lparr>flag_Name = ''workers'', flag_Aliases = [''w''],
         flag_Usage = ''number of parallel replay workers (0 = one per CPU)'', flag_Value = IntValue 0\<rparr>,
        Flag ''timeout'' ''test timeout; large corpora may need hours'' (DurationValue 0)]\<rparr>"

definition db_app :: cli_app where
  "db_app = \<lparr>app_Name = ''fuzzyvm-db'',
     app_Usage = ''build and inspect a content-addressed database of EVM bytecodes'',
     app_Commands = [inspectCommand, generateCommand, replayCommand]\<rparr>"

text \<open>The two programs: the error that is printed, if any, and the exit code.\<close>

definition db_main :: "(cli_app \<Rightarrow> string list \<Rightarrow> 'e option) \<Rightarrow> string list \<Rightarrow> 'e option \<times> nat" where
  "db_main app_Run os_Args =
     (case app_Run db_app os_Args of Some err \<Rightarrow> (Some err, 1) | None \<Rightarrow> (None, 0))"

definition fuzzyvm_main ::
    "(cli_app \<Rightarrow> string list \<Rightarrow> 'e option) \<Rightarrow> int \<Rightarrow> string list \<Rightarrow> 'e option \<times> nat" where
  "fuzzyvm_main app_Run numCPU os_Args =
     (case app_Run (initApp numCPU) os_Args of Some err \<Rightarrow> (Some err, 1) | None \<Rightarrow> (None, 0))"

subsection \<open>What the actions read\<close>

text \<open>The accessors of \<open>cli.Context\<close>.\<close>

record 'c cli =
  ctx_String :: "'c \<Rightarrow> string \<Rightarrow> string"
  ctx_Int :: "'c \<Rightarrow> string \<Rightarrow> int"
  ctx_Bool :: "'c \<Rightarrow> string \<Rightarrow> bool"
  ctx_Duration :: "'c \<Rightarrow> string \<Rightarrow> int"

text \<open>The reads of \<open>generate\<close> and \<open>replay\<close>, in the order of the fields of the record.\<close>

definition generate_ctx :: "'c cli \<Rightarrow> 'c \<Rightarrow> generate_flags" where
  "generate_ctx C ctx =
     \<lparr>gf_db = ctx_String C ctx (flag_Name dbFlag), gf_procs = ctx_Int C ctx ''procs'',
      gf_time = ctx_Duration C ctx ''time'', gf_debug = ctx_Bool C ctx (flag_Name debugFlag)\<rparr>"

definition replay_ctx :: "'c cli \<Rightarrow> 'c \<Rightarrow> replay_flags" where
  "replay_ctx C ctx =
     \<lparr>rf_db = ctx_String C ctx (flag_Name dbFlag), rf_coverpkg = ctx_String C ctx ''coverpkg'',
      rf_coverprofile = ctx_String C ctx ''coverprofile'', rf_html = ctx_String C ctx ''html'',
      rf_limit = ctx_Int C ctx ''limit'', rf_workers = ctx_Int C ctx ''workers'',
      rf_timeout = ctx_Duration C ctx ''timeout''\<rparr>"

definition inspect_ctx :: "'c cli \<Rightarrow> 'c \<Rightarrow> string" where
  "inspect_ctx C ctx = ctx_String C ctx (flag_Name dbFlag)"

definition count_ctx :: "'c cli \<Rightarrow> 'c \<Rightarrow> int" where
  "count_ctx C ctx = ctx_Int C ctx (flag_Name countFlag)"

definition threads_ctx :: "'c cli \<Rightarrow> int \<Rightarrow> 'c \<Rightarrow> int" where
  "threads_ctx C numCPU ctx = ctx_Int C ctx (flag_Name (threadsFlag numCPU))"

text \<open>
  \<open>given\<close> are the flags set on the command line, under their names (an alias counts as the name).  A flag of
  the command has the value it is given, and otherwise the one it is declared with; the parser lets no value of
  another type through.
\<close>

fun reads :: "'c cli \<Rightarrow> 'c \<Rightarrow> string \<Rightarrow> flag_value \<Rightarrow> bool" where
  "reads C ctx n (StringValue s) = (ctx_String C ctx n = s)"
| "reads C ctx n (IntValue i) = (ctx_Int C ctx n = i)"
| "reads C ctx n (BoolValue b) = (ctx_Bool C ctx n = b)"
| "reads C ctx n (DurationValue d) = (ctx_Duration C ctx n = d)"

fun same_type :: "flag_value \<Rightarrow> flag_value \<Rightarrow> bool" where
  "same_type (StringValue _) (StringValue _) = True"
| "same_type (IntValue _) (IntValue _) = True"
| "same_type (BoolValue _) (BoolValue _) = True"
| "same_type (DurationValue _) (DurationValue _) = True"
| "same_type _ _ = False"

definition flag_of :: "(string \<Rightarrow> flag_value option) \<Rightarrow> flag \<Rightarrow> flag_value" where
  "flag_of given fl =
     (case given (flag_Name fl) of
        Some v \<Rightarrow> if same_type v (flag_Value fl) then v else flag_Value fl
      | None \<Rightarrow> flag_Value fl)"

definition cli_laws :: "'c cli \<Rightarrow> cli_command \<Rightarrow> (string \<Rightarrow> flag_value option) \<Rightarrow> 'c \<Rightarrow> bool" where
  "cli_laws C cmd given ctx \<longleftrightarrow>
     (\<forall>fl \<in> set (cc_Flags cmd). reads C ctx (flag_Name fl) (flag_of given fl))"

lemmas flag_defs = Flag_def countFlag_def threadsFlag_def debugFlag_def dbFlag_def
lemmas command_defs = benchCommand_def corpusCommand_def minCorpusCommand_def runCommand_def
  inspectCommand_def generateCommand_def replayCommand_def

text \<open>
  The declarations are well-formed: the commands of a program have different names, and so have the flags of a
  command, together with their aliases.
\<close>

theorem declarations_distinct:
  assumes "app \<in> {initApp numCPU, db_app}"
  shows "distinct (map cc_Name (app_Commands app)) \<and>
    (\<forall>cmd \<in> set (app_Commands app).
      distinct (concat (map (\<lambda>fl. flag_Name fl # flag_Aliases fl) (cc_Flags cmd))))"
  using assms by (auto simp: initApp_def db_app_def command_defs flag_defs)

theorem declarations_distinct_witness:
  "distinct (map cc_Name (app_Commands db_app))"
  using declarations_distinct [of db_app 8] by simp

text \<open>
  Every flag that \<open>generate\<close> and \<open>replay\<close> read is one of their command, of the type it is read as: what is given on
  the command line arrives at the action, and without flags the three commands of \<open>fuzzyvm-db\<close> work on the
  same database, and \<open>generate\<close> runs two workers fewer than there are processors, at least one, without a
  time limit.
\<close>

lemma flag_of_empty [simp]: "flag_of Map.empty fl = flag_Value fl"
  by (simp add: flag_of_def)

lemma read_flag:
  assumes "cli_laws C cmd given ctx" and "fl \<in> set (cc_Flags cmd)"
  shows "flag_Value fl = StringValue s \<Longrightarrow> StringValue (ctx_String C ctx (flag_Name fl)) = flag_of given fl"
    and "flag_Value fl = IntValue i \<Longrightarrow> IntValue (ctx_Int C ctx (flag_Name fl)) = flag_of given fl"
proof -
  have r: "reads C ctx (flag_Name fl) (flag_of given fl)"
    using assms by (simp add: cli_laws_def)
  have t: "same_type (flag_of given fl) (flag_Value fl)"
    by (cases "flag_Value fl") (simp_all add: flag_of_def split: option.split)
  show "flag_Value fl = StringValue s \<Longrightarrow> StringValue (ctx_String C ctx (flag_Name fl)) = flag_of given fl"
    using r t by (cases "flag_of given fl") simp_all
  show "flag_Value fl = IntValue i \<Longrightarrow> IntValue (ctx_Int C ctx (flag_Name fl)) = flag_of given fl"
    using r t by (cases "flag_of given fl") simp_all
qed

lemma db_read:
  assumes "cli_laws C cmd given ctx" and "dbFlag \<in> set (cc_Flags cmd)"
  shows "StringValue (ctx_String C ctx (flag_Name dbFlag)) = flag_of given dbFlag"
  by (rule read_flag(1) [OF assms]) (simp add: dbFlag_def Flag_def)

lemma generate_defaults:
  "cli_laws C generateCommand Map.empty ctx \<Longrightarrow>
    generate_ctx C ctx = \<lparr>gf_db = defaultDBFile, gf_procs = 0, gf_time = 0, gf_debug = False\<rparr>"
  by (simp add: cli_laws_def generateCommand_def flag_defs generate_ctx_def)

lemma replay_defaults:
  "cli_laws C replayCommand Map.empty ctx \<Longrightarrow>
    replay_ctx C ctx = \<lparr>rf_db = defaultDBFile, rf_coverpkg = defaultCoverPkg,
      rf_coverprofile = ''cover.out'', rf_html = [], rf_limit = 0, rf_workers = 0, rf_timeout = 0\<rparr>"
  by (simp add: cli_laws_def replayCommand_def flag_defs replay_ctx_def)

lemma run_threads:
  assumes "cli_laws C (runCommand numCPU) given ctx"
  shows "IntValue (threads_ctx C numCPU ctx) = flag_of given (threadsFlag numCPU)"
  unfolding threads_ctx_def
  by (rule read_flag(2) [OF assms, of _ numCPU]) (simp_all add: runCommand_def threadsFlag_def Flag_def)

theorem commands_share_database:
  assumes "cli_laws C generateCommand given cg" and "cli_laws C replayCommand given cr"
    and "cli_laws C inspectCommand given ci"
  shows "gf_db (generate_ctx C cg) = rf_db (replay_ctx C cr) \<and> rf_db (replay_ctx C cr) = inspect_ctx C ci \<and>
    (given = Map.empty \<longrightarrow> inspect_ctx C ci = defaultDBFile \<and>
      gen_procs S (generate_ctx C cg) = max 1 (NumCPU S - 2) \<and> gf_time (generate_ctx C cg) = 0)"
proof -
  have "dbFlag \<in> set (cc_Flags generateCommand)" "dbFlag \<in> set (cc_Flags replayCommand)"
    "dbFlag \<in> set (cc_Flags inspectCommand)" by (simp_all add: command_defs)
  from db_read [OF assms(1) this(1)] db_read [OF assms(2) this(2)] db_read [OF assms(3) this(3)]
  have "gf_db (generate_ctx C cg) = rf_db (replay_ctx C cr)" "rf_db (replay_ctx C cr) = inspect_ctx C ci"
    "StringValue (inspect_ctx C ci) = flag_of given dbFlag"
    by (simp_all add: generate_ctx_def replay_ctx_def inspect_ctx_def) (metis flag_value.inject(1))+
  moreover from this(3) have "inspect_ctx C ci = defaultDBFile" if "given = Map.empty"
    using that by (simp add: dbFlag_def Flag_def)
  ultimately show ?thesis
    using generate_defaults [of C cg] assms(1) by (auto simp: gen_procs_def Let_def)
qed

text \<open>A context that is the function of the given flags, for the witness.\<close>

definition sample_cli :: "(string \<Rightarrow> flag_value) cli" where
  "sample_cli =
     \<lparr>ctx_String = (\<lambda>c n. case c n of StringValue s \<Rightarrow> s | _ \<Rightarrow> []),
      ctx_Int = (\<lambda>c n. case c n of IntValue i \<Rightarrow> i | _ \<Rightarrow> 0),
      ctx_Bool = (\<lambda>c n. case c n of BoolValue b \<Rightarrow> b | _ \<Rightarrow> False),
      ctx_Duration = (\<lambda>c n. case c n of DurationValue d \<Rightarrow> d | _ \<Rightarrow> 0)\<rparr>"

definition sample_ctx :: "cli_command \<Rightarrow> string \<Rightarrow> flag_value" where
  "sample_ctx cmd n = the (map_of (map (\<lambda>fl. (flag_Name fl, flag_Value fl)) (cc_Flags cmd)) n)"

lemma sample_cli_laws:
  "cmd \<in> {generateCommand, replayCommand, inspectCommand} \<Longrightarrow> cli_laws sample_cli cmd Map.empty (sample_ctx cmd)"
  by (auto simp: cli_laws_def sample_cli_def sample_ctx_def flag_of_def command_defs flag_defs)

theorem commands_share_database_witness:
  "inspect_ctx sample_cli (sample_ctx inspectCommand) = ''fuzzyvm-db.pebble'' \<and>
    gen_procs full_disk (generate_ctx sample_cli (sample_ctx generateCommand)) = max 1 (NumCPU full_disk - 2)"
  using commands_share_database [where S = full_disk, OF sample_cli_laws sample_cli_laws sample_cli_laws]
  by (simp add: defaultDBFile_def)

end
