(* ===== verification/Spec2Isabelle.thy ===== *)
theory Spec2Isabelle
  imports Shutdown BenchMain Replay Workers Commands Sampling Cli
begin

text \<open>
  FuzzyVM turns bytes from a fuzzer into programs for the Ethereum virtual machine and runs them
  on several clients to compare the traces.  This development models the part that decides what
  is executed (the data source, the strategies, the precompile inputs and the generator), the
  fuzzing driver with its minimiser, and the database of programs with its server and client.

  \<^bold>\<open>Parts of the program and their theories.\<close>
  \<^item> \<open>Prelude\<close>: big-endian numbers, \<open>copy\<close>, indexing and slicing that panic out of range,
    \<open>sort.Search\<close>, and the judgement \<open>returns\<close> on optional results.  Everywhere a Go panic is \<open>None\<close>.
  \<^item> \<open>Filler\<close> (\<open>filler/fill.go\<close>): the cyclic data source.  Its record is the Go struct; the
    specification is an infinite tape, and every operation reads a segment of it.
  \<^item> \<open>Program_API\<close>: go-ethereum's bytecode builder, which is not part of the repository, as a record
    of methods with laws that state its documentation, and a sample builder for the witnesses.
  \<^item> \<open>EVM\<close>: a reference semantics written from the EVM specification: instruction layout and
    jump-destination analysis, stack effects, a one-step interpreter for the bounded loop and the
    operands of calls.
  \<^item> \<open>Environment\<close>, \<open>Selector\<close> (\<open>generator/strategy.go\<close>): the environment of a strategy, labels,
    \<open>CreateAndCall\<close>, the weighted selector.  The Go environment shares its fields by pointers, so a
    strategy is a function on environments.  The invariant \<open>env_ok\<close> and the relation \<open>env_le\<close> say
    what a strategy may do; the rules \<open>kept_intro\<close> prove it along the structure of the code.
  \<^item> \<open>Libraries\<close>: the other packages the code calls (curves, hashes, KZG, integers) as parameters
    with laws.
  \<^item> \<open>BasicStrategies\<close>, \<open>StackStrategies\<close>, \<open>JumpStrategies\<close>, \<open>Deploy\<close>, \<open>CallStrategies\<close>,
    \<open>CoverageStrategies\<close> (the files of the same names in \<open>generator/\<close>): the strategies, each with an
    interpretation of the locale \<open>strategy_contract\<close>.
  \<^item> \<open>Precompiles\<close>, \<open>PrecompilesCurves\<close>, \<open>PrecompilesBLS\<close>, \<open>PrecompilesKZG\<close>
    (\<open>generator/precompiles/\<close>): the inputs of the precompiled contracts, each caller with an
    interpretation of \<open>precompile_contract\<close>, and the dispatch \<open>CallPrecompile\<close>.
  \<^item> \<open>StateTest\<close>, \<open>Generator\<close> (\<open>generator/generator.go\<close>): the state test around a program; the rounds, the
    recursion and the budget.
  \<^item> \<open>HashTracer\<close>, \<open>Minimizer\<close>, \<open>Fuzzer\<close> (\<open>fuzzer/hashtracer.go\<close>, \<open>fuzzer/fuzzer.go\<close>): the trace
    hash, the capped trace buffer, the minimiser, the store of test cases and the entry points.
  \<^item> \<open>Corpus\<close>, \<open>Sampling\<close> (\<open>fuzzer/corpus.go\<close>): the halving search for a short corpus element; the
    concurrent sampling of lengths as interleaved steps.
  \<^item> \<open>CorpusMin\<close>, \<open>Commands\<close> (\<open>cmd/fuzzyvm/main.go\<close>, \<open>benchmark/bench.go\<close>): the minimisation of the corpus,
    the other commands and the benchmark of the generator.
  \<^item> \<open>Cli\<close> (\<open>cmd/fuzzyvm/flags.go\<close> and the declarations of both programs): commands, flags and defaults,
    and which flags each action reads.
  \<^item> \<open>Protocol\<close> (\<open>cmd/fuzzyvm-db/protocol.go\<close>): frames and blobs.
  \<^item> \<open>Store\<close>, \<open>Database\<close> (\<open>cmd/fuzzyvm-db/main.go\<close>): the interface \<open>db\<close> with its contract as the
    locales \<open>db_store\<close> and \<open>db_durable\<close>, the pebble database, and \<open>run\<close>, proved once for every
    implementation of the interface.
  \<^item> \<open>System\<close>, \<open>Generate\<close> (\<open>cmd/fuzzyvm-db/main.go\<close>): processes and their environment; the commands
    \<open>generate\<close> and \<open>inspect\<close> as sequences of events, checked against a discipline of resources.
  \<^item> \<open>Replay\<close>, \<open>ReplayExec\<close> (\<open>cmd/fuzzyvm-db/replay.go\<close>, \<open>replay_exec.go\<close>): the replay command, the coverage
    report, the two runs of a stored program and the walk over the database.
  \<^item> \<open>Workers\<close>: many workers that execute \<open>run\<close> at the same time, as interleaved steps, and the replay of what
    they have stored.
  \<^item> \<open>Server\<close>, \<open>Client\<close> (\<open>server.go\<close>, \<open>client.go\<close>): the requests, the handler of a connection, and
    the client, which implements the same interface over the two ends of a socket.
  \<^item> \<open>BenchInputs\<close>, \<open>Benchmarks\<close>, \<open>BenchLoops\<close>, \<open>Callees\<close>, \<open>BenchMain\<close> (\<open>cmd/precompileBench/\<close>): the inputs
    of the precompile benchmarks, compared with those of the generator; the programs, which are shown
    to repeat with a balanced stack; the contracts to be called and their accounts; the search for the
    slowest program.
  \<^item> \<open>Shutdown\<close> (\<open>server.go\<close>): the accept loop, the handlers and \<open>shutdown\<close> as interleaved steps.

  \<^bold>\<open>How the parts interact.\<close>  \<open>generateCode\<close> draws strategies with \<open>Select\<close> and runs them on one
  environment; the strategies read the filler and call the builder; two of them generate a nested
  program, so they take the generator as the argument \<open>gen\<close> and \<open>Generator\<close> ties the knot with a fuel
  that counts recursion levels.  A level above \<open>maxRecursionLevel\<close> does not recurse, so
  \<open>levels_left level + 1\<close> levels are enough, and more make no difference.

  \<^bold>\<open>What is shown.\<close>  Totality: no operation of the generator panics on any input, and every loop and
  the recursion end.  Budget: what a generation and its nested generations emit is accounted for.
  Labels: every recorded label is the position of a JUMPDEST byte, and a valid destination where the
  code is aligned (with a counterexample where it is not).  Stack: the stack-aware code never
  underflows in the reference semantics, the bounded loop ends and leaves the stack alone, the
  operands of a call are in place.  Selection: the draws are distributed as the weights say.
  Encodings: precompile inputs have the layouts of their specifications.  Minimiser: the result is a
  prefix with the trace of the whole program.  Storage: tests and codes are stored under their own
  hash, never overwritten, full and minimised code together, over the socket as on the database
  itself, also when many workers are interleaved; a failure of the transport always shows as \<open>errSocket\<close>.
  Shutdown: no request is worked on after it has
  returned, and it can always return.
  Commands: every resource taken is released in order on every path, the directories the fuzzer writes
  to exist before it starts, and a replay reports exactly the functions without coverage.

  \<^bold>\<open>Bounds.\<close>  Lengths and cursors of the filler are natural numbers; words have the width of the Go
  types; the results of \<open>math/big\<close> are integers.  Code positions are 64-bit words, so statements about
  positions assume less than \<open>2\<^sup>6\<^sup>4\<close> bytes of code.

  The counters of the server and the step counter of the tracer are unbounded.

  \<^bold>\<open>Not modelled.\<close>  The builder, the EVM, the clients, the pebble database, the operating system, the Go
  tool chain and the cryptographic libraries (parameters with laws); debug output, progress messages and
  clocks; the package that parses the command line (a parameter with laws).
\<close>

end
